(* ===== verification/C_Prelude.thy ===== *)
theory C_Prelude
  imports Main "HOL-Library.Word" "HOL-Library.Monad_Syntax"
begin

text \<open>
  Shared vocabulary of the development: addresses, bounds-checked C arrays, the integer
  conversions of a 64-bit Linux platform (\<open>short\<close> 16 bits, \<open>int\<close> 32 bits, \<open>long\<close>,
  \<open>size_t\<close> and \<open>off_t\<close> 64 bits), truncating division, the first-match table scan that
  every allocator of the code is built on, and the error numbers of Linux.

  A C function is a HOL function into \<open>option\<close>: \<open>Some\<close> is a normal return and
  \<open>None\<close> is no normal return (undefined behaviour such as a null dereference or an
  array access out of range, or a loop that never ends).
\<close>

section \<open>Addresses, results and error numbers\<close>

type_synonym addr = nat

abbreviation (input) NULL :: addr where "NULL \<equiv> 0"

abbreviation (input) EPERM :: int where "EPERM \<equiv> 1"
abbreviation (input) ENOENT :: int where "ENOENT \<equiv> 2"
abbreviation (input) ESRCH :: int where "ESRCH \<equiv> 3"
abbreviation (input) EBADF :: int where "EBADF \<equiv> 9"
abbreviation (input) EAGAIN :: int where "EAGAIN \<equiv> 11"
abbreviation (input) ENOMEM :: int where "ENOMEM \<equiv> 12"
abbreviation (input) EACCES :: int where "EACCES \<equiv> 13"
abbreviation (input) EBUSY :: int where "EBUSY \<equiv> 16"
abbreviation (input) EEXIST :: int where "EEXIST \<equiv> 17"
abbreviation (input) EISDIR :: int where "EISDIR \<equiv> 21"
abbreviation (input) EINVAL :: int where "EINVAL \<equiv> 22"
abbreviation (input) EMFILE :: int where "EMFILE \<equiv> 24"
abbreviation (input) EFBIG :: int where "EFBIG \<equiv> 27"
abbreviation (input) EDEADLK :: int where "EDEADLK \<equiv> 35"
abbreviation (input) ENOTEMPTY :: int where "ENOTEMPTY \<equiv> 39"

text \<open>\<open>EOF\<close> of stdio.h.\<close>

abbreviation (input) EOF_C :: int where "EOF_C \<equiv> -1"

named_theorems c_arr \<open>reading and writing bounds-checked arrays\<close>
named_theorems c_num \<open>C integer conversions and division\<close>

section \<open>C arrays\<close>

definition arr_get :: "'a list \<Rightarrow> int \<Rightarrow> 'a option" where
  "arr_get xs i = (if 0 \<le> i \<and> i < int (length xs) then Some (xs ! nat i) else None)"

definition arr_set :: "'a list \<Rightarrow> int \<Rightarrow> 'a \<Rightarrow> 'a list option" where
  "arr_set xs i v = (if 0 \<le> i \<and> i < int (length xs) then Some (xs[nat i := v]) else None)"

lemma arr_get_Some [c_arr]:
  "arr_get xs i = Some v \<longleftrightarrow> 0 \<le> i \<and> i < int (length xs) \<and> v = xs ! nat i"
  by (auto simp: arr_get_def)

lemma arr_get_None [c_arr]: "arr_get xs i = None \<longleftrightarrow> i < 0 \<or> int (length xs) \<le> i"
  by (auto simp: arr_get_def)

lemma arr_set_Some [c_arr]:
  "arr_set xs i v = Some ys \<longleftrightarrow> 0 \<le> i \<and> i < int (length xs) \<and> ys = xs[nat i := v]"
  by (auto simp: arr_set_def)

lemma arr_set_None [c_arr]: "arr_set xs i v = None \<longleftrightarrow> i < 0 \<or> int (length xs) \<le> i"
  by (auto simp: arr_set_def)

lemma arr_get_int [simp]: "n < length xs \<Longrightarrow> arr_get xs (int n) = Some (xs ! n)"
  by (simp add: arr_get_def)

lemma arr_set_int [simp]: "n < length xs \<Longrightarrow> arr_set xs (int n) v = Some (xs[n := v])"
  by (simp add: arr_set_def)

lemma arr_get_in: "0 \<le> i \<Longrightarrow> i < int (length xs) \<Longrightarrow> arr_get xs i = Some (xs ! nat i)"
  by (simp add: arr_get_def)

lemma arr_set_in: "0 \<le> i \<Longrightarrow> i < int (length xs) \<Longrightarrow> arr_set xs i v = Some (xs[nat i := v])"
  by (simp add: arr_set_def)

text \<open>Reading back a written cell, and any other cell.\<close>

lemma arr_get_set: "arr_set xs i v = Some ys \<Longrightarrow> arr_get ys j = (if j = i then Some v else arr_get xs j)"
  by (auto simp: arr_set_def arr_get_def nth_list_update split: if_splits)

lemma arr_set_length: "arr_set xs i v = Some ys \<Longrightarrow> length ys = length xs"
  by (auto simp: arr_set_def split: if_splits)

lemma map_upd_distinct:
  assumes "distinct qs" "i < length qs"
  shows "map (c(qs ! i := v)) qs = (map c qs)[i := v]"
  using assms by (intro nth_equalityI) (auto simp: nth_list_update nth_eq_iff_index_eq)

lemma map_upd_notin: "q \<notin> set qs \<Longrightarrow> map (c(q := v)) qs = map c qs"
  by (induction qs) auto

section \<open>The table scan\<close>

text \<open>
  \<^verbatim>\<open>for(i = 0; i < N; i++) if(P(tab[i])) return i;  return -1;\<close>
\<close>

primrec scan_from :: "('a \<Rightarrow> bool) \<Rightarrow> int \<Rightarrow> 'a list \<Rightarrow> int" where
  "scan_from P i [] = -1"
| "scan_from P i (x # xs) = (if P x then i else scan_from P (i + 1) xs)"

definition scan :: "('a \<Rightarrow> bool) \<Rightarrow> 'a list \<Rightarrow> int" where
  "scan P xs = scan_from P 0 xs"

lemma scan_from_ge: "0 \<le> i \<Longrightarrow> scan_from P i xs = -1 \<or> i \<le> scan_from P i xs"
proof (induction xs arbitrary: i)
  case Nil
  then show ?case by simp
next
  case (Cons x xs)
  from Cons.IH [of "i + 1"] Cons.prems show ?case by auto
qed

lemma scan_from_none: "0 \<le> i \<Longrightarrow> scan_from P i xs = -1 \<longleftrightarrow> (\<forall>x \<in> set xs. \<not> P x)"
proof (induction xs arbitrary: i)
  case Nil
  then show ?case by simp
next
  case (Cons x xs)
  from Cons.IH [of "i + 1"] Cons.prems show ?case by auto
qed

lemma scan_from_found:
  "0 \<le> i \<Longrightarrow> scan_from P i xs = i + int k \<longleftrightarrow>
     k < length xs \<and> P (xs ! k) \<and> (\<forall>j < k. \<not> P (xs ! j))"
proof (induction xs arbitrary: i k)
  case Nil
  then show ?case by simp
next
  case (Cons x xs)
  show ?case
  proof (cases k)
    case 0
    with Cons.prems scan_from_ge [of "i + 1" P xs] show ?thesis by auto
  next
    case (Suc n)
    have "scan_from P (i + 1) xs = i + int k \<longleftrightarrow>
        n < length xs \<and> P (xs ! n) \<and> (\<forall>j < n. \<not> P (xs ! j))"
      using Cons.IH [of "i + 1" n] Cons.prems Suc by (simp add: algebra_simps)
    moreover have "(\<forall>j < k. \<not> P ((x # xs) ! j)) \<longleftrightarrow> \<not> P x \<and> (\<forall>j < n. \<not> P (xs ! j))"
      using Suc by (auto simp: less_Suc_eq_0_disj)
    ultimately show ?thesis using Suc by auto
  qed
qed

lemma scan_none: "scan P xs = -1 \<longleftrightarrow> (\<forall>x \<in> set xs. \<not> P x)"
  by (simp add: scan_def scan_from_none)

lemma scan_eq_int:
  "scan P xs = int k \<longleftrightarrow> k < length xs \<and> P (xs ! k) \<and> (\<forall>j < k. \<not> P (xs ! j))"
  using scan_from_found [of 0 P xs k] by (simp add: scan_def)

lemma scan_cases:
  obtains (none) "scan P xs = -1" "\<forall>x \<in> set xs. \<not> P x"
    | (found) k where "scan P xs = int k" "k < length xs" "P (xs ! k)" "\<forall>j < k. \<not> P (xs ! j)"
proof (cases "scan P xs = -1")
  case True
  with that(1) show thesis by (simp add: scan_none)
next
  case False
  with scan_from_ge [of 0 P xs] have "0 \<le> scan P xs" by (auto simp: scan_def)
  then have "scan P xs = int (nat (scan P xs))" by simp
  with that(2) show thesis by (metis scan_eq_int)
qed

lemma scan_neg_iff: "scan P xs < 0 \<longleftrightarrow> (\<forall>x \<in> set xs. \<not> P x)"
  by (cases rule: scan_cases [of P xs]) (auto intro: nth_mem)

lemma scan_range: "-1 \<le> scan P xs" "scan P xs < int (length xs)"
  by (cases rule: scan_cases [of P xs]; simp)+

section \<open>C integers\<close>

text \<open>Division and remainder of C truncate towards zero.\<close>

definition c_div :: "int \<Rightarrow> int \<Rightarrow> int" where
  "c_div a b = sgn a * sgn b * (\<bar>a\<bar> div \<bar>b\<bar>)"

definition c_mod :: "int \<Rightarrow> int \<Rightarrow> int" where
  "c_mod a b = a - b * c_div a b"

text \<open>Conversion to \<open>short\<close> and \<open>int\<close> keeps the low bits (two's complement).\<close>

definition to_short :: "int \<Rightarrow> int" where
  "to_short i = sint (word_of_int i :: 16 word)"

definition to_int :: "int \<Rightarrow> int" where
  "to_int i = sint (word_of_int i :: 32 word)"

lemma c_div_nonneg [c_num]: "0 \<le> a \<Longrightarrow> 0 < b \<Longrightarrow> c_div a b = a div b"
  by (cases "a = 0") (auto simp: c_div_def)

lemma c_mod_nonneg [c_num]: "0 \<le> a \<Longrightarrow> 0 < b \<Longrightarrow> c_mod a b = a mod b"
  by (simp add: c_mod_def c_div_nonneg minus_mult_div_eq_mod)

lemma to_short_id [c_num]: "-32768 \<le> i \<Longrightarrow> i < 32768 \<Longrightarrow> to_short i = i"
  by (simp add: to_short_def signed_take_bit_int_eq_self_iff sint_sbintrunc')

lemma to_short_range: "-32768 \<le> to_short i" "to_short i < 32768"
  using sint_ge [of "word_of_int i :: 16 word"] sint_lt [of "word_of_int i :: 16 word"]
  by (simp_all add: to_short_def)

lemma to_int_id [c_num]: "-2147483648 \<le> i \<Longrightarrow> i < 2147483648 \<Longrightarrow> to_int i = i"
  by (simp add: to_int_def signed_take_bit_int_eq_self_iff sint_sbintrunc')

text \<open>Division that rounds up, as the code writes it.\<close>

lemma ceil_div:
  fixes a b :: int
  assumes "0 < b"
  shows "(if a mod b = 0 then a div b else a div b + 1) = (a + (b - 1)) div b"
proof -
  define q r where "q = a div b" and "r = a mod b"
  have l: "a = b * q + r" "0 \<le> r" "r < b" using assms by (simp_all add: q_def r_def)
  have "(a + (b - 1)) div b = (if r = 0 then q else q + 1)"
    by (rule int_div_pos_eq [where r = "if r = 0 then b - 1 else r - 1"]) (use l in \<open>auto simp: algebra_simps\<close>)
  then show ?thesis by (simp add: q_def r_def)
qed

lemma filter_drop: "distinct xs \<Longrightarrow> filter (\<lambda>x. x \<notin> set (take n xs)) xs = drop n xs"
proof -
  assume d: "distinct xs"
  then have "set (take n xs) \<inter> set (drop n xs) = {}" by (simp add: set_take_disj_set_drop_if_distinct)
  then have "filter (\<lambda>x. x \<notin> set (take n xs)) (take n xs @ drop n xs) = drop n xs"
    unfolding filter_append by (auto simp: filter_empty_conv intro!: filter_True)
  then show ?thesis by simp
qed

section \<open>Partial correctness\<close>

text \<open>
  \<open>post m Q\<close>: if the run \<open>m\<close> returns, its result satisfies \<open>Q\<close>. The rules split a run into its steps and keep
  what each step returned as a fact; none of them unfolds a \<open>let\<close>.
\<close>

definition post :: "'a option \<Rightarrow> ('a \<Rightarrow> bool) \<Rightarrow> bool" where
  "post m Q \<longleftrightarrow> (\<forall>r. m = Some r \<longrightarrow> Q r)"

named_theorems post_step \<open>splitting a run into its steps\<close>

lemma postD: "post m Q \<Longrightarrow> m = Some r \<Longrightarrow> Q r"
  by (simp add: post_def)

lemma post_bind [post_step]: "(\<And>r. m = Some r \<Longrightarrow> post (f r) Q) \<Longrightarrow> post (m \<bind> f) Q"
  by (cases m) (simp_all add: post_def)

lemma post_Some [post_step]: "Q r \<Longrightarrow> post (Some r) Q"
  by (simp add: post_def)

lemma post_None [post_step]: "post None Q"
  by (simp add: post_def)

lemma post_if [post_step]: "(b \<Longrightarrow> post m Q) \<Longrightarrow> (\<not> b \<Longrightarrow> post m' Q) \<Longrightarrow> post (if b then m else m') Q"
  by simp

lemma post_let [post_step]: "(\<And>x. x = e \<Longrightarrow> post (f x) Q) \<Longrightarrow> post (let x = e in f x) Q"
  by (simp add: Let_def)

lemma post_prod [post_step]: "(\<And>a b. p = (a, b) \<Longrightarrow> post (f a b) Q) \<Longrightarrow> post (case p of (a, b) \<Rightarrow> f a b) Q"
  by (cases p) simp

text \<open>A step known by its postcondition only.\<close>

lemma post_then: "post m R \<Longrightarrow> (\<And>r. R r \<Longrightarrow> post (f r) Q) \<Longrightarrow> post (m \<bind> f) Q"
  by (cases m) (simp_all add: post_def)

end
