(* ===== verification/Fifo_Runs.thy ===== *)
theory Fifo_Runs
  imports C_Prelude
begin

text \<open>
  Sequences of operations on a bounded queue. Both thread libraries keep FIFO queues in memory that can run out; they
  promise the same to the scheduler and differ only in how much memory taking an element gives back. The
  interface is a locale with this number as its parameter.
\<close>

datatype queue_op = Enq addr | Deq

fun enqueued :: "queue_op list \<Rightarrow> addr set" where
  "enqueued [] = {}"
| "enqueued (Enq t # ops) = insert t (enqueued ops)"
| "enqueued (Deq # ops) = enqueued ops"

text \<open>
  The specification: what taking returns on a list with room for \<open>k\<close> elements more, when taking one gives \<open>g\<close>
  back; \<open>None\<close> when an element is to be put where there is no room.
\<close>

fun fifo_run :: "nat \<Rightarrow> nat \<Rightarrow> queue_op list \<Rightarrow> addr list \<Rightarrow> addr list option" where
  "fifo_run g k [] ts = Some []"
| "fifo_run g k (Enq t # ops) ts = (case k of 0 \<Rightarrow> None | Suc k \<Rightarrow> fifo_run g k ops (ts @ [t]))"
| "fifo_run g k (Deq # ops) ts = (case ts of
     [] \<Rightarrow> map_option (Cons NULL) (fifo_run g k ops [])
   | t # ts \<Rightarrow> map_option (Cons t) (fifo_run g (k + g) ops ts))"

fun run_queue :: "(addr \<Rightarrow> 's \<Rightarrow> 's option) \<Rightarrow> ('s \<Rightarrow> (addr \<times> 's) option) \<Rightarrow> queue_op list \<Rightarrow> 's \<Rightarrow> (addr list \<times> 's) option" where
  "run_queue enq deq [] s = Some ([], s)"
| "run_queue enq deq (Enq t # ops) s = do { s \<leftarrow> enq t s; run_queue enq deq ops s }"
| "run_queue enq deq (Deq # ops) s = do { (t, s) \<leftarrow> deq s; (ts, s) \<leftarrow> run_queue enq deq ops s; Some (t # ts, s) }"

locale fifo_store =
  fixes rep :: "'s \<Rightarrow> addr list \<Rightarrow> bool"
    and room :: "'s \<Rightarrow> nat"
    and enq :: "addr \<Rightarrow> 's \<Rightarrow> 's option"
    and deq :: "'s \<Rightarrow> (addr \<times> 's) option"
    and gain :: nat
    and items :: "addr set"
  assumes enq_room: "\<lbrakk>rep s ts; 0 < room s; t \<in> items\<rbrakk> \<Longrightarrow> \<exists>s'. enq t s = Some s' \<and> rep s' (ts @ [t]) \<and> Suc (room s') = room s"
    and enq_none: "\<lbrakk>rep s ts; room s = 0\<rbrakk> \<Longrightarrow> enq t s = None"
    and deq_none: "rep s [] \<Longrightarrow> \<exists>s'. deq s = Some (NULL, s') \<and> rep s' [] \<and> room s' = room s"
    and deq_front: "rep s (t # ts) \<Longrightarrow> \<exists>s'. deq s = Some (t, s') \<and> rep s' ts \<and> room s' = room s + gain"
begin

lemma run_law:
  "\<lbrakk>rep s ts; enqueued ops \<subseteq> items\<rbrakk> \<Longrightarrow> map_option fst (run_queue enq deq ops s) = fifo_run gain (room s) ops ts"
proof (induction ops arbitrary: s ts)
  case Nil
  then show ?case by simp
next
  case (Cons a ops)
  show ?case
  proof (cases a)
    case (Enq t)
    show ?thesis
    proof (cases "room s")
      case 0
      then show ?thesis using enq_none [OF Cons.prems(1)] Enq by simp
    next
      case (Suc k)
      then obtain s' where "enq t s = Some s'" "rep s' (ts @ [t])" "room s' = k"
        using enq_room [OF Cons.prems(1), of t] Cons.prems(2) Enq by auto
      then show ?thesis using Cons.IH [of s' "ts @ [t]"] Cons.prems(2) Enq Suc by simp
    qed
  next
    case Deq
    have step: "map_option fst (run_queue enq deq (Deq # ops) s) = map_option (Cons t) (fifo_run gain (room s') ops us)"
      if "deq s = Some (t, s')" "rep s' us" for t s' us
    proof -
      have "map_option fst (run_queue enq deq ops s') = fifo_run gain (room s') ops us"
        using Cons.IH [OF that(2)] Cons.prems(2) Deq by simp
      then show ?thesis using that(1) by (cases "run_queue enq deq ops s'"; cases "fifo_run gain (room s') ops us") auto
    qed
    show ?thesis
    proof (cases ts)
      case Nil
      then show ?thesis using deq_none Cons.prems(1) step [of NULL _ "[]"] Deq by fastforce
    next
      case (Cons t us)
      then show ?thesis using deq_front \<open>rep s ts\<close> step [of t _ us] Deq by fastforce
    qed
  qed
qed

end

text \<open>When nothing is given back, the number of elements put decides.\<close>

fun puts :: "queue_op list \<Rightarrow> nat" where
  "puts [] = 0"
| "puts (Enq t # ops) = Suc (puts ops)"
| "puts (Deq # ops) = puts ops"

lemma fifo_run_dry: "fifo_run 0 k ops ts = None \<longleftrightarrow> k < puts ops"
  by (induction ops arbitrary: k ts rule: puts.induct) (auto split: nat.splits list.splits)

end
