(* ===== verification/Queue_Heap.thy ===== *)
theory Queue_Heap
  imports Fifo_Runs
begin

text \<open>
  The heap of the thread library of asst1 and the circular FIFO queue it keeps there.
  A \<open>Queue\<close> holds a pointer to its last \<open>Node\<close>; the nodes form a ring in which
  \<open>back->next\<close> is the front. The heap is one partial map per struct type together with
  the addresses the C allocator has left, so that \<open>malloc\<close> can fail, addresses are
  reused after \<open>free\<close>, and a dangling pointer is caught as \<open>None\<close>.

  The section after the operations relates a ring to the list of threads it stands for
  and shows that \<open>make_queue\<close>, \<open>enqueue\<close> and \<open>get_next\<close> are the list operations.
\<close>

section \<open>Structs and the allocator\<close>

record node =
  nd_thread :: addr
  nd_next :: addr

record queue =
  q_back :: addr
  q_size :: int

record tid_node =
  tn_tid :: int
  tn_next :: addr

record heap =
  hnodes :: "addr \<rightharpoonup> node"
  hqueues :: "addr \<rightharpoonup> queue"
  htids :: "addr \<rightharpoonup> tid_node"
  hraw :: "addr \<rightharpoonup> nat"
  hfree :: "addr list"

text \<open>\<open>malloc\<close> of the C library: some unused address, or \<open>NULL\<close> when memory is exhausted.\<close>

definition c_malloc :: "heap \<Rightarrow> addr \<times> heap" where
  "c_malloc h = (case hfree h of [] \<Rightarrow> (NULL, h) | a # as \<Rightarrow> (a, h\<lparr>hfree := as\<rparr>))"

text \<open>\<open>free\<close> of a \<open>Node\<close>, a \<open>Queue\<close>, a \<open>tid_node\<close> or an untyped buffer.\<close>

definition free_node :: "addr \<Rightarrow> heap \<Rightarrow> heap option" where
  "free_node p h = (case hnodes h p of None \<Rightarrow> None
     | Some _ \<Rightarrow> Some (h\<lparr>hnodes := (hnodes h)(p := None), hfree := p # hfree h\<rparr>))"

definition free_queue :: "addr \<Rightarrow> heap \<Rightarrow> heap option" where
  "free_queue p h = (case hqueues h p of None \<Rightarrow> None
     | Some _ \<Rightarrow> Some (h\<lparr>hqueues := (hqueues h)(p := None), hfree := p # hfree h\<rparr>))"

definition free_tid :: "addr \<Rightarrow> heap \<Rightarrow> heap option" where
  "free_tid p h = (case htids h p of None \<Rightarrow> None
     | Some _ \<Rightarrow> Some (h\<lparr>htids := (htids h)(p := None), hfree := p # hfree h\<rparr>))"

definition free_raw :: "addr \<Rightarrow> heap \<Rightarrow> heap option" where
  "free_raw p h = (case hraw h p of None \<Rightarrow> None
     | Some _ \<Rightarrow> Some (h\<lparr>hraw := (hraw h)(p := None), hfree := p # hfree h\<rparr>))"

text \<open>Stores to one field through a pointer.\<close>

definition set_next :: "addr \<Rightarrow> addr \<Rightarrow> heap \<Rightarrow> heap option" where
  "set_next p v h = (case hnodes h p of None \<Rightarrow> None
     | Some n \<Rightarrow> Some (h\<lparr>hnodes := (hnodes h)(p \<mapsto> n\<lparr>nd_next := v\<rparr>)\<rparr>))"

definition set_queue :: "addr \<Rightarrow> (queue \<Rightarrow> queue) \<Rightarrow> heap \<Rightarrow> heap option" where
  "set_queue p f h = (case hqueues h p of None \<Rightarrow> None
     | Some q \<Rightarrow> Some (h\<lparr>hqueues := (hqueues h)(p \<mapsto> f q)\<rparr>))"

section \<open>The queue operations of my_pthread.c\<close>

definition make_queue :: "heap \<Rightarrow> addr \<times> heap" where
  "make_queue h = (case c_malloc h of (new, h1) \<Rightarrow>
     if new = NULL then (NULL, h1)
     else (new, h1\<lparr>hqueues := (hqueues h1)(new \<mapsto> \<lparr>q_back = NULL, q_size = 0\<rparr>)\<rparr>))"

definition get_next :: "addr \<Rightarrow> heap \<Rightarrow> (addr \<times> heap) option" where
  "get_next Q h = do {
     q \<leftarrow> hqueues h Q;
     if q_size q = 0 then Some (NULL, h)
     else if q_size q = 1 then do {
       b \<leftarrow> hnodes h (q_back q);
       h \<leftarrow> free_node (q_back q) h;
       h \<leftarrow> set_queue Q (\<lambda>q. q\<lparr>q_back := NULL\<rparr>) h;
       h \<leftarrow> set_queue Q (\<lambda>q. q\<lparr>q_size := q_size q - 1\<rparr>) h;
       Some (nd_thread b, h) }
     else do {
       b \<leftarrow> hnodes h (q_back q);
       f \<leftarrow> hnodes h (nd_next b);
       let temp = nd_next b;
       h \<leftarrow> (if q_size q = 2 then set_next (q_back q) (q_back q) h
             else set_next (q_back q) (nd_next f) h);
       h \<leftarrow> free_node temp h;
       h \<leftarrow> set_queue Q (\<lambda>q. q\<lparr>q_size := q_size q - 1\<rparr>) h;
       Some (nd_thread f, h) }
   }"

definition enqueue :: "addr \<Rightarrow> addr \<Rightarrow> heap \<Rightarrow> heap option" where
  "enqueue thread Q h = (case c_malloc h of (new, h) \<Rightarrow>
     if new = NULL then None
     else do {
       let h = h\<lparr>hnodes := (hnodes h)(new \<mapsto> \<lparr>nd_thread = thread, nd_next = NULL\<rparr>)\<rparr>;
       q \<leftarrow> hqueues h Q;
       h \<leftarrow> (if q_size q \<noteq> 0 then do {
                b \<leftarrow> hnodes h (q_back q);
                h \<leftarrow> set_next new (nd_next b) h;
                set_next (q_back q) new h }
              else set_next new new h);
       h \<leftarrow> set_queue Q (\<lambda>q. q\<lparr>q_back := new\<rparr>) h;
       set_queue Q (\<lambda>q. q\<lparr>q_size := q_size q + 1\<rparr>) h })"

section \<open>Rings and the lists they represent\<close>

text \<open>\<open>seg ns p xs q\<close>: following \<open>next\<close> from \<open>p\<close> visits the nodes \<open>xs\<close> and arrives at \<open>q\<close>.\<close>

primrec seg :: "(addr \<rightharpoonup> node) \<Rightarrow> addr \<Rightarrow> addr list \<Rightarrow> addr \<Rightarrow> bool" where
  "seg ns p [] q \<longleftrightarrow> p = q"
| "seg ns p (x # xs) q \<longleftrightarrow> p = x \<and> (\<exists>n. ns x = Some n \<and> seg ns (nd_next n) xs q)"

definition ring :: "(addr \<rightharpoonup> node) \<Rightarrow> addr \<Rightarrow> addr list \<Rightarrow> bool" where
  "ring ns b xs \<longleftrightarrow> distinct xs \<and> (xs \<noteq> [] \<longrightarrow> b = last xs \<and> seg ns (hd xs) xs (hd xs))"

text \<open>The nodes of a queue from front to back, computed by following \<open>size\<close> links.\<close>

primrec walk :: "(addr \<rightharpoonup> node) \<Rightarrow> nat \<Rightarrow> addr \<Rightarrow> addr list" where
  "walk ns 0 p = []"
| "walk ns (Suc k) p = p # walk ns k (case ns p of None \<Rightarrow> NULL | Some n \<Rightarrow> nd_next n)"

definition qnodes :: "heap \<Rightarrow> addr \<Rightarrow> addr list" where
  "qnodes h Q = (case hqueues h Q of None \<Rightarrow> []
     | Some q \<Rightarrow> (case hnodes h (q_back q) of None \<Rightarrow> []
         | Some b \<Rightarrow> walk (hnodes h) (nat (q_size q)) (nd_next b)))"

definition contents :: "heap \<Rightarrow> addr \<Rightarrow> addr list" where
  "contents h Q = map (\<lambda>p. case hnodes h p of None \<Rightarrow> NULL | Some n \<Rightarrow> nd_thread n) (qnodes h Q)"

definition queue_ok :: "heap \<Rightarrow> addr \<Rightarrow> addr list \<Rightarrow> bool" where
  "queue_ok h Q xs \<longleftrightarrow> (\<exists>q. hqueues h Q = Some q \<and> q_size q = int (length xs) \<and>
     ring (hnodes h) (q_back q) xs \<and> set xs \<subseteq> dom (hnodes h) \<and> (xs = [] \<longrightarrow> q_back q = NULL))"

text \<open>
  The heap invariant: the allocator's free addresses are distinct, not \<open>NULL\<close> and not in
  use, every queue is a ring, distinct queues share no node, and every node is in a queue
  (no node leaks). \<open>heap_rep h f\<close> names the nodes \<open>f Q\<close> of each queue.
\<close>

definition base :: "addr list \<Rightarrow> addr set \<Rightarrow> addr set \<Rightarrow> addr set \<Rightarrow> addr set \<Rightarrow> bool" where
  "base fr N Q T R \<longleftrightarrow> distinct fr \<and> NULL \<notin> set fr \<union> N \<union> Q \<union> T \<union> R \<and>
     set fr \<inter> (N \<union> Q \<union> T \<union> R) = {} \<and> N \<inter> (Q \<union> T \<union> R) = {} \<and> Q \<inter> (T \<union> R) = {} \<and> T \<inter> R = {}"

definition heap_base :: "heap \<Rightarrow> bool" where
  "heap_base h \<longleftrightarrow> base (hfree h) (dom (hnodes h)) (dom (hqueues h)) (dom (htids h)) (dom (hraw h))"

definition heap_rep :: "heap \<Rightarrow> (addr \<Rightarrow> addr list) \<Rightarrow> bool" where
  "heap_rep h f \<longleftrightarrow> heap_base h \<and>
     (\<forall>Q \<in> dom (hqueues h). queue_ok h Q (f Q)) \<and>
     (\<forall>Q \<in> dom (hqueues h). \<forall>R \<in> dom (hqueues h). Q \<noteq> R \<longrightarrow> set (f Q) \<inter> set (f R) = {}) \<and>
     dom (hnodes h) = (\<Union>Q \<in> dom (hqueues h). set (f Q))"

definition heap_ok :: "heap \<Rightarrow> bool" where
  "heap_ok h \<longleftrightarrow> heap_rep h (qnodes h)"

subsection \<open>Allocation bookkeeping\<close>

lemma base_alloc:
  assumes "base (a # as) N Q T R"
  shows "base as (insert a N) Q T R" "base as N (insert a Q) T R"
    "base as N Q (insert a T) R" "base as N Q T (insert a R)" "base as N Q T R"
  using assms by (auto simp: base_def)

lemma base_fresh: "base (a # as) N Q T R \<Longrightarrow> a \<noteq> NULL \<and> a \<notin> set as \<and> a \<notin> N \<and> a \<notin> Q \<and> a \<notin> T \<and> a \<notin> R"
  by (auto simp: base_def)

lemma base_free:
  assumes "base fr N Q T R"
  shows "x \<in> N \<Longrightarrow> base (x # fr) (N - {x}) Q T R" "x \<in> Q \<Longrightarrow> base (x # fr) N (Q - {x}) T R"
    "x \<in> T \<Longrightarrow> base (x # fr) N Q (T - {x}) R" "x \<in> R \<Longrightarrow> base (x # fr) N Q T (R - {x})"
  using assms by (auto simp: base_def)

subsection \<open>Segments and rings\<close>

lemma seg_append: "seg ns p (xs @ ys) q \<longleftrightarrow> (\<exists>r. seg ns p xs r \<and> seg ns r ys q)"
  by (induction xs arbitrary: p) auto

lemma seg_upd [simp]: "a \<notin> set xs \<Longrightarrow> seg (ns(a := v)) p xs q = seg ns p xs q"
  by (induction xs arbitrary: p) auto

lemma seg_walk: "seg ns p xs q \<Longrightarrow> walk ns (length xs) p = xs"
  by (induction xs arbitrary: p) auto

lemma seg_dom: "seg ns p xs q \<Longrightarrow> set xs \<subseteq> dom ns"
  by (induction xs arbitrary: p) auto

lemma ring_upd [simp]: "a \<notin> set xs \<Longrightarrow> ring (ns(a := v)) b xs = ring ns b xs"
  by (simp add: ring_def)

lemma ring_snocD:
  assumes "ring ns b (xs @ [y])"
  shows "b = y" "distinct xs" "y \<notin> set xs" "seg ns (hd (xs @ [y])) xs y"
    and "\<exists>n. ns y = Some n \<and> nd_next n = hd (xs @ [y])"
  using assms by (auto simp: ring_def seg_append)

lemma ring_snocI:
  assumes "distinct xs" "y \<notin> set xs" "seg ns (hd (xs @ [y])) xs y"
    and "ns y = Some n" "nd_next n = hd (xs @ [y])"
  shows "ring ns y (xs @ [y])"
  using assms by (auto simp: ring_def seg_append)

lemma queue_ok_qnodes:
  assumes "queue_ok h Q xs" "NULL \<notin> dom (hnodes h)"
  shows "qnodes h Q = xs"
proof (cases xs rule: rev_cases)
  case Nil
  with assms show ?thesis by (auto simp: queue_ok_def qnodes_def split: option.splits)
next
  case (snoc ys y)
  from assms(1) snoc obtain q where q: "hqueues h Q = Some q" "q_size q = int (length xs)"
      "ring (hnodes h) (q_back q) (ys @ [y])"
    by (auto simp: queue_ok_def)
  from ring_snocD [OF q(3)] obtain n where
      n: "q_back q = y" "hnodes h y = Some n" "nd_next n = hd (ys @ [y])" by auto
  have "seg (hnodes h) (hd (ys @ [y])) (ys @ [y]) (hd (ys @ [y]))"
    using q(3) by (simp add: ring_def)
  from seg_walk [OF this] have "walk (hnodes h) (nat (q_size q)) (hd (ys @ [y])) = ys @ [y]"
    using q(2) snoc by (simp only: nat_int)
  with q(1) n show ?thesis by (simp add: qnodes_def snoc)
qed

lemma heap_base_null: "heap_base h \<Longrightarrow> NULL \<notin> dom (hnodes h)"
  by (simp add: heap_base_def base_def)

lemma heap_repD:
  assumes "heap_rep h f"
  shows "heap_base h"
    and "Q \<in> dom (hqueues h) \<Longrightarrow> queue_ok h Q (f Q)"
    and "Q \<in> dom (hqueues h) \<Longrightarrow> R \<in> dom (hqueues h) \<Longrightarrow> Q \<noteq> R \<Longrightarrow> set (f Q) \<inter> set (f R) = {}"
    and "dom (hnodes h) = (\<Union>Q \<in> dom (hqueues h). set (f Q))"
  using assms by (simp_all add: heap_rep_def)

lemma heap_rep_qnodes: "heap_rep h f \<Longrightarrow> Q \<in> dom (hqueues h) \<Longrightarrow> qnodes h Q = f Q"
  by (rule queue_ok_qnodes [OF heap_repD(2) heap_base_null [OF heap_repD(1)]])

lemma heap_rep_ok: "heap_rep h f \<Longrightarrow> heap_ok h"
  using heap_rep_qnodes [of h f] by (simp add: heap_ok_def heap_rep_def)

subsection \<open>enqueue appends\<close>

lemma enqueue_eval_empty:
  assumes "hfree h = a # as" "a \<noteq> NULL" "hqueues h Q = Some q" "q_size q = 0"
  shows "enqueue t Q h = Some (h\<lparr>hfree := as,
      hnodes := (hnodes h)(a \<mapsto> \<lparr>nd_thread = t, nd_next = a\<rparr>),
      hqueues := (hqueues h)(Q \<mapsto> q\<lparr>q_back := a, q_size := 1\<rparr>)\<rparr>)"
  using assms by (simp add: enqueue_def c_malloc_def set_next_def set_queue_def Let_def)

lemma enqueue_eval_nonempty:
  assumes "hfree h = a # as" "a \<noteq> NULL" "hqueues h Q = Some q" "q_size q \<noteq> 0"
    and "hnodes h (q_back q) = Some b" "q_back q \<noteq> a"
  shows "enqueue t Q h = Some (h\<lparr>hfree := as,
      hnodes := (hnodes h)(a \<mapsto> \<lparr>nd_thread = t, nd_next = nd_next b\<rparr>, q_back q \<mapsto> b\<lparr>nd_next := a\<rparr>),
      hqueues := (hqueues h)(Q \<mapsto> q\<lparr>q_back := a, q_size := q_size q + 1\<rparr>)\<rparr>)"
  using assms by (simp add: enqueue_def c_malloc_def set_next_def set_queue_def Let_def)

definition node_thread :: "heap \<Rightarrow> addr \<Rightarrow> addr" where
  "node_thread h p = (case hnodes h p of None \<Rightarrow> NULL | Some n \<Rightarrow> nd_thread n)"

lemma contents_map: "contents h Q = map (node_thread h) (qnodes h Q)"
  by (simp add: contents_def node_thread_def [abs_def])

text \<open>
  The ring after \<open>enqueue\<close> is the ring before with the new node behind the last one; all
  other queues keep their nodes.
\<close>

lemma enqueue_rep:
  assumes rep: "heap_rep h f" and Q: "Q \<in> dom (hqueues h)" and free: "hfree h = a # as"
  shows "\<exists>h'. enqueue t Q h = Some h' \<and> heap_rep h' (f(Q := f Q @ [a])) \<and> hfree h' = as \<and>
    dom (hqueues h') = dom (hqueues h) \<and> htids h' = htids h \<and> hraw h' = hraw h \<and>
    node_thread h' = (node_thread h)(a := t)"
proof -
  note D = heap_repD [OF rep]
  from D(1) free have base: "base (a # as) (dom (hnodes h)) (dom (hqueues h)) (dom (htids h)) (dom (hraw h))"
    by (simp add: heap_base_def)
  from base_fresh [OF base] have a: "a \<noteq> NULL" "a \<notin> dom (hnodes h)" by simp_all
  from D(2) [OF Q] obtain q where q: "hqueues h Q = Some q" "q_size q = int (length (f Q))"
      "ring (hnodes h) (q_back q) (f Q)" "set (f Q) \<subseteq> dom (hnodes h)"
      "f Q = [] \<Longrightarrow> q_back q = NULL" by (auto simp: queue_ok_def)
  have notin: "a \<notin> set (f R)" if "R \<in> dom (hqueues h)" for R
    using D(4) a(2) that by auto
  obtain h' where h': "enqueue t Q h = Some h'" "hfree h' = as" "htids h' = htids h"
      "hraw h' = hraw h" "dom (hqueues h') = dom (hqueues h)"
      "dom (hnodes h') = insert a (dom (hnodes h))" "queue_ok h' Q (f Q @ [a])"
      "\<And>R. R \<in> dom (hqueues h) \<Longrightarrow> R \<noteq> Q \<Longrightarrow> queue_ok h' R (f R)"
      "node_thread h' = (node_thread h)(a := t)"
  proof (cases "f Q" rule: rev_cases)
    case Nil
    let ?h' = "h\<lparr>hfree := as, hnodes := (hnodes h)(a \<mapsto> \<lparr>nd_thread = t, nd_next = a\<rparr>),
      hqueues := (hqueues h)(Q \<mapsto> q\<lparr>q_back := a, q_size := 1\<rparr>)\<rparr>"
    show thesis
    proof (rule that [of ?h'])
      show "enqueue t Q h = Some ?h'"
        using enqueue_eval_empty [OF free a(1) q(1)] q(2) Nil by simp
      show "queue_ok ?h' Q (f Q @ [a])" using Nil by (simp add: queue_ok_def ring_def)
      show "queue_ok ?h' R (f R)" if "R \<in> dom (hqueues h)" "R \<noteq> Q" for R
        using D(2) [OF that(1)] notin [OF that(1)] that(2) by (auto simp: queue_ok_def)
    qed (use q(1) in \<open>auto simp: node_thread_def\<close>)
  next
    case (snoc ys y)
    note r = ring_snocD [OF q(3) [unfolded snoc]]
    from r(5) obtain n where n: "hnodes h y = Some n" "nd_next n = hd (ys @ [y])" by auto
    have ya: "y \<noteq> a" using a(2) n(1) by auto
    let ?ns = "(hnodes h)(a \<mapsto> \<lparr>nd_thread = t, nd_next = nd_next n\<rparr>, y \<mapsto> n\<lparr>nd_next := a\<rparr>)"
    let ?h' = "h\<lparr>hfree := as, hnodes := ?ns,
      hqueues := (hqueues h)(Q \<mapsto> q\<lparr>q_back := a, q_size := q_size q + 1\<rparr>)\<rparr>"
    have ays: "a \<notin> set ys" using notin [OF Q] snoc by simp
    have ring: "ring ?ns a ((ys @ [y]) @ [a])"
    proof (rule ring_snocI)
      show "seg ?ns (hd ((ys @ [y]) @ [a])) (ys @ [y]) a"
        using r(3,4) ays ya by (auto simp: seg_append hd_append)
      show "?ns a = Some \<lparr>nd_thread = t, nd_next = nd_next n\<rparr>" using ya by simp
    qed (use r ays ya n in \<open>auto simp: hd_append\<close>)
    show thesis
    proof (rule that [of ?h'])
      show "enqueue t Q h = Some ?h'"
        using enqueue_eval_nonempty [OF free a(1) q(1)] q(2) snoc r(1) n(1) ya by simp
      show "queue_ok ?h' Q (f Q @ [a])"
        using ring q(2,4) snoc by (auto simp: queue_ok_def)
      show "queue_ok ?h' R (f R)" if R: "R \<in> dom (hqueues h)" "R \<noteq> Q" for R
      proof -
        have "y \<notin> set (f R)" using D(3) [OF Q R(1)] R(2) snoc by auto
        with D(2) [OF R(1)] notin [OF R(1)] R(2) show ?thesis by (auto simp: queue_ok_def)
      qed
    qed (use q(1) n(1) ya in \<open>auto simp: node_thread_def\<close>)
  qed
  have "heap_rep h' (f(Q := f Q @ [a]))"
    unfolding heap_rep_def
  proof (intro conjI)
    show "heap_base h'"
      using base_alloc(1) [OF base] h'(2-6) by (simp add: heap_base_def)
    show "\<forall>R \<in> dom (hqueues h'). queue_ok h' R ((f(Q := f Q @ [a])) R)"
      using h'(5,7,8) by simp
    show "\<forall>R \<in> dom (hqueues h'). \<forall>S \<in> dom (hqueues h'). R \<noteq> S \<longrightarrow>
        set ((f(Q := f Q @ [a])) R) \<inter> set ((f(Q := f Q @ [a])) S) = {}"
      using D(3) notin by (auto simp: h'(5))
    show "dom (hnodes h') = (\<Union>R \<in> dom (hqueues h'). set ((f(Q := f Q @ [a])) R))"
      using D(4) Q by (auto simp: h'(5,6) split: if_splits)
  qed
  with h' show ?thesis by blast
qed

subsection \<open>get_next takes the front\<close>

lemma get_next_eval_one:
  assumes "hqueues h Q = Some q" "q_size q = 1" "hnodes h (q_back q) = Some b"
  shows "get_next Q h = Some (nd_thread b, h\<lparr>hnodes := (hnodes h)(q_back q := None),
      hfree := q_back q # hfree h,
      hqueues := (hqueues h)(Q \<mapsto> q\<lparr>q_back := NULL, q_size := 0\<rparr>)\<rparr>)"
  using assms by (simp add: get_next_def free_node_def set_queue_def)

lemma get_next_eval_more:
  assumes "hqueues h Q = Some q" "2 \<le> q_size q" "hnodes h (q_back q) = Some b"
    and "hnodes h (nd_next b) = Some f" "nd_next b \<noteq> q_back q"
    and "q_size q = 2 \<Longrightarrow> nd_next f = q_back q"
  shows "get_next Q h = Some (nd_thread f, h\<lparr>
      hnodes := (hnodes h)(q_back q \<mapsto> b\<lparr>nd_next := nd_next f\<rparr>, nd_next b := None),
      hfree := nd_next b # hfree h,
      hqueues := (hqueues h)(Q \<mapsto> q\<lparr>q_size := q_size q - 1\<rparr>)\<rparr>)"
  using assms
  by (cases "q_size q = 2") (simp_all add: get_next_def free_node_def set_queue_def set_next_def Let_def)

lemma get_next_empty:
  assumes "heap_rep h f" "Q \<in> dom (hqueues h)" "f Q = []"
  shows "get_next Q h = Some (NULL, h)"
  using heap_repD(2) [OF assms(1,2)] assms(3) by (auto simp: queue_ok_def get_next_def)

lemma UN_set_tail:
  assumes "Q \<in> D" "f Q = x # xs" "x \<notin> set xs" "\<And>R. R \<in> D \<Longrightarrow> R \<noteq> Q \<Longrightarrow> x \<notin> set (f R)"
  shows "(\<Union>R \<in> D. set (f R)) - {x} = (\<Union>R \<in> D. set ((f(Q := xs)) R))"
proof -
  have "(\<Union>R \<in> D. set (g R)) = set (g Q) \<union> (\<Union>R \<in> D - {Q}. set (g R))" for g :: "'a \<Rightarrow> 'b list"
    using assms(1) by auto
  from this [of f] this [of "f(Q := xs)"] show ?thesis using assms by auto
qed

lemma get_next_rep:
  assumes rep: "heap_rep h f" and Q: "Q \<in> dom (hqueues h)" and fQ: "f Q = x # xs"
  shows "\<exists>h'. get_next Q h = Some (node_thread h x, h') \<and> heap_rep h' (f(Q := xs)) \<and>
    hfree h' = x # hfree h \<and> dom (hqueues h') = dom (hqueues h) \<and> htids h' = htids h \<and>
    hraw h' = hraw h \<and> node_thread h' = (node_thread h)(x := NULL)"
proof -
  note D = heap_repD [OF rep]
  from D(2) [OF Q] obtain q where q: "hqueues h Q = Some q" "q_size q = int (length (x # xs))"
      "ring (hnodes h) (q_back q) (x # xs)" "set (x # xs) \<subseteq> dom (hnodes h)"
    unfolding queue_ok_def fQ by blast
  have xR: "x \<notin> set (f R)" if "R \<in> dom (hqueues h)" "R \<noteq> Q" for R
    using D(3) [OF Q that(1)] that(2) fQ by auto
  have x0: "x \<in> dom (hnodes h)" using q(4) by simp
  obtain h' where h': "get_next Q h = Some (node_thread h x, h')" "hfree h' = x # hfree h"
      "htids h' = htids h" "hraw h' = hraw h" "dom (hqueues h') = dom (hqueues h)"
      "dom (hnodes h') = dom (hnodes h) - {x}" "queue_ok h' Q xs"
      "\<And>R. R \<in> dom (hqueues h) \<Longrightarrow> R \<noteq> Q \<Longrightarrow> queue_ok h' R (f R)"
      "node_thread h' = (node_thread h)(x := NULL)"
  proof (cases xs rule: rev_cases)
    case Nil
    with q(3) have b: "q_back q = x" by (simp add: ring_def)
    from q(4) obtain n where n: "hnodes h x = Some n" by auto
    let ?h' = "h\<lparr>hnodes := (hnodes h)(x := None), hfree := x # hfree h,
      hqueues := (hqueues h)(Q \<mapsto> q\<lparr>q_back := NULL, q_size := 0\<rparr>)\<rparr>"
    show thesis
    proof (rule that [of ?h'])
      show "get_next Q h = Some (node_thread h x, ?h')"
        using get_next_eval_one [OF q(1)] q(2) Nil b n by (simp add: node_thread_def)
      show "queue_ok ?h' Q xs" using Nil by (simp add: queue_ok_def ring_def)
      show "queue_ok ?h' R (f R)" if R: "R \<in> dom (hqueues h)" "R \<noteq> Q" for R
        using D(2) [OF R(1)] xR [OF R] R(2) by (auto simp: queue_ok_def)
    qed (use q(1) in \<open>auto simp: node_thread_def\<close>)
  next
    case (snoc ys y)
    note r = ring_snocD [OF q(3) [unfolded snoc append_Cons [symmetric]]]
    from r(5) obtain n where n: "hnodes h y = Some n" "nd_next n = x" by auto
    from q(4) obtain m where m: "hnodes h x = Some m" by auto
    have xy: "x \<noteq> y" "x \<notin> set ys" "distinct ys" "y \<notin> set ys" using r(2,3) by auto
    from r(4) m have seg: "seg (hnodes h) (nd_next m) ys y" by simp
    then have hd: "nd_next m = hd (ys @ [y])" by (cases ys) auto
    let ?ns = "(hnodes h)(y \<mapsto> n\<lparr>nd_next := nd_next m\<rparr>, x := None)"
    let ?h' = "h\<lparr>hnodes := ?ns, hfree := x # hfree h,
      hqueues := (hqueues h)(Q \<mapsto> q\<lparr>q_size := q_size q - 1\<rparr>)\<rparr>"
    have ring: "ring ?ns y (ys @ [y])"
    proof (rule ring_snocI)
      show "seg ?ns (hd (ys @ [y])) ys y" using seg hd xy by simp
      show "?ns y = Some (n\<lparr>nd_next := nd_next m\<rparr>)" using xy(1) by simp
    qed (use xy hd in auto)
    have two: "q_size q = 2 \<Longrightarrow> nd_next m = y" using q(2) snoc hd by simp
    show thesis
    proof (rule that [of ?h'])
      show "get_next Q h = Some (node_thread h x, ?h')"
        using get_next_eval_more [OF q(1), of n m] q(2) snoc r(1) n m xy two
        by (simp add: node_thread_def)
      show "queue_ok ?h' Q xs"
        using ring q(2,4) snoc xy r(1) by (auto simp: queue_ok_def)
      show "queue_ok ?h' R (f R)" if R: "R \<in> dom (hqueues h)" "R \<noteq> Q" for R
      proof -
        have "y \<notin> set (f R)" using D(3) [OF Q R(1)] R(2) fQ snoc by auto
        with D(2) [OF R(1)] xR [OF R] R(2) show ?thesis by (auto simp: queue_ok_def)
      qed
    qed (use q(1) n(1) xy in \<open>auto simp: node_thread_def\<close>)
  qed
  have dist: "x \<notin> set xs" using q(3) by (simp add: ring_def)
  have "heap_rep h' (f(Q := xs))"
    unfolding heap_rep_def
  proof (intro conjI)
    show "heap_base h'"
      using base_free(1) [OF D(1) [unfolded heap_base_def] x0] h'(2-6) by (simp add: heap_base_def)
    show "\<forall>R \<in> dom (hqueues h'). queue_ok h' R ((f(Q := xs)) R)"
      using h'(5,7,8) by simp
    show "\<forall>R \<in> dom (hqueues h'). \<forall>S \<in> dom (hqueues h'). R \<noteq> S \<longrightarrow>
        set ((f(Q := xs)) R) \<inter> set ((f(Q := xs)) S) = {}"
      using D(3) [OF Q] D(3) [OF _ Q] D(3) fQ by (auto simp: h'(5))
    show "dom (hnodes h') = (\<Union>R \<in> dom (hqueues h'). set ((f(Q := xs)) R))"
      unfolding h'(5,6) D(4) by (rule UN_set_tail [where f = f, OF Q fQ dist]) (rule xR)
  qed
  with h' show ?thesis by blast
qed

subsection \<open>make_queue and releasing an empty queue\<close>

lemma UN_set_new:
  assumes "a \<notin> D"
  shows "(\<Union>R \<in> D. set (if R = a then [] else f R)) = (\<Union>R \<in> D. set (f R))"
  using assms by (intro SUP_cong) auto

lemma make_queue_rep:
  assumes rep: "heap_rep h f" and free: "hfree h = a # as"
  shows "\<exists>h'. make_queue h = (a, h') \<and> a \<noteq> NULL \<and> heap_rep h' (f(a := [])) \<and> hfree h' = as \<and>
    dom (hqueues h') = insert a (dom (hqueues h)) \<and> a \<notin> dom (hqueues h) \<and>
    htids h' = htids h \<and> hraw h' = hraw h \<and> node_thread h' = node_thread h"
proof -
  note D = heap_repD [OF rep]
  have base: "base (a # as) (dom (hnodes h)) (dom (hqueues h)) (dom (htids h)) (dom (hraw h))"
    using D(1) free by (simp add: heap_base_def)
  note a = base_fresh [OF base]
  let ?h' = "h\<lparr>hfree := as, hqueues := (hqueues h)(a \<mapsto> \<lparr>q_back = NULL, q_size = 0\<rparr>)\<rparr>"
  have ok: "queue_ok ?h' R ((f(a := [])) R)" if "R \<in> insert a (dom (hqueues h))" for R
    using that D(2) [of R] by (cases "R = a") (auto simp: queue_ok_def ring_def)
  have "heap_rep ?h' (f(a := []))"
    unfolding heap_rep_def
  proof (intro conjI)
    show "heap_base ?h'" using base_alloc(2) [OF base] by (simp add: heap_base_def)
    show "\<forall>Q \<in> dom (hqueues ?h'). queue_ok ?h' Q ((f(a := [])) Q)" using ok by simp
    show "\<forall>Q \<in> dom (hqueues ?h'). \<forall>R \<in> dom (hqueues ?h'). Q \<noteq> R \<longrightarrow>
        set ((f(a := [])) Q) \<inter> set ((f(a := [])) R) = {}"
      using D(3) by simp
    show "dom (hnodes ?h') = (\<Union>Q \<in> dom (hqueues ?h'). set ((f(a := [])) Q))"
      using D(4) UN_set_new [of a "dom (hqueues h)" f] a by simp
  qed
  moreover have "make_queue h = (a, ?h')" using free a by (simp add: make_queue_def c_malloc_def)
  ultimately show ?thesis using a by (auto simp: node_thread_def [abs_def])
qed

lemma make_queue_fails: "hfree h = [] \<Longrightarrow> make_queue h = (NULL, h)"
  by (simp add: make_queue_def c_malloc_def)

lemma free_queue_rep:
  assumes rep: "heap_rep h f" and Q: "Q \<in> dom (hqueues h)" and e: "f Q = []"
  shows "\<exists>h'. free_queue Q h = Some h' \<and> heap_rep h' f \<and> hfree h' = Q # hfree h \<and>
    dom (hqueues h') = dom (hqueues h) - {Q} \<and> htids h' = htids h \<and> hraw h' = hraw h \<and>
    node_thread h' = node_thread h"
proof -
  note D = heap_repD [OF rep]
  let ?h' = "h\<lparr>hqueues := (hqueues h)(Q := None), hfree := Q # hfree h\<rparr>"
  have "heap_rep ?h' f"
    unfolding heap_rep_def
  proof (intro conjI)
    show "heap_base ?h'"
      using base_free(2) [OF D(1) [unfolded heap_base_def] Q] by (simp add: heap_base_def)
    show "\<forall>R \<in> dom (hqueues ?h'). queue_ok ?h' R (f R)"
      using D(2) by (auto simp: queue_ok_def)
    show "\<forall>R \<in> dom (hqueues ?h'). \<forall>S \<in> dom (hqueues ?h'). R \<noteq> S \<longrightarrow> set (f R) \<inter> set (f S) = {}"
      using D(3) by simp
    have "(\<Union>R \<in> dom (hqueues h). set (f R)) = (\<Union>R \<in> dom (hqueues h) - {Q}. set (f R))"
      using e by force
    then show "dom (hnodes ?h') = (\<Union>R \<in> dom (hqueues ?h'). set (f R))" using D(4) by simp
  qed
  moreover have "free_queue Q h = Some ?h'" using Q by (auto simp: free_queue_def)
  ultimately show ?thesis by (auto simp: node_thread_def [abs_def])
qed

text \<open>Allocation and release of the other kinds of object do not touch the queues.\<close>

lemma heap_rep_frame:
  assumes "heap_rep h f" "hnodes h' = hnodes h" "hqueues h' = hqueues h" "heap_base h'"
  shows "heap_rep h' f"
proof -
  have "queue_ok h' Q xs = queue_ok h Q xs" for Q xs by (simp add: queue_ok_def assms(2,3))
  with assms show ?thesis by (simp add: heap_rep_def)
qed

section \<open>The FIFO interface\<close>

text \<open>
  What the scheduler and the mutexes rely on: queues are lists, \<open>enq\<close> appends and uses
  one unit of memory, \<open>deq\<close> takes the front and gives the unit back, and no operation
  touches another queue.
\<close>

locale fifo_heap =
  fixes ok :: "'h \<Rightarrow> bool"
    and queues :: "'h \<Rightarrow> addr set"
    and room :: "'h \<Rightarrow> nat"
    and cont :: "'h \<Rightarrow> addr \<Rightarrow> addr list"
    and enq :: "addr \<Rightarrow> addr \<Rightarrow> 'h \<Rightarrow> 'h option"
    and deq :: "addr \<Rightarrow> 'h \<Rightarrow> (addr \<times> 'h) option"
  assumes enq_law: "\<lbrakk>ok h; Q \<in> queues h; 0 < room h\<rbrakk> \<Longrightarrow>
      \<exists>h'. enq t Q h = Some h' \<and> ok h' \<and> queues h' = queues h \<and> Suc (room h') = room h \<and>
        cont h' = (cont h)(Q := cont h Q @ [t])"
    and enq_full: "\<lbrakk>ok h; Q \<in> queues h; room h = 0\<rbrakk> \<Longrightarrow> enq t Q h = None"
    and deq_empty: "\<lbrakk>ok h; Q \<in> queues h; cont h Q = []\<rbrakk> \<Longrightarrow> deq Q h = Some (NULL, h)"
    and deq_law: "\<lbrakk>ok h; Q \<in> queues h; cont h Q = t # ts\<rbrakk> \<Longrightarrow>
      \<exists>h'. deq Q h = Some (t, h') \<and> ok h' \<and> queues h' = queues h \<and> room h' = Suc (room h) \<and>
        cont h' = (cont h)(Q := ts)"
begin

primrec enq_all :: "addr list \<Rightarrow> addr \<Rightarrow> 'h \<Rightarrow> 'h option" where
  "enq_all [] Q h = Some h"
| "enq_all (t # ts) Q h = Option.bind (enq t Q h) (enq_all ts Q)"

primrec deq_n :: "nat \<Rightarrow> addr \<Rightarrow> 'h \<Rightarrow> (addr list \<times> 'h) option" where
  "deq_n 0 Q h = Some ([], h)"
| "deq_n (Suc n) Q h = Option.bind (deq Q h) (\<lambda>(t, h).
     Option.bind (deq_n n Q h) (\<lambda>(ts, h). Some (t # ts, h)))"

lemma enq_all_law:
  "\<lbrakk>ok h; Q \<in> queues h; length ts \<le> room h\<rbrakk> \<Longrightarrow>
     \<exists>h'. enq_all ts Q h = Some h' \<and> ok h' \<and> queues h' = queues h \<and>
       room h' + length ts = room h \<and> cont h' = (cont h)(Q := cont h Q @ ts)"
proof (induction ts arbitrary: h)
  case Nil
  then show ?case by simp
next
  case (Cons t ts)
  then obtain h1 where h1: "enq t Q h = Some h1" "ok h1" "queues h1 = queues h"
      "Suc (room h1) = room h" "cont h1 = (cont h)(Q := cont h Q @ [t])"
    using enq_law [of h Q t] by auto
  then have "Q \<in> queues h1" "length ts \<le> room h1" using Cons.prems by simp_all
  from Cons.IH [OF h1(2) this] obtain h2 where "enq_all ts Q h1 = Some h2" "ok h2"
      "queues h2 = queues h1" "room h2 + length ts = room h1" "cont h2 = (cont h1)(Q := cont h1 Q @ ts)"
    by blast
  then have "enq_all (t # ts) Q h = Some h2" "ok h2" "queues h2 = queues h"
      "room h2 + length (t # ts) = room h" "cont h2 = (cont h)(Q := cont h Q @ t # ts)"
    using h1 by simp_all
  then show ?case by blast
qed

lemma deq_n_law:
  "\<lbrakk>ok h; Q \<in> queues h; cont h Q = ts @ us\<rbrakk> \<Longrightarrow>
     \<exists>h'. deq_n (length ts) Q h = Some (ts, h') \<and> ok h' \<and> queues h' = queues h \<and>
       room h' = room h + length ts \<and> cont h' = (cont h)(Q := us)"
proof (induction ts arbitrary: h)
  case Nil
  then show ?case by (simp add: fun_upd_idem)
next
  case (Cons t ts)
  then obtain h1 where h1: "deq Q h = Some (t, h1)" "ok h1" "queues h1 = queues h"
      "room h1 = Suc (room h)" "cont h1 = (cont h)(Q := ts @ us)"
    using deq_law [of h Q t "ts @ us"] by auto
  have "cont h1 Q = ts @ us" "Q \<in> queues h1" using h1 Cons.prems by simp_all
  from Cons.IH [OF h1(2) this(2,1)] obtain h2 where "deq_n (length ts) Q h1 = Some (ts, h2)" "ok h2"
      "queues h2 = queues h1" "room h2 = room h1 + length ts" "cont h2 = (cont h1)(Q := us)" by blast
  then have "deq_n (length (t # ts)) Q h = Some (t # ts, h2)" "ok h2" "queues h2 = queues h"
      "room h2 = room h + length (t # ts)" "cont h2 = (cont h)(Q := us)" using h1 by simp_all
  then show ?case by blast
qed

text \<open>First in, first out.\<close>

lemma fifo_order:
  assumes "ok h" "Q \<in> queues h" "length ts \<le> room h" "cont h Q = []"
  shows "\<exists>h1 h2. enq_all ts Q h = Some h1 \<and> deq_n (length ts) Q h1 = Some (ts, h2) \<and>
    ok h2 \<and> cont h2 = cont h \<and> room h2 = room h"
proof -
  obtain h1 where h1: "enq_all ts Q h = Some h1" "ok h1" "queues h1 = queues h"
      "room h1 + length ts = room h" "cont h1 = (cont h)(Q := ts)"
    using enq_all_law [OF assms(1-3)] assms(4) by auto
  with deq_n_law [of h1 Q ts "[]"] assms(2,4) show ?thesis by (auto simp: fun_upd_idem)
qed

end

text \<open>Each of its queues is a bounded queue.\<close>

sublocale fifo_heap \<subseteq> one: fifo_store "\<lambda>h ts. ok h \<and> Q \<in> queues h \<and> cont h Q = ts" room "\<lambda>t. enq t Q" "deq Q" 1 UNIV for Q
proof unfold_locales
  fix s ts t
  assume r: "ok s \<and> Q \<in> queues s \<and> cont s Q = ts"
  show "0 < room s \<Longrightarrow> t \<in> UNIV \<Longrightarrow> \<exists>s'. enq t Q s = Some s' \<and> (ok s' \<and> Q \<in> queues s' \<and> cont s' Q = ts @ [t]) \<and> Suc (room s') = room s"
    using enq_law [of s Q t] r by auto
  show "room s = 0 \<Longrightarrow> enq t Q s = None" using enq_full r by simp
next
  fix s
  assume "ok s \<and> Q \<in> queues s \<and> cont s Q = []"
  then show "\<exists>s'. deq Q s = Some (NULL, s') \<and> (ok s' \<and> Q \<in> queues s' \<and> cont s' Q = []) \<and> room s' = room s"
    using deq_empty by auto
next
  fix s t ts
  assume "ok s \<and> Q \<in> queues s \<and> cont s Q = t # ts"
  then show "\<exists>s'. deq Q s = Some (t, s') \<and> (ok s' \<and> Q \<in> queues s' \<and> cont s' Q = ts) \<and> room s' = room s + 1"
    using deq_law [of s Q t ts] by auto
qed

lemma qnodes_outside: "hqueues h Q = None \<Longrightarrow> qnodes h Q = []"
  by (simp add: qnodes_def)

lemma contents_outside: "Q \<notin> dom (hqueues h) \<Longrightarrow> contents h Q = []"
  by (simp add: contents_def qnodes_outside domIff)

lemma contents_eqI:
  assumes "heap_rep h f" "heap_rep h' g" "dom (hqueues h') = dom (hqueues h)"
    and "\<And>Q. Q \<in> dom (hqueues h) \<Longrightarrow> map (node_thread h') (g Q) = c Q"
    and "\<And>Q. Q \<notin> dom (hqueues h) \<Longrightarrow> c Q = []"
  shows "contents h' = c"
proof
  fix Q
  show "contents h' Q = c Q"
    using assms heap_rep_qnodes [OF assms(2), of Q] contents_outside [of Q h']
    by (cases "Q \<in> dom (hqueues h)") (simp_all add: contents_map)
qed

lemma node_thread_upd_notin: "x \<notin> set xs \<Longrightarrow> map ((node_thread h)(x := v)) xs = map (node_thread h) xs"
  by (induction xs) auto

lemma enqueue_law:
  assumes "heap_ok h" "Q \<in> dom (hqueues h)" "0 < length (hfree h)"
  shows "\<exists>h'. enqueue t Q h = Some h' \<and> heap_ok h' \<and> dom (hqueues h') = dom (hqueues h) \<and>
    Suc (length (hfree h')) = length (hfree h) \<and> contents h' = (contents h)(Q := contents h Q @ [t]) \<and>
    htids h' = htids h \<and> hraw h' = hraw h"
proof -
  from assms(3) obtain a as where free: "hfree h = a # as" by (cases "hfree h") auto
  note rep = assms(1) [unfolded heap_ok_def]
  from enqueue_rep [OF rep assms(2) free] obtain h' where h': "enqueue t Q h = Some h'"
      "heap_rep h' ((qnodes h)(Q := qnodes h Q @ [a]))" "hfree h' = as" "htids h' = htids h"
      "hraw h' = hraw h" "dom (hqueues h') = dom (hqueues h)" "node_thread h' = (node_thread h)(a := t)"
    by blast
  have a: "a \<notin> set (qnodes h R)" if "R \<in> dom (hqueues h)" for R
  proof -
    have "a \<notin> dom (hnodes h)"
      using heap_repD(1) [OF rep] base_fresh free by (simp add: heap_base_def)
    with heap_repD(4) [OF rep] that show ?thesis by auto
  qed
  have "contents h' = (contents h)(Q := contents h Q @ [t])"
    by (rule contents_eqI [OF rep h'(2,6)])
      (use a assms(2) in \<open>auto simp: contents_map h'(7) node_thread_upd_notin qnodes_outside\<close>)
  with h' heap_rep_ok [OF h'(2)] free show ?thesis by auto
qed

lemma get_next_law:
  assumes "heap_ok h" "Q \<in> dom (hqueues h)" "contents h Q = t # ts"
  shows "\<exists>h'. get_next Q h = Some (t, h') \<and> heap_ok h' \<and> dom (hqueues h') = dom (hqueues h) \<and>
    length (hfree h') = Suc (length (hfree h)) \<and> contents h' = (contents h)(Q := ts) \<and>
    htids h' = htids h \<and> hraw h' = hraw h"
proof -
  note rep = assms(1) [unfolded heap_ok_def]
  from assms(3) obtain x xs where x: "qnodes h Q = x # xs" "t = node_thread h x"
      "ts = map (node_thread h) xs" by (auto simp: contents_map)
  from get_next_rep [OF rep assms(2) x(1)] obtain h' where
    h': "get_next Q h = Some (t, h')" "heap_rep h' ((qnodes h)(Q := xs))" "hfree h' = x # hfree h"
      "htids h' = htids h" "hraw h' = hraw h" "dom (hqueues h') = dom (hqueues h)"
      "node_thread h' = (node_thread h)(x := NULL)" using x(2) by blast
  have R: "x \<notin> set (qnodes h R)" if "R \<in> dom (hqueues h)" "R \<noteq> Q" for R
    using heap_repD(3) [OF rep assms(2) that(1)] that(2) x(1) by auto
  have "x \<notin> set xs" using heap_repD(2) [OF rep assms(2)] x(1) by (auto simp: queue_ok_def ring_def)
  then have "contents h' = (contents h)(Q := ts)"
    by (intro contents_eqI [OF rep h'(2,6)])
      (use R assms(2) in \<open>auto simp: contents_map h'(7) node_thread_upd_notin qnodes_outside x(3)\<close>)
  with h' heap_rep_ok [OF h'(2)] show ?thesis by auto
qed

lemma get_next_law_empty:
  assumes "heap_ok h" "Q \<in> dom (hqueues h)" "contents h Q = []"
  shows "get_next Q h = Some (NULL, h)"
  using get_next_empty [OF assms(1) [unfolded heap_ok_def] assms(2)] assms(3) by (simp add: contents_map)

lemma make_queue_law:
  assumes "heap_ok h" "hfree h = a # as"
  shows "\<exists>h'. make_queue h = (a, h') \<and> a \<noteq> NULL \<and> heap_ok h' \<and> hfree h' = as \<and>
    dom (hqueues h') = insert a (dom (hqueues h)) \<and> a \<notin> dom (hqueues h) \<and> contents h' = contents h \<and>
    htids h' = htids h \<and> hraw h' = hraw h"
proof -
  note rep = assms(1) [unfolded heap_ok_def]
  from make_queue_rep [OF rep assms(2)] obtain h' where
    h': "make_queue h = (a, h')" "a \<noteq> NULL" "heap_rep h' ((qnodes h)(a := []))" "hfree h' = as"
      "dom (hqueues h') = insert a (dom (hqueues h))" "a \<notin> dom (hqueues h)" "htids h' = htids h"
      "hraw h' = hraw h" "node_thread h' = node_thread h" by blast
  have "contents h' = contents h"
  proof
    fix Q
    show "contents h' Q = contents h Q"
      using heap_rep_qnodes [OF h'(3), of Q] h'(5,6,9) qnodes_outside [of h Q] qnodes_outside [of h' Q]
      by (cases "Q \<in> dom (hqueues h')") (auto simp: contents_map domIff)
  qed
  with h' heap_rep_ok [OF h'(3)] show ?thesis by blast
qed

lemma free_queue_law:
  assumes "heap_ok h" "Q \<in> dom (hqueues h)" "contents h Q = []"
  shows "\<exists>h'. free_queue Q h = Some h' \<and> heap_ok h' \<and> hfree h' = Q # hfree h \<and>
    dom (hqueues h') = dom (hqueues h) - {Q} \<and> contents h' = contents h \<and>
    htids h' = htids h \<and> hraw h' = hraw h"
proof -
  note rep = assms(1) [unfolded heap_ok_def]
  have e: "qnodes h Q = []" using assms(3) by (simp add: contents_map)
  from free_queue_rep [OF rep assms(2) e] obtain h' where
    h': "free_queue Q h = Some h'" "heap_rep h' (qnodes h)" "hfree h' = Q # hfree h"
      "dom (hqueues h') = dom (hqueues h) - {Q}" "htids h' = htids h" "hraw h' = hraw h"
      "node_thread h' = node_thread h" by blast
  have "contents h' = contents h"
  proof
    fix R
    show "contents h' R = contents h R"
    proof (cases "R \<in> dom (hqueues h')")
      case True
      with heap_rep_qnodes [OF h'(2)] h'(7) show ?thesis by (simp add: contents_map)
    next
      case False
      with h'(4) have "R = Q \<or> hqueues h R = None" "hqueues h' R = None" by (auto simp: domIff)
      with e show ?thesis by (auto simp: contents_map qnodes_outside)
    qed
  qed
  with h' heap_rep_ok [OF h'(2)] show ?thesis by blast
qed

text \<open>Changes outside the node and queue maps keep the queues.\<close>

lemma heap_ok_frame:
  assumes "heap_ok h" "hnodes h' = hnodes h" "hqueues h' = hqueues h" "heap_base h'"
  shows "heap_ok h' \<and> contents h' = contents h"
proof -
  have q: "qnodes h' = qnodes h" by (rule ext) (simp add: qnodes_def assms(2,3) split: option.split)
  have "contents h' = contents h" by (rule ext) (simp add: contents_def q assms(2))
  with heap_rep_frame [OF assms(1) [unfolded heap_ok_def] assms(2-4)] show ?thesis
    by (simp add: heap_ok_def q)
qed

lemma heap_ok_base: "heap_ok h \<Longrightarrow> base (hfree h) (dom (hnodes h)) (dom (hqueues h)) (dom (htids h)) (dom (hraw h))"
  using heap_repD(1) by (simp add: heap_ok_def heap_base_def)

interpretation ring_queue: fifo_heap heap_ok "\<lambda>h. dom (hqueues h)" "\<lambda>h. length (hfree h)"
    contents enqueue get_next
proof unfold_locales
  fix h Q t
  assume "heap_ok h" "Q \<in> dom (hqueues h)" "0 < length (hfree h)"
  from enqueue_law [OF this] show "\<exists>h'. enqueue t Q h = Some h' \<and> heap_ok h' \<and>
      dom (hqueues h') = dom (hqueues h) \<and> Suc (length (hfree h')) = length (hfree h) \<and>
      contents h' = (contents h)(Q := contents h Q @ [t])" by blast
next
  fix h Q t
  assume "heap_ok h" "Q \<in> dom (hqueues h)" "length (hfree h) = 0"
  then show "enqueue t Q h = None" by (simp add: enqueue_def c_malloc_def)
next
  fix h Q
  assume "heap_ok h" "Q \<in> dom (hqueues h)" "contents h Q = []"
  then show "get_next Q h = Some (NULL, h)" by (rule get_next_law_empty)
next
  fix h Q t ts
  assume "heap_ok h" "Q \<in> dom (hqueues h)" "contents h Q = t # ts"
  from get_next_law [OF this] show "\<exists>h'. get_next Q h = Some (t, h') \<and> heap_ok h' \<and>
      dom (hqueues h') = dom (hqueues h) \<and> length (hfree h') = Suc (length (hfree h)) \<and>
      contents h' = (contents h)(Q := ts)" by blast
qed

text \<open>
  A sequence of operations on one queue: it returns what a list returns, with the memory that is free as the bound, and
  every thread taken gives its node back.
\<close>

lemma queue_sequences:
  assumes "heap_ok h" "Q \<in> dom (hqueues h)"
  shows "map_option fst (run_queue (\<lambda>t. enqueue t Q) (get_next Q) ops h) = fifo_run 1 (length (hfree h)) ops (contents h Q)"
  using ring_queue.one.run_law [of h Q "contents h Q" ops] assms by simp

text \<open>
  Claim C11. The ring of nodes refines a FIFO list. Enqueueing appends to the contents of the
  queue and of no other queue; taking the next thread returns and removes the front, or returns
  \<open>NULL\<close> from an empty queue; both keep the heap well-formed and account for its memory.
\<close>

theorem queue_refines_fifo:
  assumes ok: "heap_ok h" and Q: "Q \<in> dom (hqueues h)"
  shows "(0 < length (hfree h) \<longrightarrow> (\<exists>h'. enqueue t Q h = Some h' \<and> heap_ok h' \<and>
      Suc (length (hfree h')) = length (hfree h) \<and> contents h' = (contents h)(Q := contents h Q @ [t]))) \<and>
    (\<exists>h'. get_next Q h = Some (case contents h Q of [] \<Rightarrow> NULL | u # _ \<Rightarrow> u, h') \<and> heap_ok h' \<and>
      length (hfree h') = length (hfree h) + (if contents h Q = [] then 0 else 1) \<and>
      contents h' = (contents h)(Q := tl (contents h Q)))"
proof (intro conjI impI)
  assume "0 < length (hfree h)"
  then show "\<exists>h'. enqueue t Q h = Some h' \<and> heap_ok h' \<and> Suc (length (hfree h')) = length (hfree h) \<and>
      contents h' = (contents h)(Q := contents h Q @ [t])"
    using ring_queue.enq_law [OF ok Q] by blast
next
  show "\<exists>h'. get_next Q h = Some (case contents h Q of [] \<Rightarrow> NULL | u # _ \<Rightarrow> u, h') \<and> heap_ok h' \<and>
      length (hfree h') = length (hfree h) + (if contents h Q = [] then 0 else 1) \<and>
      contents h' = (contents h)(Q := tl (contents h Q))"
  proof (cases "contents h Q")
    case Nil
    then show ?thesis using ring_queue.deq_empty [OF ok Q] ok by (auto simp: fun_upd_idem)
  next
    case (Cons u us)
    then show ?thesis using ring_queue.deq_law [OF ok Q Cons] by auto
  qed
qed

end
