(* ===== verification/Thread_Lib.thy ===== *)
theory Thread_Lib
  imports Queue_Heap
begin

text \<open>
  The user-level thread library of asst1 (\<^verbatim>\<open>src/asst1/my_pthread.c\<close>): thread identifiers,
  the multi-level scheduler that runs on \<open>SIGVTALRM\<close>, the thread calls and the mutexes.

  \<open>lib\<close> is the library's static data with the heap and the client's thread and mutex
  structs. \<open>swapcontext\<close> is the change of \<open>running_thread\<close>: the state a function
  returns is the one in which the thread \<open>running_thread\<close> goes on. A call that blocks is
  two definitions, the code up to \<open>raise(SIGVTALRM)\<close> and the code that runs when the
  caller is scheduled again. \<open>itimer\<close> is what is left of the virtual interval timer in
  microseconds (0 when it is disarmed) and \<open>cont_val\<close> the saved value \<open>*cont\<close>.
\<close>

section \<open>Data\<close>

datatype thread_status = active | yield | wait_thread | wait_mutex | thread_exit

record my_pthread =
  th_id :: int
  th_priority :: int
  intervals_run :: int
  wait_id :: int
  th_status :: thread_status
  th_ret :: addr
  ss_sp :: addr

record my_pthread_mutex =
  m_waiting :: addr
  m_user :: addr

abbreviation (input) STACK_SIZE :: nat where "STACK_SIZE \<equiv> 8000"
abbreviation (input) NUM_PRIORITY :: int where "NUM_PRIORITY \<equiv> 5"
abbreviation (input) THREAD_LIM :: nat where "THREAD_LIM \<equiv> 1000"
abbreviation (input) MUTEX_LIM :: nat where "MUTEX_LIM \<equiv> 1000"

record lib =
  lheap :: heap
  threads :: "addr \<rightharpoonup> my_pthread"
  mutexes :: "addr \<rightharpoonup> my_pthread_mutex"
  priority_level :: "addr list"
  death_row :: addr
  current_priority :: int
  run_at_priority :: int
  itimer :: int
  cont_val :: int
  running_thread :: addr
  init :: bool
  thread_count :: int
  tid_list :: addr
  thread_table :: "addr list"
  waiting :: "addr list"
  mutex_list :: "addr list"
  done_flag :: "int list"

text \<open>Static storage is zero when the program starts; \<open>ts\<close> and \<open>ms\<close> are the client's structs.\<close>

definition lib_start :: "heap \<Rightarrow> (addr \<rightharpoonup> my_pthread) \<Rightarrow> (addr \<rightharpoonup> my_pthread_mutex) \<Rightarrow> lib" where
  "lib_start h ts ms = \<lparr>lheap = h, threads = ts, mutexes = ms, priority_level = replicate 5 NULL,
     death_row = NULL, current_priority = 0, run_at_priority = 0, itimer = 0, cont_val = 0,
     running_thread = NULL, init = False, thread_count = 0, tid_list = NULL,
     thread_table = replicate THREAD_LIM NULL, waiting = replicate THREAD_LIM NULL,
     mutex_list = replicate MUTEX_LIM NULL, done_flag = replicate THREAD_LIM 0\<rparr>"

text \<open>
  What the environment decides: whether \<open>getcontext\<close> succeeds for the main context and for
  the new thread, and the contents of the memory \<open>malloc\<close> returns for the main thread.
\<close>

record env =
  gc_main :: bool
  gc_thread :: bool
  junk_thread :: my_pthread

section \<open>The interval timer\<close>

definition setitimer_pause :: "lib \<Rightarrow> lib" where
  "setitimer_pause l = l\<lparr>cont_val := itimer l, itimer := 0\<rparr>"

definition setitimer_cont :: "lib \<Rightarrow> lib" where
  "setitimer_cont l = l\<lparr>itimer := cont_val l\<rparr>"

definition setitimer_timer :: "lib \<Rightarrow> lib" where
  "setitimer_timer l = l\<lparr>itimer := 25\<rparr>"

section \<open>Stores through pointers\<close>

definition upd_thread :: "addr \<Rightarrow> (my_pthread \<Rightarrow> my_pthread) \<Rightarrow> lib \<Rightarrow> lib option" where
  "upd_thread p f l = (case threads l p of None \<Rightarrow> None
     | Some t \<Rightarrow> Some (l\<lparr>threads := (threads l)(p \<mapsto> f t)\<rparr>))"

definition upd_mutex :: "addr \<Rightarrow> (my_pthread_mutex \<Rightarrow> my_pthread_mutex) \<Rightarrow> lib \<Rightarrow> lib option" where
  "upd_mutex p f l = (case mutexes l p of None \<Rightarrow> None
     | Some m \<Rightarrow> Some (l\<lparr>mutexes := (mutexes l)(p \<mapsto> f m)\<rparr>))"

text \<open>\<open>malloc\<close> of a buffer of \<open>n\<close> bytes.\<close>

definition malloc_raw :: "nat \<Rightarrow> lib \<Rightarrow> addr \<times> lib" where
  "malloc_raw n l = (case c_malloc (lheap l) of (a, h) \<Rightarrow>
     (a, l\<lparr>lheap := (if a = NULL then h else h\<lparr>hraw := (hraw h)(a \<mapsto> n)\<rparr>)\<rparr>))"

definition enqueue_q :: "addr \<Rightarrow> addr \<Rightarrow> lib \<Rightarrow> lib option" where
  "enqueue_q t q l = do { h \<leftarrow> enqueue t q (lheap l); Some (l\<lparr>lheap := h\<rparr>) }"

definition get_next_q :: "addr \<Rightarrow> lib \<Rightarrow> (addr \<times> lib) option" where
  "get_next_q q l = do { (t, h) \<leftarrow> get_next q (lheap l); Some (t, l\<lparr>lheap := h\<rparr>) }"

definition enqueue_level :: "addr \<Rightarrow> int \<Rightarrow> lib \<Rightarrow> lib option" where
  "enqueue_level t p l = do { q \<leftarrow> arr_get (priority_level l) p; enqueue_q t q l }"

definition get_next_level :: "int \<Rightarrow> lib \<Rightarrow> (addr \<times> lib) option" where
  "get_next_level p l = do { q \<leftarrow> arr_get (priority_level l) p; get_next_q q l }"

section \<open>Thread identifiers\<close>

definition get_ID :: "lib \<Rightarrow> (int \<times> lib) option" where
  "get_ID l = do {
     (tid, l) \<leftarrow>
       (if tid_list l = NULL then Some (thread_count l, l\<lparr>thread_count := thread_count l + 1\<rparr>)
        else do {
          let ptr = tid_list l;
          n \<leftarrow> htids (lheap l) ptr;
          h \<leftarrow> free_tid ptr (lheap l);
          Some (tn_tid n, l\<lparr>tid_list := tn_next n, lheap := h\<rparr>) });
     Some (if tid \<ge> int THREAD_LIM then -1 else tid, l) }"

definition free_ID :: "int \<Rightarrow> lib \<Rightarrow> lib option" where
  "free_ID thread_id l = (case c_malloc (lheap l) of (ptr, h) \<Rightarrow>
     if ptr = NULL then None
     else Some (l\<lparr>lheap := h\<lparr>htids := (htids h)(ptr \<mapsto> \<lparr>tn_tid = thread_id, tn_next = tid_list l\<rparr>)\<rparr>,
                  tid_list := ptr\<rparr>))"

section \<open>The scheduler\<close>

definition init_levels :: "lib \<Rightarrow> lib" where
  "init_levels l = fold (\<lambda>i l. case make_queue (lheap l) of (q, h) \<Rightarrow>
     l\<lparr>lheap := h, priority_level := (priority_level l)[i := q]\<rparr>) [0..<5] l"

definition scheduler_init :: "env \<Rightarrow> lib \<Rightarrow> (int \<times> lib) option" where
  "scheduler_init e l =
     (let l = init_levels (l\<lparr>thread_count := 1, tid_list := NULL\<rparr>);
          (d, h) = make_queue (lheap l);
          l = l\<lparr>lheap := h, death_row := d, thread_table := replicate THREAD_LIM NULL,
                mutex_list := replicate MUTEX_LIM NULL\<rparr>;
          (r, l) = malloc_raw 1000 l;
          l = l\<lparr>running_thread := r,
                threads := (if r = NULL then threads l else (threads l)(r \<mapsto> junk_thread e))\<rparr>
      in if \<not> gc_main e then Some (-1, l)
         else do {
           l \<leftarrow> upd_thread (running_thread l) (\<lambda>t. t\<lparr>th_status := active, th_priority := 0,
                  intervals_run := 0, th_id := 0\<rparr>) l;
           let (p, l) = malloc_raw 32 l;
           let (t, l) = malloc_raw 32 l;
           let (c, l) = malloc_raw 32 l;
           if p = NULL \<or> t = NULL then None
           else Some (0, (setitimer_timer l)\<lparr>init := True\<rparr>) })"

definition update_counters :: "lib \<Rightarrow> lib" where
  "update_counters l =
     (if run_at_priority l < NUM_PRIORITY - current_priority l
      then l\<lparr>current_priority := c_mod (current_priority l + 1) NUM_PRIORITY, run_at_priority := 0\<rparr>
      else l\<lparr>run_at_priority := run_at_priority l + 1\<rparr>)"

partial_function (option) select_loop :: "lib \<Rightarrow> lib option" where
  "select_loop l =
     (if running_thread l \<noteq> NULL then Some l
      else do {
        let l = l\<lparr>current_priority := c_mod (current_priority l + 1) NUM_PRIORITY\<rparr>;
        (t, l) \<leftarrow> get_next_level (current_priority l) l;
        select_loop (l\<lparr>running_thread := t\<rparr>) })"

text \<open>Lines 254 to 272: choose the next thread, re-arm the timer and switch to it.\<close>

definition reschedule :: "lib \<Rightarrow> lib option" where
  "reschedule l = do {
     let l = update_counters l;
     (t, l) \<leftarrow> get_next_level (current_priority l) l;
     l \<leftarrow> select_loop (l\<lparr>running_thread := t\<rparr>);
     Some (setitimer_timer l) }"

definition scheduler_alarm_handler :: "lib \<Rightarrow> lib option" where
  "scheduler_alarm_handler l = do {
     let l = setitimer_pause l;
     rt \<leftarrow> threads l (running_thread l);
     (case th_status rt of
        active \<Rightarrow> do {
          l \<leftarrow> upd_thread (running_thread l) (\<lambda>t. t\<lparr>intervals_run := intervals_run t + 1\<rparr>) l;
          if intervals_run rt < current_priority l then Some (setitimer_timer l)
          else do {
            l \<leftarrow> upd_thread (running_thread l) (\<lambda>t. t\<lparr>intervals_run := 0,
                   th_priority := c_mod (th_priority t + 1) NUM_PRIORITY\<rparr>) l;
            l \<leftarrow> enqueue_level (running_thread l) (c_mod (th_priority rt + 1) NUM_PRIORITY) l;
            reschedule l } }
      | yield \<Rightarrow> do {
          l \<leftarrow> enqueue_level (running_thread l) (th_priority rt) l;
          reschedule l }
      | wait_mutex \<Rightarrow> reschedule l
      | thread_exit \<Rightarrow> do {
          w \<leftarrow> arr_get (waiting l) (th_id rt);
          if w = NULL then reschedule l
          else do {
            l \<leftarrow> upd_thread w (\<lambda>t. t\<lparr>th_status := active\<rparr>) l;
            wt \<leftarrow> threads l w;
            l \<leftarrow> enqueue_level w (th_priority wt) l;
            reschedule l } }
      | wait_thread \<Rightarrow> reschedule l) }"

section \<open>Thread calls\<close>

definition my_pthread_create :: "env \<Rightarrow> addr \<Rightarrow> addr \<Rightarrow> lib \<Rightarrow> (int \<times> lib) option" where
  "my_pthread_create e thread attr l =
     (if attr < NULL then Some (EINVAL, l)
      else do {
        l \<leftarrow> (if init l then Some l else map_option snd (scheduler_init e l));
        let l = setitimer_pause l;
        if \<not> gc_thread e then Some (-1, setitimer_cont l)
        else do {
          let (sp, l) = malloc_raw STACK_SIZE l;
          l \<leftarrow> upd_thread thread (\<lambda>t. t\<lparr>ss_sp := sp\<rparr>) l;
          if sp = NULL then Some (EAGAIN, setitimer_cont l)
          else do {
            (tid, l) \<leftarrow> get_ID l;
            l \<leftarrow> upd_thread thread (\<lambda>t. t\<lparr>th_id := tid, wait_id := -1, th_priority := 0,
                   intervals_run := 0, th_ret := NULL\<rparr>) l;
            tt \<leftarrow> arr_set (thread_table l) tid thread;
            wt \<leftarrow> arr_set (waiting l) tid NULL;
            dn \<leftarrow> arr_set (done_flag l) tid 0;
            l \<leftarrow> enqueue_level thread 0 (l\<lparr>thread_table := tt, waiting := wt, done_flag := dn\<rparr>);
            l \<leftarrow> upd_thread thread (\<lambda>t. t\<lparr>th_status := active\<rparr>) l;
            Some (0, setitimer_cont l) } } })"

text \<open>How a call goes on: it returns, it raises \<open>SIGVTALRM\<close>, or it runs straight on.\<close>

datatype call = Ret int | Raise | Go

definition my_pthread_yield :: "lib \<Rightarrow> lib option" where
  "my_pthread_yield l = do {
     l \<leftarrow> upd_thread (running_thread l) (\<lambda>t. t\<lparr>th_status := yield\<rparr>) l;
     scheduler_alarm_handler l }"

definition pthread_exit_enter :: "addr \<Rightarrow> lib \<Rightarrow> lib option" where
  "pthread_exit_enter value_ptr l = do {
     let l = setitimer_pause l;
     l \<leftarrow> upd_thread (running_thread l) (\<lambda>t. t\<lparr>th_ret := value_ptr, th_status := thread_exit\<rparr>) l;
     rt \<leftarrow> threads l (running_thread l);
     dn \<leftarrow> arr_set (done_flag l) (th_id rt) 1;
     Some (l\<lparr>done_flag := dn\<rparr>) }"

definition pthread_exit :: "addr \<Rightarrow> lib \<Rightarrow> lib option" where
  "pthread_exit value_ptr l = do {
     l \<leftarrow> pthread_exit_enter value_ptr l;
     scheduler_alarm_handler l }"

text \<open>The loop of \<open>my_pthread_join\<close>: does some waiting thread wait for thread \<open>r\<close>?\<close>

fun waited_for :: "lib \<Rightarrow> int \<Rightarrow> addr list \<Rightarrow> bool option" where
  "waited_for l r [] = Some False"
| "waited_for l r (w # ws) =
     (if w = NULL then waited_for l r ws
      else do {
        t \<leftarrow> threads l w;
        if wait_id t = r then Some True else waited_for l r ws })"

text \<open>\<open>my_pthread_join\<close> up to line 391; \<open>thread\<close> is the caller's copy of the struct.\<close>

definition my_pthread_join_enter :: "my_pthread \<Rightarrow> lib \<Rightarrow> (call \<times> lib) option" where
  "my_pthread_join_enter thread l = do {
     rt \<leftarrow> threads l (running_thread l);
     if th_id rt = th_id thread then Some (Ret EDEADLK, l)
     else if wait_id thread = th_id rt then Some (Ret EDEADLK, l)
     else do {
       w \<leftarrow> waited_for l (th_id rt) (waiting l);
       if w then Some (Ret EINVAL, l)
       else do {
         e \<leftarrow> arr_get (thread_table l) (th_id thread);
         if e = NULL then Some (Ret ESRCH, l)
         else do {
           d \<leftarrow> arr_get (done_flag l) (th_id thread);
           if d = 0 then do {
             let l = setitimer_pause l;
             l \<leftarrow> upd_thread (running_thread l)
                   (\<lambda>t. t\<lparr>th_status := wait_thread, wait_id := th_id thread\<rparr>) l;
             ws \<leftarrow> arr_set (waiting l) (th_id thread) (running_thread l);
             Some (Raise, setitimer_cont (l\<lparr>waiting := ws\<rparr>)) }
           else Some (Go, l) } } } }"

text \<open>Lines 393 to 409: the value \<open>*value_ptr\<close> gets (if any), the return code and the state.\<close>

definition my_pthread_join_resume :: "my_pthread \<Rightarrow> addr \<Rightarrow> lib \<Rightarrow> (addr option \<times> int \<times> lib) option" where
  "my_pthread_join_resume thread value_ptr l = do {
     let l = setitimer_pause l;
     p \<leftarrow> arr_get (thread_table l) (th_id thread);
     t \<leftarrow> threads l p;
     let v = (if value_ptr = NULL then None else Some (th_ret t));
     ws \<leftarrow> arr_set (waiting l) (th_id thread) NULL;
     h \<leftarrow> free_raw (ss_sp t) (lheap l);
     tt \<leftarrow> arr_set (thread_table l) (th_id thread) NULL;
     l \<leftarrow> free_ID (th_id thread) (l\<lparr>waiting := ws, lheap := h, thread_table := tt\<rparr>);
     Some (v, 0, setitimer_cont l) }"

section \<open>Mutexes\<close>

definition my_pthread_mutex_init :: "addr \<Rightarrow> addr \<Rightarrow> lib \<Rightarrow> (int \<times> lib) option" where
  "my_pthread_mutex_init mutex mutexattr l = do {
     let (q, h) = make_queue (lheap l);
     l \<leftarrow> upd_mutex mutex (\<lambda>m. m\<lparr>m_waiting := q\<rparr>) (l\<lparr>lheap := h\<rparr>);
     if q = NULL then Some (ENOMEM, l)
     else if scan (\<lambda>x. x = mutex) (mutex_list l) \<ge> 0 then Some (EBUSY, l)
     else if mutexattr < NULL then Some (EINVAL, l)
     else do {
       l \<leftarrow> upd_mutex mutex (\<lambda>m. m\<lparr>m_user := NULL\<rparr>) l;
       let i = scan (\<lambda>x. x = NULL) (mutex_list l);
       if i < 0 then Some (0, l)
       else do {
         ml \<leftarrow> arr_set (mutex_list l) i mutex;
         Some (0, l\<lparr>mutex_list := ml\<rparr>) } } }"

definition my_pthread_mutex_claim :: "addr \<Rightarrow> lib \<Rightarrow> (int \<times> lib) option" where
  "my_pthread_mutex_claim mutex l = do {
     l \<leftarrow> upd_mutex mutex (\<lambda>m. m\<lparr>m_user := running_thread l\<rparr>) l;
     Some (0, setitimer_cont l) }"

text \<open>\<open>my_pthread_mutex_lock\<close> up to the signal; \<open>Go\<close> means the lines from 477 follow at once.\<close>

definition my_pthread_mutex_lock_enter :: "addr \<Rightarrow> lib \<Rightarrow> (call \<times> lib) option" where
  "my_pthread_mutex_lock_enter mutex l = do {
     let l = setitimer_pause l;
     if mutex \<le> NULL then Some (Ret EINVAL, setitimer_cont l)
     else do {
       m \<leftarrow> mutexes l mutex;
       if m_user m = running_thread l then Some (Ret EDEADLK, setitimer_cont l)
       else if m_user m \<noteq> NULL then do {
         l \<leftarrow> enqueue_q (running_thread l) (m_waiting m) l;
         l \<leftarrow> upd_thread (running_thread l) (\<lambda>t. t\<lparr>th_status := wait_mutex\<rparr>) l;
         Some (Raise, setitimer_cont l) }
       else Some (Go, l) } }"

definition my_pthread_mutex_unlock :: "addr \<Rightarrow> lib \<Rightarrow> (int \<times> lib) option" where
  "my_pthread_mutex_unlock mutex l = do {
     let l = setitimer_pause l;
     m \<leftarrow> mutexes l mutex;
     if m_user m \<noteq> running_thread l then Some (EPERM, setitimer_cont l)
     else do {
       (u, l) \<leftarrow> get_next_q (m_waiting m) l;
       l \<leftarrow> upd_mutex mutex (\<lambda>m. m\<lparr>m_user := u\<rparr>) l;
       if u = NULL then Some (0, setitimer_cont l)
       else do {
         l \<leftarrow> upd_thread u (\<lambda>t. t\<lparr>th_status := active\<rparr>) l;
         t \<leftarrow> threads l u;
         l \<leftarrow> enqueue_level u (th_priority t) l;
         Some (0, setitimer_cont l) } } }"

partial_function (option) drain_loop :: "addr \<Rightarrow> lib \<Rightarrow> lib option" where
  "drain_loop q l = do {
     qs \<leftarrow> hqueues (lheap l) q;
     if q_size qs = 0 then Some l
     else do {
       (temp, l) \<leftarrow> get_next_q q l;
       l \<leftarrow> upd_thread temp (\<lambda>t. t\<lparr>th_status := active\<rparr>) l;
       t \<leftarrow> threads l temp;
       l \<leftarrow> enqueue_level temp (th_priority t) l;
       drain_loop q l } }"

definition my_pthread_mutex_destroy :: "addr \<Rightarrow> lib \<Rightarrow> (int \<times> lib) option" where
  "my_pthread_mutex_destroy mutex l = do {
     let l = setitimer_pause l;
     if scan (\<lambda>x. x = mutex) (mutex_list l) < 0 then Some (EINVAL, l)
     else do {
       m \<leftarrow> mutexes l mutex;
       if m_user m \<noteq> NULL then Some (EBUSY, l)
       else do {
         l \<leftarrow> drain_loop (m_waiting m) l;
         h \<leftarrow> free_queue (m_waiting m) (lheap l);
         l \<leftarrow> upd_mutex mutex (\<lambda>m. m\<lparr>m_user := NULL\<rparr>) (l\<lparr>lheap := h\<rparr>);
         Some (0, setitimer_cont l) } } }"

end
