(* ===== verification/Scheduler.thy ===== *)
theory Scheduler
  imports Thread_Lib "HOL-Library.Multiset"
begin

text \<open>
  Correctness of the scheduler of asst1. The ready queues are read as lists
  (\<open>ready\<close>); the lemmas say what each scheduler step does to them, which thread
  runs next, and when the selection loop cannot end.
\<close>

section \<open>The abstract view\<close>

lemma mset_concat_update:
  "i < length xss \<Longrightarrow> mset (concat (xss[i := ys])) + mset (xss ! i) = mset (concat xss) + mset ys"
proof (induction xss arbitrary: i)
  case Nil
  then show ?case by simp
next
  case (Cons xs xss)
  then show ?case by (cases i) (simp_all add: add.assoc add.left_commute)
qed

lemma mset_concat_tl:
  assumes "i < length xss" "xss ! i \<noteq> []"
  shows "mset (concat xss) = add_mset (hd (xss ! i)) (mset (concat (xss[i := tl (xss ! i)])))"
proof -
  obtain x xs where x: "xss ! i = x # xs" using assms(2) by (cases "xss ! i") auto
  from mset_concat_update [OF assms(1), of xs] show ?thesis by (simp add: x)
qed

definition ready :: "lib \<Rightarrow> addr list list" where
  "ready l = map (contents (lheap l)) (priority_level l)"

definition room :: "lib \<Rightarrow> nat" where
  "room l = length (hfree (lheap l))"

text \<open>Well-formed queues and counters.\<close>

definition sched_ok :: "lib \<Rightarrow> bool" where
  "sched_ok l \<longleftrightarrow> heap_ok (lheap l) \<and> length (priority_level l) = 5 \<and>
     distinct (priority_level l) \<and> set (priority_level l) \<subseteq> dom (hqueues (lheap l)) \<and>
     0 \<le> current_priority l \<and> current_priority l < 5 \<and> run_at_priority l = 0 \<and> NULL \<notin> (\<Union>q \<in> set (ready l). set q)"

text \<open>What a step on the heap leaves of the queues that are not ready queues.\<close>

definition same_others :: "lib \<Rightarrow> lib \<Rightarrow> bool" where
  "same_others l l' \<longleftrightarrow> dom (hqueues (lheap l')) = dom (hqueues (lheap l)) \<and>
     htids (lheap l') = htids (lheap l) \<and> hraw (lheap l') = hraw (lheap l) \<and>
     (\<forall>q. q \<notin> set (priority_level l) \<longrightarrow> contents (lheap l') q = contents (lheap l) q)"

lemma same_others_refl [simp]: "same_others l l"
  by (simp add: same_others_def)

lemma same_others_trans:
  "same_others l l' \<Longrightarrow> same_others l' l'' \<Longrightarrow> priority_level l' = priority_level l \<Longrightarrow> same_others l l''"
  by (auto simp: same_others_def)

lemma ready_length [simp]: "length (ready l) = length (priority_level l)"
  by (simp add: ready_def)

lemma ready_nth: "p < length (priority_level l) \<Longrightarrow> ready l ! p = contents (lheap l) (priority_level l ! p)"
  by (simp add: ready_def)

lemma sched_okD:
  assumes "sched_ok l"
  shows "heap_ok (lheap l)" "length (priority_level l) = 5" "distinct (priority_level l)"
    "set (priority_level l) \<subseteq> dom (hqueues (lheap l))" "0 \<le> current_priority l" "current_priority l < 5"
    "p < 5 \<Longrightarrow> NULL \<notin> set (ready l ! p)" "run_at_priority l = 0"
  using assms nth_mem [of p "ready l"] by (auto simp: sched_ok_def)

text \<open>Fields the queues do not depend on.\<close>

lemma view_upd [simp]:
  "ready (l\<lparr>threads := ts\<rparr>) = ready l" "ready (l\<lparr>running_thread := t\<rparr>) = ready l"
  "ready (l\<lparr>current_priority := c\<rparr>) = ready l" "ready (l\<lparr>run_at_priority := r\<rparr>) = ready l"
  "ready (l\<lparr>itimer := i\<rparr>) = ready l" "ready (l\<lparr>cont_val := i\<rparr>) = ready l"
  "room (l\<lparr>threads := ts\<rparr>) = room l" "room (l\<lparr>running_thread := t\<rparr>) = room l"
  "room (l\<lparr>current_priority := c\<rparr>) = room l" "room (l\<lparr>run_at_priority := r\<rparr>) = room l"
  "room (l\<lparr>itimer := i\<rparr>) = room l" "room (l\<lparr>cont_val := i\<rparr>) = room l"
  by (simp_all add: ready_def room_def)

lemma sched_ok_upd [simp]:
  "sched_ok (l\<lparr>threads := ts\<rparr>) = sched_ok l" "sched_ok (l\<lparr>running_thread := t\<rparr>) = sched_ok l"
  "sched_ok (l\<lparr>itimer := i\<rparr>) = sched_ok l"
  "sched_ok (l\<lparr>cont_val := i\<rparr>) = sched_ok l"
  by (simp_all add: sched_ok_def)

lemma done_flag_upd [simp]:
  "ready (l\<lparr>done_flag := d\<rparr>) = ready l" "sched_ok (l\<lparr>done_flag := d\<rparr>) = sched_ok l"
  "room (l\<lparr>done_flag := d\<rparr>) = room l"
  by (simp_all add: ready_def sched_ok_def room_def)

lemma sched_ok_priority:
  "sched_ok l \<Longrightarrow> 0 \<le> c \<Longrightarrow> c < 5 \<Longrightarrow> sched_ok (l\<lparr>current_priority := c\<rparr>)"
  by (simp add: sched_ok_def)

lemma level_queue:
  assumes "sched_ok l" "p < 5"
  shows "priority_level l ! p \<in> set (priority_level l)" "priority_level l ! p \<in> dom (hqueues (lheap l))"
proof -
  show *: "priority_level l ! p \<in> set (priority_level l)"
    using assms sched_okD(2) by (metis nth_mem)
  show "priority_level l ! p \<in> dom (hqueues (lheap l))"
    using sched_okD(4) [OF assms(1)] * by (rule subsetD)
qed

section \<open>Queue steps of the library\<close>

lemma enqueue_level_law:
  assumes ok: "sched_ok l" and p: "p < 5" and r: "0 < room l" and t: "t \<noteq> NULL"
  shows "\<exists>h. enqueue_level t (int p) l = Some (l\<lparr>lheap := h\<rparr>) \<and> sched_ok (l\<lparr>lheap := h\<rparr>) \<and>
    same_others l (l\<lparr>lheap := h\<rparr>) \<and> Suc (room (l\<lparr>lheap := h\<rparr>)) = room l \<and>
    ready (l\<lparr>lheap := h\<rparr>) = (ready l)[p := ready l ! p @ [t]]"
proof -
  note D = sched_okD [OF ok]
  let ?q = "priority_level l ! p"
  note q = level_queue(2,1) [OF ok p]
  from enqueue_law [OF D(1) q(1), of t] r obtain h where
    h: "enqueue t ?q (lheap l) = Some h" "heap_ok h" "dom (hqueues h) = dom (hqueues (lheap l))"
      "Suc (length (hfree h)) = length (hfree (lheap l))" "htids h = htids (lheap l)" "hraw h = hraw (lheap l)"
      "contents h = (contents (lheap l))(?q := contents (lheap l) ?q @ [t])"
    by (auto simp: room_def)
  have rd: "ready (l\<lparr>lheap := h\<rparr>) = (ready l)[p := ready l ! p @ [t]]"
    using map_upd_distinct [OF D(3)] p D(2) by (simp add: ready_def h(7))
  have "set ((ready l)[p := ready l ! p @ [t]]) \<subseteq> insert (ready l ! p @ [t]) (set (ready l))"
    by (rule set_update_subset_insert)
  then have "NULL \<notin> (\<Union>q \<in> set (ready (l\<lparr>lheap := h\<rparr>)). set q)"
    using ok t sched_okD(7) [OF ok p] unfolding rd by (auto simp: sched_ok_def)
  then have "sched_ok (l\<lparr>lheap := h\<rparr>)"
    using ok h(2,3) by (simp add: sched_ok_def)
  moreover have "enqueue_level t (int p) l = Some (l\<lparr>lheap := h\<rparr>)"
    using h(1) p D(2) by (simp add: enqueue_level_def enqueue_q_def)
  ultimately show ?thesis
    using h q(2) rd by (auto simp: same_others_def room_def)
qed

lemma get_next_level_empty:
  assumes ok: "sched_ok l" and p: "p < 5" and "ready l ! p = []"
  shows "get_next_level (int p) l = Some (NULL, l)"
proof -
  note D = sched_okD [OF ok]
  from ring_queue.deq_empty [OF D(1) level_queue(2) [OF ok p]] assms D(2) show ?thesis
    by (simp add: get_next_level_def get_next_q_def ready_nth)
qed

lemma get_next_level_law:
  assumes ok: "sched_ok l" and p: "p < 5" and ts: "ready l ! p = t # ts"
  shows "\<exists>h. get_next_level (int p) l = Some (t, l\<lparr>lheap := h\<rparr>) \<and> t \<noteq> NULL \<and> sched_ok (l\<lparr>lheap := h\<rparr>) \<and>
    same_others l (l\<lparr>lheap := h\<rparr>) \<and> room (l\<lparr>lheap := h\<rparr>) = Suc (room l) \<and>
    ready (l\<lparr>lheap := h\<rparr>) = (ready l)[p := ts]"
proof -
  note D = sched_okD [OF ok]
  let ?q = "priority_level l ! p"
  note q = level_queue(2,1) [OF ok p]
  from get_next_law [OF D(1) q(1)] ts p D(2) obtain h where
    h: "get_next ?q (lheap l) = Some (t, h)" "heap_ok h" "dom (hqueues h) = dom (hqueues (lheap l))"
      "length (hfree h) = Suc (length (hfree (lheap l)))" "htids h = htids (lheap l)" "hraw h = hraw (lheap l)"
      "contents h = (contents (lheap l))(?q := ts)"
    by (auto simp: ready_nth)
  have rd: "ready (l\<lparr>lheap := h\<rparr>) = (ready l)[p := ts]"
    using map_upd_distinct [OF D(3)] p D(2) by (simp add: ready_def h(7))
  have "set ((ready l)[p := ts]) \<subseteq> insert ts (set (ready l))" by (rule set_update_subset_insert)
  then have "NULL \<notin> (\<Union>q \<in> set (ready (l\<lparr>lheap := h\<rparr>)). set q)"
    using ok sched_okD(7) [OF ok p] ts unfolding rd by (auto simp: sched_ok_def)
  then have "sched_ok (l\<lparr>lheap := h\<rparr>)"
    using ok h(2,3) by (simp add: sched_ok_def)
  moreover have "get_next_level (int p) l = Some (t, l\<lparr>lheap := h\<rparr>)"
    using h(1) p D(2) by (simp add: get_next_level_def get_next_q_def)
  moreover have "t \<noteq> NULL" using sched_okD(7) [OF ok p] ts by auto
  ultimately show ?thesis
    using h q(2) rd by (auto simp: same_others_def room_def)
qed

section \<open>Which thread runs next\<close>

text \<open>
  The specification of the selection: from level \<open>c\<close> on, cyclically, the first level whose
  queue is not empty.
\<close>

definition pick :: "addr list list \<Rightarrow> nat \<Rightarrow> nat option" where
  "pick rs c = map_option (\<lambda>k. (c + k) mod 5) (List.find (\<lambda>k. rs ! ((c + k) mod 5) \<noteq> []) [0..<5])"

lemma pick_None: "pick rs c = None \<longleftrightarrow> (\<forall>p < 5. rs ! p = [])"
proof -
  have "(\<forall>k < 5. rs ! ((c + k) mod 5) = []) \<longleftrightarrow> (\<forall>p < 5. rs ! p = [])"
  proof
    assume *: "\<forall>k < 5. rs ! ((c + k) mod 5) = []"
    show "\<forall>p < 5. rs ! p = []"
    proof (intro allI impI)
      fix p :: nat
      assume p: "p < 5"
      have "(c + (p + 4 * c) mod 5) mod 5 = (c + (p + 4 * c)) mod 5" by (simp add: mod_add_right_eq)
      also have "\<dots> = p" using p by (simp add: mod_mult_self2 [of p 5 c, simplified mult.commute])
      finally show "rs ! p = []" using * by (metis mod_less_divisor zero_less_numeral)
    qed
  qed simp
  then show ?thesis by (auto simp: pick_def find_None_iff)
qed

lemma pick_Some:
  assumes "pick rs c = Some p"
  obtains k where "k < 5" "p = (c + k) mod 5" "rs ! p \<noteq> []" "\<forall>j < k. rs ! ((c + j) mod 5) = []"
  using assms by (auto simp: pick_def find_Some_iff)

lemma select_loop_running: "running_thread l \<noteq> NULL \<Longrightarrow> select_loop l = Some l"
  by (subst select_loop.simps) simp

lemma c_mod_next: "0 \<le> c \<Longrightarrow> c_mod (c + 1) 5 = int ((nat c + 1) mod 5)"
  by (simp add: c_mod_nonneg zmod_int nat_add_distrib add.commute)

lemma mod5_step: "((c + 1) mod 5 + 1 + j) mod 5 = (c + 1 + Suc j) mod (5::nat)"
  using mod_add_left_eq [of "c + 1" 5 "1 + j"] by (simp add: add.assoc)

lemma select_loop_step:
  assumes "sched_ok l" "running_thread l = NULL"
  shows "select_loop l = (let p = (nat (current_priority l) + 1) mod 5;
      l = l\<lparr>current_priority := int p\<rparr>
    in Option.bind (get_next_level (int p) l) (\<lambda>(t, l). select_loop (l\<lparr>running_thread := t\<rparr>)))"
  using sched_okD(5) [OF assms(1)] assms(2)
  by (subst select_loop.simps) (simp add: c_mod_next Let_def)

lemma select_loop_finds:
  assumes "sched_ok l" "running_thread l = NULL" "k < 5"
    and "p = (nat (current_priority l) + 1 + k) mod 5" "ready l ! p = t # ts"
    and "\<forall>j < k. ready l ! ((nat (current_priority l) + 1 + j) mod 5) = []"
  shows "\<exists>h. select_loop l = Some (l\<lparr>current_priority := int p, lheap := h, running_thread := t\<rparr>) \<and>
    sched_ok (l\<lparr>current_priority := int p, lheap := h\<rparr>) \<and> t \<noteq> NULL \<and> same_others l (l\<lparr>lheap := h\<rparr>) \<and>
    room (l\<lparr>lheap := h\<rparr>) = Suc (room l) \<and> ready (l\<lparr>lheap := h\<rparr>) = (ready l)[p := ts]"
  using assms
proof (induction k arbitrary: l p)
  case 0
  let ?l = "l\<lparr>current_priority := int p\<rparr>"
  have p: "p < 5" "p = (nat (current_priority l) + 1) mod 5" using 0 by simp_all
  have ok: "sched_ok ?l" using 0(1) p(1) by (simp add: sched_ok_priority)
  from get_next_level_law [OF ok p(1)] 0(5) obtain h where
    h: "get_next_level (int p) ?l = Some (t, ?l\<lparr>lheap := h\<rparr>)" "t \<noteq> NULL" "sched_ok (?l\<lparr>lheap := h\<rparr>)"
      "same_others ?l (?l\<lparr>lheap := h\<rparr>)" "room (?l\<lparr>lheap := h\<rparr>) = Suc (room l)"
      "ready (?l\<lparr>lheap := h\<rparr>) = (ready l)[p := ts]" by auto
  have "select_loop l = Some (l\<lparr>current_priority := int p, lheap := h, running_thread := t\<rparr>)"
    using select_loop_step [OF 0(1,2)] h(1,2) p(2) by (simp add: Let_def select_loop_running)
  with h show ?case by (intro exI [of _ h]) (simp add: same_others_def ready_def room_def)
next
  case (Suc k)
  let ?c = "nat (current_priority l)"
  let ?p = "(?c + 1) mod 5"
  let ?l = "l\<lparr>current_priority := int ?p\<rparr>"
  have e: "ready l ! ?p = []" using Suc.prems(6) by force
  have ok: "sched_ok ?l" using Suc.prems(1) by (simp add: sched_ok_priority)
  have nxt: "(?p + 1 + j) mod 5 = (?c + 1 + Suc j) mod 5" for j by (rule mod5_step)
  have "select_loop l = select_loop (?l\<lparr>running_thread := NULL\<rparr>)"
    using select_loop_step [OF Suc.prems(1,2)] get_next_level_empty [OF ok, of ?p] e
    by (simp add: Let_def)
  also have "?l\<lparr>running_thread := NULL\<rparr> = ?l" using Suc.prems(2) by simp
  finally have step: "select_loop l = select_loop ?l" .
  have "\<exists>h. select_loop ?l = Some (?l\<lparr>current_priority := int p, lheap := h, running_thread := t\<rparr>) \<and>
    sched_ok (?l\<lparr>current_priority := int p, lheap := h\<rparr>) \<and> t \<noteq> NULL \<and> same_others ?l (?l\<lparr>lheap := h\<rparr>) \<and>
    room (?l\<lparr>lheap := h\<rparr>) = Suc (room ?l) \<and> ready (?l\<lparr>lheap := h\<rparr>) = (ready ?l)[p := ts]"
  proof (rule Suc.IH)
    show "p = (nat (current_priority ?l) + 1 + k) mod 5"
      using Suc.prems(4) nxt [of k] by simp
    show "\<forall>j < k. ready ?l ! ((nat (current_priority ?l) + 1 + j) mod 5) = []"
    proof (intro allI impI)
      fix j
      assume "j < k"
      then have "ready l ! ((?c + 1 + Suc j) mod 5) = []" using Suc.prems(6) by blast
      then show "ready ?l ! ((nat (current_priority ?l) + 1 + j) mod 5) = []" using nxt [of j] by simp
    qed
  qed (use ok Suc.prems in auto)
  with step show ?case by (auto simp: same_others_def ready_def room_def)
qed

text \<open>With every ready queue empty the loop \<^verbatim>\<open>while (!running_thread)\<close> spins for ever.\<close>

lemma select_loop_spins:
  assumes "sched_ok l" "running_thread l = NULL" "\<forall>p < 5. ready l ! p = []"
  shows "select_loop l = None"
proof (rule ccontr)
  assume "select_loop l \<noteq> None"
  then obtain r where r: "select_loop l = Some r" by auto
  have "\<not> (sched_ok l \<and> running_thread l = NULL \<and> (\<forall>p < 5. ready l ! p = []))"
  proof (rule select_loop.raw_induct [where P = "\<lambda>l r. \<not> (sched_ok l \<and> running_thread l = NULL \<and>
        (\<forall>p < 5. ready l ! p = []))", OF _ r])
    fix f l r
    assume IH: "\<And>l r. f l = Some r \<Longrightarrow> \<not> (sched_ok l \<and> running_thread l = NULL \<and> (\<forall>p < 5. ready l ! p = []))"
      and eq: "(if running_thread l \<noteq> NULL then Some l
        else let l = l\<lparr>current_priority := c_mod (current_priority l + 1) 5\<rparr>
             in Option.bind (get_next_level (current_priority l) l) (\<lambda>(t, l). f (l\<lparr>running_thread := t\<rparr>))) = Some r"
    show "\<not> (sched_ok l \<and> running_thread l = NULL \<and> (\<forall>p < 5. ready l ! p = []))"
    proof
      assume *: "sched_ok l \<and> running_thread l = NULL \<and> (\<forall>p < 5. ready l ! p = [])"
      let ?p = "(nat (current_priority l) + 1) mod 5"
      let ?l = "l\<lparr>current_priority := int ?p\<rparr>"
      have c: "c_mod (current_priority l + 1) 5 = int ?p" using * sched_okD(5) by (intro c_mod_next) auto
      have ok: "sched_ok ?l" using * by (simp add: sched_ok_priority)
      have "get_next_level (int ?p) ?l = Some (NULL, ?l)"
        using get_next_level_empty [OF ok] * by simp
      then have "f (?l\<lparr>running_thread := NULL\<rparr>) = Some r" using eq * c by (simp add: Let_def)
      from IH [OF this] show False using ok * by simp
    qed
  qed
  with assms show False by simp
qed

section \<open>Rescheduling\<close>

text \<open>\<open>run_at_priority\<close> is 0 at every decision, so the current level advances every time.\<close>

lemma update_counters_advance:
  assumes "sched_ok l"
  shows "update_counters l = l\<lparr>current_priority := int ((nat (current_priority l) + 1) mod 5)\<rparr>"
  using sched_okD(5,6,8) [OF assms] by (simp add: update_counters_def c_mod_next)

lemma reschedule_picks:
  assumes ok: "sched_ok l" and pk: "pick (ready l) (nat (current_priority l) + 1) = Some p"
  shows "\<exists>h. reschedule l = Some (l\<lparr>current_priority := int p, lheap := h,
      running_thread := hd (ready l ! p), itimer := 25\<rparr>) \<and> hd (ready l ! p) \<noteq> NULL \<and>
    sched_ok (l\<lparr>current_priority := int p, lheap := h\<rparr>) \<and> same_others l (l\<lparr>lheap := h\<rparr>) \<and>
    room (l\<lparr>lheap := h\<rparr>) = Suc (room l) \<and> ready (l\<lparr>lheap := h\<rparr>) = (ready l)[p := tl (ready l ! p)]"
proof -
  let ?c = "nat (current_priority l) + 1"
  let ?q = "?c mod 5"
  let ?l = "l\<lparr>current_priority := int ?q\<rparr>"
  from pick_Some [OF pk] obtain k where k: "k < 5" "p = (?c + k) mod 5" "ready l ! p \<noteq> []"
      "\<forall>j < k. ready l ! ((?c + j) mod 5) = []" .
  then obtain t ts where t: "ready l ! p = t # ts" by (cases "ready l ! p") auto
  have okq: "sched_ok ?l" using ok by (simp add: sched_ok_priority)
  show ?thesis
  proof (cases k)
    case 0
    then have p: "p = ?q" using k(2) by simp
    from get_next_level_law [OF okq, of p t ts] t p obtain h where
      h: "get_next_level (int p) ?l = Some (t, ?l\<lparr>lheap := h\<rparr>)" "t \<noteq> NULL" "sched_ok (?l\<lparr>lheap := h\<rparr>)"
        "same_others ?l (?l\<lparr>lheap := h\<rparr>)" "room (?l\<lparr>lheap := h\<rparr>) = Suc (room l)"
        "ready (?l\<lparr>lheap := h\<rparr>) = (ready l)[p := ts]" by auto
    have "reschedule l = Some (l\<lparr>current_priority := int p, lheap := h, running_thread := t, itimer := 25\<rparr>)"
      using h(1,2) p by (simp add: reschedule_def update_counters_advance [OF ok] Let_def
          select_loop_running setitimer_timer_def)
    with h t p show ?thesis by (intro exI [of _ h]) (simp add: same_others_def ready_def room_def)
  next
    case (Suc m)
    have nn: "nat (current_priority ?l) = ?q" by simp
    have nxt: "(?q + 1 + j) mod 5 = (?c + Suc j) mod 5" for j by (rule mod5_step)
    have e: "ready l ! ?q = []" using k(4) Suc by force
    have empty: "get_next_level (int ?q) ?l = Some (NULL, ?l)"
      using get_next_level_empty [OF okq, of ?q] e by simp
    let ?n = "?l\<lparr>running_thread := NULL\<rparr>"
    have "\<exists>h. select_loop ?n = Some (?n\<lparr>current_priority := int p, lheap := h, running_thread := t\<rparr>) \<and>
      sched_ok (?n\<lparr>current_priority := int p, lheap := h\<rparr>) \<and> t \<noteq> NULL \<and> same_others ?n (?n\<lparr>lheap := h\<rparr>) \<and>
      room (?n\<lparr>lheap := h\<rparr>) = Suc (room ?n) \<and> ready (?n\<lparr>lheap := h\<rparr>) = (ready ?n)[p := ts]"
    proof (rule select_loop_finds)
      show "p = (nat (current_priority ?n) + 1 + m) mod 5" using k(2) Suc nxt [of m] by simp
      show "\<forall>j < m. ready ?n ! ((nat (current_priority ?n) + 1 + j) mod 5) = []"
      proof (intro allI impI)
        fix j
        assume "j < m"
        then have "ready l ! ((?c + Suc j) mod 5) = []" using k(4) Suc by blast
        then show "ready ?n ! ((nat (current_priority ?n) + 1 + j) mod 5) = []" using nxt [of j] by simp
      qed
    qed (use okq k Suc t in auto)
    then obtain h where h: "select_loop ?n = Some (?n\<lparr>current_priority := int p, lheap := h, running_thread := t\<rparr>)"
      "sched_ok (?n\<lparr>current_priority := int p, lheap := h\<rparr>)" "t \<noteq> NULL" "same_others ?n (?n\<lparr>lheap := h\<rparr>)"
      "room (?n\<lparr>lheap := h\<rparr>) = Suc (room ?n)" "ready (?n\<lparr>lheap := h\<rparr>) = (ready ?n)[p := ts]" by blast
    have "reschedule l = Some (l\<lparr>current_priority := int p, lheap := h, running_thread := t, itimer := 25\<rparr>)"
      using h(1) empty by (simp add: reschedule_def update_counters_advance [OF ok] Let_def setitimer_timer_def)
    moreover have "sched_ok (l\<lparr>current_priority := int p, lheap := h\<rparr>)"
      using h(2) by (simp add: sched_ok_def ready_def)
    ultimately show ?thesis using h(3-6) t
      by (intro exI [of _ h]) (simp add: same_others_def ready_def room_def)
  qed
qed

lemma reschedule_spins:
  assumes ok: "sched_ok l" and "\<forall>p < 5. ready l ! p = []"
  shows "reschedule l = None"
proof -
  let ?q = "(nat (current_priority l) + 1) mod 5"
  let ?l = "l\<lparr>current_priority := int ?q\<rparr>"
  have okq: "sched_ok ?l" using ok by (simp add: sched_ok_priority)
  have "get_next_level (int ?q) ?l = Some (NULL, ?l)"
    using get_next_level_empty [OF okq, of ?q] assms(2) by simp
  moreover have "select_loop (?l\<lparr>running_thread := NULL\<rparr>) = None"
    by (rule select_loop_spins) (use okq assms(2) in simp_all)
  ultimately show ?thesis
    by (simp add: reschedule_def update_counters_advance [OF ok] Let_def)
qed

section \<open>The signal handler\<close>

text \<open>The state after the running thread is queued at level \<open>p\<close> and another one is dispatched.\<close>

definition dispatched :: "lib \<Rightarrow> addr list list \<Rightarrow> (addr \<rightharpoonup> my_pthread) \<Rightarrow> lib \<Rightarrow> bool" where
  "dispatched l rs ts l' \<longleftrightarrow> (\<exists>p. pick rs (nat (current_priority l) + 1) = Some p \<and>
     running_thread l' = hd (rs ! p) \<and> ready l' = rs[p := tl (rs ! p)] \<and>
     current_priority l' = int p \<and> threads l' = ts \<and> itimer l' = 25 \<and> sched_ok l' \<and>
     same_others l l' \<and> mutexes l' = mutexes l \<and> waiting l' = waiting l \<and>
     thread_table l' = thread_table l \<and> done_flag l' = done_flag l \<and> priority_level l' = priority_level l)"

lemma reschedule_dispatched:
  assumes "sched_ok l" "\<exists>p < 5. ready l ! p \<noteq> []"
  shows "\<exists>l'. reschedule l = Some l' \<and> dispatched l (ready l) (threads l) l' \<and> room l' = Suc (room l)"
proof -
  obtain p where p: "pick (ready l) (nat (current_priority l) + 1) = Some p"
    using assms(2) pick_None by (metis not_None_eq)
  from reschedule_picks [OF assms(1) p] obtain h where
    h: "reschedule l = Some (l\<lparr>current_priority := int p, lheap := h,
        running_thread := hd (ready l ! p), itimer := 25\<rparr>)"
      "sched_ok (l\<lparr>current_priority := int p, lheap := h\<rparr>)" "same_others l (l\<lparr>lheap := h\<rparr>)"
      "room (l\<lparr>lheap := h\<rparr>) = Suc (room l)" "ready (l\<lparr>lheap := h\<rparr>) = (ready l)[p := tl (ready l ! p)]" by blast
  show ?thesis
    using h p by (auto simp: dispatched_def ready_def room_def same_others_def sched_ok_def)
qed

lemma dispatched_pause:
  "dispatched (l\<lparr>cont_val := v, itimer := i\<rparr>) rs ts l' = dispatched l rs ts l'"
  by (simp add: dispatched_def same_others_def)

lemma enqueue_then_reschedule:
  assumes "sched_ok l" "p < 5" "0 < room l" "t \<noteq> NULL"
  shows "\<exists>l1 l'. enqueue_level t (int p) l = Some l1 \<and> reschedule l1 = Some l' \<and>
    dispatched l ((ready l)[p := ready l ! p @ [t]]) (threads l) l' \<and> room l' = room l"
proof -
  from enqueue_level_law [OF assms] obtain h where
    h: "enqueue_level t (int p) l = Some (l\<lparr>lheap := h\<rparr>)" "sched_ok (l\<lparr>lheap := h\<rparr>)"
      "same_others l (l\<lparr>lheap := h\<rparr>)" "Suc (room (l\<lparr>lheap := h\<rparr>)) = room l"
      "ready (l\<lparr>lheap := h\<rparr>) = (ready l)[p := ready l ! p @ [t]]" by blast
  have "ready (l\<lparr>lheap := h\<rparr>) ! p \<noteq> []" using h(5) assms(2) sched_okD(2) [OF assms(1)] by simp
  then obtain l' where l': "reschedule (l\<lparr>lheap := h\<rparr>) = Some l'"
      "dispatched (l\<lparr>lheap := h\<rparr>) ((ready l)[p := ready l ! p @ [t]]) (threads l) l'"
      "room l' = Suc (room (l\<lparr>lheap := h\<rparr>))"
    using reschedule_dispatched [OF h(2)] assms(2) h(5) by auto
  have "dispatched l ((ready l)[p := ready l ! p @ [t]]) (threads l) l'"
    using l'(2) h(3) by (auto simp: dispatched_def same_others_def)
  with h(1,4) l'(1,3) show ?thesis by auto
qed

lemma c_mod_level: "0 \<le> p \<Longrightarrow> c_mod (p + 1) 5 = int (nat (p + 1) mod 5)"
  by (simp add: c_mod_nonneg zmod_int)

lemma handler_within_quantum:
  assumes "threads l (running_thread l) = Some rt" "th_status rt = active"
    and "intervals_run rt < current_priority l"
  shows "scheduler_alarm_handler l = Some (l\<lparr>cont_val := itimer l, itimer := 25,
    threads := (threads l)(running_thread l \<mapsto> rt\<lparr>intervals_run := intervals_run rt + 1\<rparr>)\<rparr>)"
  using assms
  by (simp add: scheduler_alarm_handler_def setitimer_pause_def setitimer_timer_def upd_thread_def Let_def)

lemma handler_preempts_law:
  assumes ok: "sched_ok l" and rt: "threads l (running_thread l) = Some rt"
    and st: "th_status rt = active" and iv: "\<not> intervals_run rt < current_priority l"
    and pr: "0 \<le> th_priority rt" "th_priority rt < 5"
    and run: "running_thread l \<noteq> NULL" and mem: "0 < room l"
  shows "\<exists>l'. scheduler_alarm_handler l = Some l' \<and> room l' = room l \<and>
    (let p = nat (th_priority rt + 1) mod 5
     in dispatched l ((ready l)[p := ready l ! p @ [running_thread l]])
          ((threads l)(running_thread l \<mapsto> rt\<lparr>intervals_run := 0, th_priority := int p\<rparr>)) l')"
proof -
  let ?p = "nat (th_priority rt + 1) mod 5"
  let ?l = "l\<lparr>cont_val := itimer l, itimer := 0,
    threads := (threads l)(running_thread l \<mapsto> rt\<lparr>intervals_run := 0, th_priority := int ?p\<rparr>)\<rparr>"
  have c: "c_mod (th_priority rt + 1) 5 = int ?p" using pr by (intro c_mod_level)
  have "\<exists>l1 l'. enqueue_level (running_thread l) (int ?p) ?l = Some l1 \<and> reschedule l1 = Some l' \<and>
      dispatched ?l ((ready ?l)[?p := ready ?l ! ?p @ [running_thread l]]) (threads ?l) l' \<and> room l' = room ?l"
    by (rule enqueue_then_reschedule) (use ok run mem in simp_all)
  then obtain l1 l' where 1: "enqueue_level (running_thread l) (int ?p) ?l = Some l1" "reschedule l1 = Some l'"
      "dispatched ?l ((ready ?l)[?p := ready ?l ! ?p @ [running_thread l]]) (threads ?l) l'" "room l' = room ?l"
    by blast
  have "scheduler_alarm_handler l = Some l'"
    using 1(1,2) rt st iv c
    by (simp add: scheduler_alarm_handler_def setitimer_pause_def upd_thread_def Let_def)
  moreover have "dispatched l ((ready l)[?p := ready l ! ?p @ [running_thread l]]) (threads ?l) l'"
    using 1(3) by (simp add: dispatched_def same_others_def)
  ultimately show ?thesis using 1(4) by (auto simp: Let_def)
qed

lemma handler_yields_law:
  assumes ok: "sched_ok l" and rt: "threads l (running_thread l) = Some rt"
    and st: "th_status rt = yield" and pr: "0 \<le> th_priority rt" "th_priority rt < 5"
    and run: "running_thread l \<noteq> NULL" and mem: "0 < room l"
  shows "\<exists>l'. scheduler_alarm_handler l = Some l' \<and> room l' = room l \<and>
    (let p = nat (th_priority rt)
     in dispatched l ((ready l)[p := ready l ! p @ [running_thread l]]) (threads l) l')"
proof -
  let ?p = "nat (th_priority rt)"
  let ?l = "l\<lparr>cont_val := itimer l, itimer := 0\<rparr>"
  have "\<exists>l1 l'. enqueue_level (running_thread l) (int ?p) ?l = Some l1 \<and> reschedule l1 = Some l' \<and>
      dispatched ?l ((ready ?l)[?p := ready ?l ! ?p @ [running_thread l]]) (threads ?l) l' \<and> room l' = room ?l"
    by (rule enqueue_then_reschedule) (use ok run mem pr in simp_all)
  then obtain l1 l' where 1: "enqueue_level (running_thread l) (int ?p) ?l = Some l1" "reschedule l1 = Some l'"
      "dispatched ?l ((ready ?l)[?p := ready ?l ! ?p @ [running_thread l]]) (threads ?l) l'" "room l' = room ?l"
    by blast
  have "scheduler_alarm_handler l = Some l'"
    using 1(1,2) rt st pr by (simp add: scheduler_alarm_handler_def setitimer_pause_def Let_def)
  with 1(3,4) show ?thesis by (simp add: dispatched_pause Let_def)
qed

lemma handler_blocks_law:
  assumes ok: "sched_ok l" and rt: "threads l (running_thread l) = Some rt"
    and st: "th_status rt = wait_mutex \<or> th_status rt = wait_thread"
  shows "((\<exists>p < 5. ready l ! p \<noteq> []) \<longrightarrow>
      (\<exists>l'. scheduler_alarm_handler l = Some l' \<and> dispatched l (ready l) (threads l) l' \<and> room l' = Suc (room l))) \<and>
    ((\<forall>p < 5. ready l ! p = []) \<longrightarrow> scheduler_alarm_handler l = None)"
proof -
  let ?l = "l\<lparr>cont_val := itimer l, itimer := 0\<rparr>"
  have h: "scheduler_alarm_handler l = reschedule ?l"
    using rt st by (auto simp: scheduler_alarm_handler_def setitimer_pause_def Let_def)
  have okl: "sched_ok ?l" using ok by simp
  show ?thesis
    using reschedule_dispatched [OF okl] reschedule_spins [OF okl] h by (auto simp: dispatched_pause room_def)
qed


lemma handler_conserves_threads_law:
  assumes "sched_ok l" "p < 5"
    and "dispatched l ((ready l)[p := ready l ! p @ [running_thread l]]) ts l'"
  shows "add_mset (running_thread l') (mset (concat (ready l'))) =
    add_mset (running_thread l) (mset (concat (ready l)))"
proof -
  define rs where "rs = (ready l)[p := ready l ! p @ [running_thread l]]"
  from assms(3) obtain q where q: "pick rs (nat (current_priority l) + 1) = Some q"
      "running_thread l' = hd (rs ! q)" "ready l' = rs[q := tl (rs ! q)]"
    by (auto simp: dispatched_def rs_def)
  have len: "length rs = 5" "p < length (ready l)"
    using sched_okD(2) [OF assms(1)] assms(2) by (simp_all add: rs_def)
  obtain k where "q = (nat (current_priority l) + 1 + k) mod 5" "rs ! q \<noteq> []"
    using pick_Some [OF q(1)] by blast
  then have "q < length rs" "rs ! q \<noteq> []" using len(1) by simp_all
  from mset_concat_tl [OF this] have "mset (concat rs) = add_mset (running_thread l') (mset (concat (ready l')))"
    by (simp add: q(2,3))
  moreover have "mset (concat rs) = add_mset (running_thread l) (mset (concat (ready l)))"
    using mset_concat_update [OF len(2), of "ready l ! p @ [running_thread l]"] by (simp add: rs_def)
  ultimately show ?thesis by simp
qed

text \<open>
  Preemption and yielding neither lose nor duplicate a thread: the threads in the
  ready queues together with the running one are the same multiset before and after, for
  every state in which the handler dispatches with the running thread queued at level \<open>p\<close>.
\<close>

theorem handler_conserves_threads:
  assumes "sched_ok l" "p < 5"
    and "dispatched l ((ready l)[p := ready l ! p @ [running_thread l]]) ts l'"
  shows "add_mset (running_thread l') (mset (concat (ready l'))) =
    add_mset (running_thread l) (mset (concat (ready l)))"
  by (rule handler_conserves_threads_law [OF assms])

section \<open>Initialisation\<close>

lemma malloc_raw_law:
  assumes "heap_ok (lheap l)" "hfree (lheap l) = a # as"
  shows "\<exists>h. malloc_raw n l = (a, l\<lparr>lheap := h\<rparr>) \<and> a \<noteq> NULL \<and> heap_ok h \<and> hfree h = as \<and>
    hqueues h = hqueues (lheap l) \<and> contents h = contents (lheap l) \<and> htids h = htids (lheap l) \<and>
    hraw h = (hraw (lheap l))(a \<mapsto> n) \<and> hraw (lheap l) a = None"
proof -
  let ?h = "(lheap l)\<lparr>hfree := as, hraw := (hraw (lheap l))(a \<mapsto> n)\<rparr>"
  have b: "base (a # as) (dom (hnodes (lheap l))) (dom (hqueues (lheap l))) (dom (htids (lheap l)))
      (dom (hraw (lheap l)))" using heap_ok_base [OF assms(1)] assms(2) by simp
  have "heap_base ?h" using base_alloc(4) [OF b] by (simp add: heap_base_def)
  with heap_ok_frame [OF assms(1), of ?h] have "heap_ok ?h" "contents ?h = contents (lheap l)" by simp_all
  with base_fresh [OF b] show ?thesis
    by (intro exI [of _ ?h]) (auto simp: malloc_raw_def c_malloc_def assms(2) domIff)
qed

definition init_level :: "nat \<Rightarrow> lib \<Rightarrow> lib" where
  "init_level i l = (case make_queue (lheap l) of (q, h) \<Rightarrow>
     l\<lparr>lheap := h, priority_level := (priority_level l)[i := q]\<rparr>)"

lemma init_levels_unfold: "init_levels l = fold init_level [0..<5] l"
  by (simp add: init_levels_def init_level_def [abs_def])

lemma init_levels_law:
  assumes "heap_ok (lheap l)" "length (priority_level l) = 5" "n \<le> 5" "n \<le> room l"
  shows "\<exists>h pl. fold init_level [0..<n] l = l\<lparr>lheap := h, priority_level := pl\<rparr> \<and> heap_ok h \<and>
    length pl = 5 \<and> distinct (take n pl) \<and> set (take n pl) \<subseteq> dom (hqueues h) \<and>
    set (take n pl) \<inter> dom (hqueues (lheap l)) = {} \<and> dom (hqueues (lheap l)) \<subseteq> dom (hqueues h) \<and>
    contents h = contents (lheap l) \<and> hfree h = drop n (hfree (lheap l))"
  using assms(3,4)
proof (induction n)
  case 0
  then show ?case
    using assms(1,2) by (intro exI [of _ "lheap l"] exI [of _ "priority_level l"]) simp
next
  case (Suc n)
  then obtain h pl where IH: "fold init_level [0..<n] l = l\<lparr>lheap := h, priority_level := pl\<rparr>" "heap_ok h"
      "length pl = 5" "distinct (take n pl)" "set (take n pl) \<subseteq> dom (hqueues h)"
      "set (take n pl) \<inter> dom (hqueues (lheap l)) = {}" "dom (hqueues (lheap l)) \<subseteq> dom (hqueues h)"
      "contents h = contents (lheap l)" "hfree h = drop n (hfree (lheap l))" by auto
  have n: "n < length (hfree (lheap l))" using Suc.prems(2) by (simp add: room_def)
  then have fr: "hfree h = hfree (lheap l) ! n # drop (Suc n) (hfree (lheap l))"
    using IH(9) by (simp add: Cons_nth_drop_Suc)
  let ?a = "hfree (lheap l) ! n"
  from make_queue_law [OF IH(2) fr] obtain h' where
    h': "make_queue h = (?a, h')" "heap_ok h'" "hfree h' = drop (Suc n) (hfree (lheap l))"
      "dom (hqueues h') = insert ?a (dom (hqueues h))" "?a \<notin> dom (hqueues h)" "contents h' = contents h" by blast
  have tk: "take (Suc n) (pl[n := ?a]) = take n pl @ [?a]"
    using IH(3) Suc.prems(1) by (simp add: take_Suc_conv_app_nth)
  have "fold init_level [0..<Suc n] l = l\<lparr>lheap := h', priority_level := pl[n := ?a]\<rparr>"
    using IH(1) h'(1) by (simp add: init_level_def)
  moreover have "distinct (take (Suc n) (pl[n := ?a]))"
    using tk IH(4,5) h'(5) by auto
  moreover have "set (take (Suc n) (pl[n := ?a])) \<subseteq> dom (hqueues h')"
    using tk IH(5) h'(4) by auto
  moreover have "set (take (Suc n) (pl[n := ?a])) \<inter> dom (hqueues (lheap l)) = {}"
    using tk IH(6,7) h'(5) by auto
  ultimately show ?case
    using h' IH by (intro exI [of _ h'] exI [of _ "pl[n := ?a]"]) auto
qed

text \<open>
  \<open>scheduler_init\<close> with enough memory succeeds and establishes the scheduler's
  invariant: five distinct empty queues, the main thread (identifier 0, top priority) as the
  running thread, identifiers from 1 on, the timer armed and the library marked initialised.
\<close>

theorem scheduler_init_ok:
  assumes h: "heap_ok (lheap l)" and room: "10 \<le> room l" and gc: "gc_main e"
    and st: "length (priority_level l) = 5" "current_priority l = 0" "run_at_priority l = 0"
  shows "\<exists>l'. scheduler_init e l = Some (0, l') \<and> sched_ok l' \<and> ready l' = replicate 5 [] \<and> init l' \<and> itimer l' = 25 \<and> thread_count l' = 1 \<and> tid_list l' = NULL \<and>
    running_thread l' \<noteq> NULL \<and> threads l' (running_thread l') = Some ((junk_thread e)\<lparr>th_status := active,
      th_priority := 0, intervals_run := 0, th_id := 0\<rparr>) \<and>
    mutex_list l' = replicate 1000 NULL \<and> room l' + 10 = room l"
proof -
  let ?l0 = "l\<lparr>thread_count := 1, tid_list := NULL\<rparr>"
  obtain h1 pl where 1: "fold init_level [0..<5] ?l0 = ?l0\<lparr>lheap := h1, priority_level := pl\<rparr>" "heap_ok h1"
      "length pl = 5" "distinct pl" "set pl \<subseteq> dom (hqueues h1)" "set pl \<inter> dom (hqueues (lheap l)) = {}"
      "contents h1 = contents (lheap l)" "hfree h1 = drop 5 (hfree (lheap l))"
    using init_levels_law [of ?l0 5] h room st by (auto simp: room_def)
  have "5 \<le> length (hfree h1)" using room by (simp add: 1(8) room_def)
  then obtain a b c d f as where fr: "hfree h1 = a # b # c # d # f # as"
    by (auto simp: numeral_eq_Suc Suc_le_length_iff)
  have len: "room l = 10 + length as"
  proof -
    have "length (hfree h1) = 5 + length as" by (simp add: fr)
    moreover have "length (hfree h1) = room l - 5" by (simp add: 1(8) room_def)
    ultimately show ?thesis using room by simp
  qed
  define l1 where "l1 = init_levels ?l0"
  have l1: "l1 = ?l0\<lparr>lheap := h1, priority_level := pl\<rparr>" using 1(1) by (simp add: l1_def init_levels_unfold)
  from make_queue_law [OF 1(2) fr] obtain h2 where
    2: "make_queue h1 = (a, h2)" "heap_ok h2" "hfree h2 = b # c # d # f # as"
      "dom (hqueues h2) = insert a (dom (hqueues h1))" "contents h2 = contents h1" by blast
  define l2 where "l2 = l1\<lparr>lheap := h2, death_row := a, thread_table := replicate 1000 0,
    mutex_list := replicate 1000 0\<rparr>"
  obtain h3 where 3: "malloc_raw 1000 l2 = (b, l2\<lparr>lheap := h3\<rparr>)" "b \<noteq> NULL" "heap_ok h3"
      "hfree h3 = c # d # f # as" "hqueues h3 = hqueues h2" "contents h3 = contents h2"
    using malloc_raw_law [of l2 b "c # d # f # as" 1000] 2(2,3) by (auto simp: l2_def)
  define l3 where "l3 = l2\<lparr>lheap := h3, running_thread := b, threads := (threads l2)(b \<mapsto> junk_thread e)\<rparr>"
  let ?t = "(junk_thread e)\<lparr>th_status := active, th_priority := 0, intervals_run := 0, th_id := 0\<rparr>"
  define l4 where "l4 = l3\<lparr>threads := (threads l3)(b \<mapsto> ?t)\<rparr>"
  have t4: "upd_thread (running_thread l3) (\<lambda>t. t\<lparr>th_status := active, th_priority := 0,
      intervals_run := 0, th_id := 0\<rparr>) l3 = Some l4"
    by (simp add: upd_thread_def l4_def l3_def)
  obtain h4 where 4: "malloc_raw 32 l4 = (c, l4\<lparr>lheap := h4\<rparr>)" "c \<noteq> NULL" "heap_ok h4"
      "hfree h4 = d # f # as" "hqueues h4 = hqueues h3" "contents h4 = contents h3"
    using malloc_raw_law [of l4 c "d # f # as" 32] 3(3,4) by (auto simp: l4_def l3_def)
  obtain h5 where 5: "malloc_raw 32 (l4\<lparr>lheap := h4\<rparr>) = (d, l4\<lparr>lheap := h5\<rparr>)" "d \<noteq> NULL" "heap_ok h5"
      "hfree h5 = f # as" "hqueues h5 = hqueues h4" "contents h5 = contents h4"
    using malloc_raw_law [of "l4\<lparr>lheap := h4\<rparr>" d "f # as" 32] 4(3,4) by auto
  obtain h6 where 6: "malloc_raw 32 (l4\<lparr>lheap := h5\<rparr>) = (f, l4\<lparr>lheap := h6\<rparr>)" "heap_ok h6"
      "hfree h6 = as" "hqueues h6 = hqueues h5" "contents h6 = contents h5"
    using malloc_raw_law [of "l4\<lparr>lheap := h5\<rparr>" f as 32] 5(3,4) by auto
  let ?l' = "l4\<lparr>lheap := h6, itimer := 25, init := True\<rparr>"
  have mk: "make_queue (lheap l1) = (a, h2)" using 2(1) by (simp add: l1)
  have eval: "scheduler_init e l = Some (0, ?l')"
    unfolding scheduler_init_def Let_def l1_def [symmetric] mk prod.case l2_def [symmetric] 3(1)
    using 3(2) 4(1,2) 5(1,2) 6(1) gc t4
    by (simp add: l3_def [symmetric] setitimer_timer_def)
  have rd: "ready ?l' = replicate 5 []"
  proof -
    have "contents h6 q = []" if "q \<in> set pl" for q
      using that 1(6,7) 2(5) 3(6) 4(6) 5(6) 6(5) contents_outside [of q "lheap l"] by auto
    then show ?thesis
      using 1(3) by (intro nth_equalityI) (auto simp: ready_def l4_def l3_def l2_def l1)
  qed
  moreover have "sched_ok ?l'"
    using 1(3,4,5) 2(4) 3(5) 4(5) 5(5) 6(2,4) rd st
    by (auto simp: sched_ok_def l4_def l3_def l2_def l1)
  ultimately show ?thesis
    using eval 3(2) 6(3) len
    by (intro exI [of _ ?l']) (simp add: room_def l4_def l3_def l2_def l1)
qed

section \<open>Bounded waiting\<close>

text \<open>
  How many decisions a thread at position \<open>k\<close> of level \<open>q\<close> can still wait: levels are
  visited in cyclic order and no non-empty level is skipped.
\<close>

definition wait_rank :: "int \<Rightarrow> nat \<Rightarrow> nat \<Rightarrow> nat" where
  "wait_rank c q k = 5 * k + nat ((int q - (c + 1)) mod 5)"

lemma cyclic_distance:
  fixes c q k d :: nat
  assumes q: "q = (c + 1 + d) mod 5" "d < 5" and k: "k < d"
  shows "nat ((int q - (int ((c + 1 + k) mod 5) + 1)) mod 5) < nat ((int q - (int c + 1)) mod 5)"
proof -
  have "(int q - (int c + 1)) mod 5 = (int (c + 1 + d) - (int c + 1)) mod 5"
    using q(1) by (simp add: zmod_int mod_diff_left_eq)
  also have "\<dots> = int d" using q(2) by simp
  finally have 1: "(int q - (int c + 1)) mod 5 = int d" .
  have "(a mod 5 - (b mod 5 + 1)) mod 5 = (a - (b + 1)) mod 5" for a b :: int
  proof -
    have "(a mod 5 - (b mod 5 + 1)) mod 5 = ((a mod 5) mod 5 - (b mod 5 + 1) mod 5) mod 5"
      by (rule mod_diff_eq [symmetric])
    also have "\<dots> = (a mod 5 - (b + 1) mod 5) mod 5" by (simp only: mod_mod_trivial mod_add_left_eq)
    also have "\<dots> = (a - (b + 1)) mod 5" by (rule mod_diff_eq)
    finally show ?thesis .
  qed
  from this [of "int (c + 1 + d)" "int (c + 1 + k)"]
  have "(int q - (int ((c + 1 + k) mod 5) + 1)) mod 5 = (int (c + 1 + d) - (int (c + 1 + k) + 1)) mod 5"
    by (simp only: q(1) zmod_int of_nat_numeral)
  also have "int (c + 1 + d) - (int (c + 1 + k) + 1) = int d - int k - 1" by simp
  also have "(int d - int k - 1) mod 5 = int d - int k - 1" using q(2) k by (intro mod_pos_pos_trivial) auto
  finally show ?thesis using 1 k by linarith
qed

lemma residue_reached: "q < 5 \<Longrightarrow> \<exists>d < 5. q = (c + 1 + d) mod (5::nat)"
proof (intro exI conjI)
  assume "q < 5"
  show "(q + 4 * (c + 1)) mod 5 < 5" by simp
  have "(c + 1 + (q + 4 * (c + 1)) mod 5) mod 5 = (c + 1 + (q + 4 * (c + 1))) mod 5"
    by (rule mod_add_right_eq)
  also have "c + 1 + (q + 4 * (c + 1)) = q + 5 * (c + 1)" by simp
  also have "(q + 5 * (c + 1)) mod 5 = q" using \<open>q < 5\<close> by (simp only: mod_mult_self2 mod_less)
  finally show "q = (c + 1 + (q + 4 * (c + 1)) mod 5) mod 5" by simp
qed

text \<open>
  One decision seen from a waiting thread: the level picked loses its head, and the thread either was that head or
  is now in a slot of smaller rank.
\<close>

lemma pick_advances:
  assumes q: "q < 5" and k: "k < length (rs ! q)" and len: "length rs = 5" and pk: "pick rs (c + 1) = Some p"
  shows "hd (rs ! p) = rs ! q ! k \<and> k = 0 \<or>
    (\<exists>k'. k' < length (rs[p := tl (rs ! p)] ! q) \<and> rs[p := tl (rs ! p)] ! q ! k' = rs ! q ! k \<and>
       wait_rank (int p) q k' < wait_rank (int c) q k)"
    (is "_ \<or> (\<exists>k'. k' < length (?rs ! q) \<and> _ k')")
proof -
  from pick_Some [OF pk] obtain j where j: "j < 5" "p = (c + 1 + j) mod 5" "rs ! p \<noteq> []"
      "\<forall>i < j. rs ! ((c + 1 + i) mod 5) = []" .
  have p5: "p < length rs" using j(2) len by simp
  show ?thesis
  proof (cases "p = q")
    case True
    show ?thesis
    proof (cases k)
      case 0
      with True j(3) show ?thesis by (simp add: hd_conv_nth)
    next
      case (Suc k')
      have "nat ((int q - (int q + 1)) mod 5) = 4" by simp
      then have "wait_rank (int p) q k' < wait_rank (int c) q k"
        using True Suc by (simp add: wait_rank_def)
      moreover have "k' < length (?rs ! q)" "?rs ! q ! k' = rs ! q ! k"
        using True Suc k p5 by (simp_all add: nth_tl)
      ultimately show ?thesis by blast
    qed
  next
    case False
    obtain d where d: "d < 5" "q = (c + 1 + d) mod 5" using residue_reached [OF q] by blast
    have "j < d"
    proof (rule ccontr)
      assume "\<not> j < d"
      then have "d < j" using False d j(2) by (metis linorder_neqE_nat)
      then have "rs ! q = []" using j(4) d(2) by simp
      with k show False by simp
    qed
    then have "wait_rank (int p) q k < wait_rank (int c) q k"
      using cyclic_distance [OF d(2,1)] j(2) unfolding wait_rank_def by (metis add_less_cancel_left)
    moreover have "?rs ! q = rs ! q" using False by simp
    ultimately show ?thesis using k by auto
  qed
qed

text \<open>
  Claim C1. No ready thread starves. A scheduling decision either runs the thread at
  position \<open>k\<close> of level \<open>q\<close>, or leaves it in the queue of its level, at most one place
  nearer to the front, with a strictly smaller rank; the rank is below \<open>5 * (k + 1)\<close>, so
  the thread runs within that many decisions.
\<close>

theorem reschedule_bounded_wait:
  assumes ok: "sched_ok l" and q: "q < 5" and k: "k < length (ready l ! q)"
  shows "\<exists>l'. reschedule l = Some l' \<and> sched_ok l' \<and>
    (running_thread l' = ready l ! q ! k \<and> k = 0 \<or>
     (\<exists>k'. k' < length (ready l' ! q) \<and> ready l' ! q ! k' = ready l ! q ! k \<and>
        wait_rank (current_priority l') q k' < wait_rank (current_priority l) q k)) \<and>
    wait_rank (current_priority l) q k < 5 * (k + 1)"
proof -
  have "\<exists>p < 5. ready l ! p \<noteq> []" using q k by (intro exI [of _ q]) auto
  from reschedule_dispatched [OF ok this] obtain l' p where
    l': "reschedule l = Some l'" "pick (ready l) (nat (current_priority l) + 1) = Some p"
      "running_thread l' = hd (ready l ! p)" "ready l' = (ready l)[p := tl (ready l ! p)]"
      "current_priority l' = int p" "sched_ok l'" by (auto simp: dispatched_def)
  let ?c = "nat (current_priority l)"
  have c: "current_priority l = int ?c" using sched_okD(5) [OF ok] by simp
  have "wait_rank (current_priority l) q k < 5 * (k + 1)"
    using pos_mod_bound [of 5 "int q - (current_priority l + 1)"] by (simp add: wait_rank_def nat_less_iff)
  moreover have "length (ready l) = 5" using sched_okD(2) [OF ok] by (simp add: ready_def)
  note pick_advances [OF q k this l'(2), folded c]
  ultimately show ?thesis using l'(1,3-6) by auto
qed

section \<open>A concrete library state\<close>

text \<open>
  Thread 100 runs, thread 101 waits at level 1, three allocation units are left.
\<close>

definition demo_thread :: "int \<Rightarrow> int \<Rightarrow> int \<Rightarrow> thread_status \<Rightarrow> my_pthread" where
  "demo_thread i p n st = \<lparr>th_id = i, th_priority = p, intervals_run = n, wait_id = -1,
     th_status = st, th_ret = NULL, ss_sp = NULL\<rparr>"

definition demo_heap :: heap where
  "demo_heap = \<lparr>hnodes = [6 \<mapsto> \<lparr>nd_thread = 101, nd_next = 6\<rparr>],
     hqueues = [1 \<mapsto> \<lparr>q_back = 0, q_size = 0\<rparr>, 2 \<mapsto> \<lparr>q_back = 6, q_size = 1\<rparr>,
       3 \<mapsto> \<lparr>q_back = 0, q_size = 0\<rparr>, 4 \<mapsto> \<lparr>q_back = 0, q_size = 0\<rparr>, 5 \<mapsto> \<lparr>q_back = 0, q_size = 0\<rparr>],
     htids = Map.empty, hraw = Map.empty, hfree = [7, 8, 9]\<rparr>"

definition demo_lib :: "int \<Rightarrow> thread_status \<Rightarrow> lib" where
  "demo_lib c st = (lib_start demo_heap [100 \<mapsto> demo_thread 1 0 0 st, 101 \<mapsto> demo_thread 2 1 0 active] Map.empty)
     \<lparr>priority_level := [1, 2, 3, 4, 5], running_thread := 100, init := True, itimer := 25, current_priority := c\<rparr>"

lemma demo_heap_qnodes:
  "qnodes demo_heap 1 = []" "qnodes demo_heap 2 = [6]" "qnodes demo_heap 3 = []"
  "qnodes demo_heap 4 = []" "qnodes demo_heap 5 = []"
  by (simp_all add: qnodes_def demo_heap_def)

lemma demo_heap_ok: "heap_ok demo_heap"
proof -
  have d: "dom (hqueues demo_heap) = {1, 2, 3, 4, 5}" by (auto simp: demo_heap_def)
  have "queue_ok demo_heap Q (qnodes demo_heap Q)" if "Q \<in> {1, 2, 3, 4, 5}" for Q
    using that demo_heap_qnodes by (auto simp: queue_ok_def ring_def demo_heap_def)
  moreover have "heap_base demo_heap" by (auto simp: heap_base_def base_def demo_heap_def)
  moreover have "dom (hnodes demo_heap) = {6}" by (simp add: demo_heap_def)
  ultimately show ?thesis unfolding heap_ok_def heap_rep_def d
    by (simp add: demo_heap_qnodes demo_heap_qnodes(1) [unfolded One_nat_def])
qed

lemma demo_ready: "ready (demo_lib c st) = [[], [101], [], [], []]"
  using demo_heap_qnodes
  by (simp add: ready_def demo_lib_def lib_start_def contents_def) (simp add: demo_heap_def)

lemma demo_ok: "0 \<le> c \<Longrightarrow> c < 5 \<Longrightarrow> sched_ok (demo_lib c st)"
proof -
  assume "0 \<le> c" "c < 5"
  moreover have "lheap (demo_lib c st) = demo_heap" "priority_level (demo_lib c st) = [1, 2, 3, 4, 5]"
    "current_priority (demo_lib c st) = c" "run_at_priority (demo_lib c st) = 0"
    by (simp_all add: demo_lib_def lib_start_def)
  moreover have "{1, 2, 3, 4, 5} \<subseteq> dom (hqueues demo_heap)" by (auto simp: demo_heap_def)
  ultimately show ?thesis using demo_heap_ok by (simp add: sched_ok_def demo_ready)
qed

lemma demo_fields [simp]:
  "running_thread (demo_lib c st) = 100" "current_priority (demo_lib c st) = c"
  "threads (demo_lib c st) = [100 \<mapsto> demo_thread 1 0 0 st, 101 \<mapsto> demo_thread 2 1 0 active]"
  "room (demo_lib c st) = 3" "itimer (demo_lib c st) = 25"
  by (simp_all add: demo_lib_def lib_start_def room_def demo_heap_def)

lemma demo_thread_fields [simp]:
  "th_status (demo_thread i p n st) = st" "th_priority (demo_thread i p n st) = p"
  "intervals_run (demo_thread i p n st) = n" "th_id (demo_thread i p n st) = i"
  by (simp_all add: demo_thread_def)

theorem queue_refines_fifo_witness:
  "\<exists>h'. enqueue 100 2 demo_heap = Some h' \<and> contents h' 2 = [101, 100]"
proof -
  have "contents demo_heap 2 = [101]" using demo_heap_qnodes by (simp add: contents_def) (simp add: demo_heap_def)
  moreover have "2 \<in> dom (hqueues demo_heap)" "0 < length (hfree demo_heap)" by (simp_all add: demo_heap_def)
  ultimately show ?thesis using queue_refines_fifo [OF demo_heap_ok, of 2 100] by auto
qed


theorem handler_conserves_threads_witness:
  "\<exists>l'. scheduler_alarm_handler (demo_lib 0 yield) = Some l' \<and>
     add_mset (running_thread l') (mset (concat (ready l'))) = {#100, 101#}"
proof -
  obtain l' where l': "scheduler_alarm_handler (demo_lib 0 yield) = Some l'"
      "dispatched (demo_lib 0 yield) ((ready (demo_lib 0 yield))[0 := ready (demo_lib 0 yield) ! 0 @
         [running_thread (demo_lib 0 yield)]]) (threads (demo_lib 0 yield)) l'"
    using handler_yields_law [of "demo_lib 0 yield" "demo_thread 1 0 0 yield"] demo_ok [of 0 yield]
    by (auto simp: Let_def)
  with handler_conserves_threads [OF demo_ok _ l'(2)] show ?thesis by (auto simp: demo_ready)
qed

theorem reschedule_bounded_wait_witness:
  "\<exists>l'. reschedule (demo_lib 0 wait_mutex) = Some l' \<and> wait_rank 0 1 0 < 5"
  using reschedule_bounded_wait [of "demo_lib 0 wait_mutex" 1 0] demo_ok [of 0 wait_mutex]
  by (auto simp: demo_ready)

theorem scheduler_init_ok_witness:
  "\<exists>l'. scheduler_init \<lparr>gc_main = True, gc_thread = True, junk_thread = demo_thread 7 7 7 yield\<rparr>
      (lib_start \<lparr>hnodes = Map.empty, hqueues = Map.empty, htids = Map.empty, hraw = Map.empty,
         hfree = [1, 2, 3, 4, 5, 6, 7, 8, 9, 10]\<rparr> Map.empty Map.empty) = Some (0, l') \<and>
     sched_ok l' \<and> ready l' = [[], [], [], [], []] \<and> room l' = 0"
  using scheduler_init_ok [of "lib_start \<lparr>hnodes = Map.empty, hqueues = Map.empty, htids = Map.empty,
      hraw = Map.empty, hfree = [1, 2, 3, 4, 5, 6, 7, 8, 9, 10]\<rparr> Map.empty Map.empty"
    "\<lparr>gc_main = True, gc_thread = True, junk_thread = demo_thread 7 7 7 yield\<rparr>"]
  by (auto simp: lib_start_def heap_ok_def heap_rep_def heap_base_def base_def room_def numeral_eq_Suc)

end
