(* ===== verification/Thread_Calls.thy ===== *)
theory Thread_Calls
  imports Scheduler
begin

text \<open>
  Functional behaviour of the calls of the thread library of asst1: thread identifiers,
  \<open>my_pthread_create\<close>, \<open>pthread_exit\<close>, \<open>my_pthread_join\<close> and the mutex calls, on
  every branch, error returns included.
\<close>

section \<open>Thread identifiers\<close>

text \<open>\<open>tid_seg h p ids\<close>: the list of recycled identifiers that starts at pointer \<open>p\<close>.\<close>

primrec tid_seg :: "(addr \<rightharpoonup> tid_node) \<Rightarrow> addr \<Rightarrow> int list \<Rightarrow> addr list \<Rightarrow> bool" where
  "tid_seg h p ids [] \<longleftrightarrow> p = NULL \<and> ids = []"
| "tid_seg h p ids (a # as) \<longleftrightarrow> p = a \<and> a \<noteq> NULL \<and>
     (\<exists>n ids'. h a = Some n \<and> ids = tn_tid n # ids' \<and> tid_seg h (tn_next n) ids' as)"

text \<open>
  Identifier bookkeeping: \<open>used\<close> are the identifiers handed out and not given back; together
  with the recycled ones they are exactly 1 up to \<open>thread_count\<close>, each once.
\<close>

definition ids_ok :: "lib \<Rightarrow> int set \<Rightarrow> int list \<Rightarrow> bool" where
  "ids_ok l used ids \<longleftrightarrow> heap_ok (lheap l) \<and> 1 \<le> thread_count l \<and> distinct ids \<and> set ids \<inter> used = {} \<and>
     used \<union> set ids = {1..<thread_count l} \<and>
     (\<exists>as. distinct as \<and> tid_seg (htids (lheap l)) (tid_list l) ids as)"

lemma tid_seg_upd: "a \<notin> set as \<Longrightarrow> tid_seg (h(a := v)) p ids as = tid_seg h p ids as"
  by (induction as arbitrary: p ids) auto

lemma tid_seg_dom: "tid_seg h p ids as \<Longrightarrow> set as \<subseteq> dom h"
  by (induction as arbitrary: p ids) auto

lemma get_ID_law:
  assumes ok: "ids_ok l used ids"
  shows "\<exists>i l'. get_ID l = Some (if i \<ge> 1000 then -1 else i, l') \<and> i \<notin> used \<and> 1 \<le> i \<and>
    i = (case ids of [] \<Rightarrow> thread_count l | j # _ \<Rightarrow> j) \<and>
    ids_ok l' (insert i used) (tl ids) \<and> threads l' = threads l \<and> contents (lheap l') = contents (lheap l)"
proof -
  from ok obtain as where as: "distinct as" "tid_seg (htids (lheap l)) (tid_list l) ids as"
    by (auto simp: ids_ok_def)
  show ?thesis
  proof (cases as)
    case Nil
    then have "tid_list l = NULL" "ids = []" using as(2) by simp_all
    moreover have "used = {1..<thread_count l}" using ok calculation(2) by (simp add: ids_ok_def)
    moreover have "insert (thread_count l) {1..<thread_count l} = {1..<thread_count l + 1}"
      using ok by (auto simp: ids_ok_def)
    ultimately show ?thesis
      using ok by (auto simp: get_ID_def ids_ok_def intro!: exI [of _ "[]"])
  next
    case (Cons a bs)
    then obtain n ids' where n: "tid_list l = a" "a \<noteq> NULL" "htids (lheap l) a = Some n"
        "ids = tn_tid n # ids'" "tid_seg (htids (lheap l)) (tn_next n) ids' bs" "a \<notin> set bs" "distinct bs"
      using as by auto
    let ?h = "(lheap l)\<lparr>htids := (htids (lheap l))(a := None), hfree := a # hfree (lheap l)\<rparr>"
    have hok: "heap_ok (lheap l)" using ok by (simp add: ids_ok_def)
    have "heap_base ?h"
      using base_free(3) [OF heap_ok_base [OF hok], of a] n(3) by (auto simp: heap_base_def)
    with heap_ok_frame [OF hok, of ?h] have h: "heap_ok ?h" "contents ?h = contents (lheap l)" by simp_all
    let ?l = "l\<lparr>tid_list := tn_next n, lheap := ?h\<rparr>"
    have get: "get_ID l = Some (if tn_tid n \<ge> 1000 then -1 else tn_tid n, ?l)"
      using n(1-3) by (simp add: get_ID_def free_tid_def)
    have mem: "tn_tid n \<in> {1..<thread_count l}" "tn_tid n \<notin> used" "tn_tid n \<notin> set ids'"
      using ok n(4) by (auto simp: ids_ok_def)
    have "ids_ok ?l (insert (tn_tid n) used) ids'"
      using ok n h(1) mem tid_seg_upd [OF n(6)]
      by (auto simp: ids_ok_def intro!: exI [of _ bs])
    with get h(2) mem n(4) show ?thesis
      by (intro exI [of _ "tn_tid n"] exI [of _ ?l]) auto
  qed
qed

text \<open>
  \<open>get_ID\<close> hands out an identifier that no live thread has: a recycled one if
  there is one (the one freed last), otherwise the next number; and the bookkeeping stays
  consistent. Only a number of 1000 or more is turned into -1.
\<close>

theorem get_ID_fresh:
  assumes ok: "ids_ok l used ids"
  shows "\<exists>i l'. get_ID l = Some (if i \<ge> 1000 then -1 else i, l') \<and> i \<notin> used \<and> 1 \<le> i \<and>
    i = (case ids of [] \<Rightarrow> thread_count l | j # _ \<Rightarrow> j) \<and>
    ids_ok l' (insert i used) (tl ids) \<and> threads l' = threads l \<and> contents (lheap l') = contents (lheap l)"
  by (rule get_ID_law [OF ok])

lemma free_ID_law:
  assumes ok: "ids_ok l used ids" and i: "i \<in> used" and fr: "hfree (lheap l) = a # fs"
  shows "\<exists>h. free_ID i l = Some (l\<lparr>lheap := h, tid_list := a\<rparr>) \<and>
    ids_ok (l\<lparr>lheap := h, tid_list := a\<rparr>) (used - {i}) (i # ids) \<and> heap_ok h \<and>
    hqueues h = hqueues (lheap l) \<and> contents h = contents (lheap l) \<and> hraw h = hraw (lheap l)"
proof -
  from ok obtain as where as: "distinct as" "tid_seg (htids (lheap l)) (tid_list l) ids as"
    by (auto simp: ids_ok_def)
  have hok: "heap_ok (lheap l)" using ok by (simp add: ids_ok_def)
  note b = heap_ok_base [OF hok, unfolded fr]
  let ?h = "(lheap l)\<lparr>hfree := fs, htids := (htids (lheap l))(a \<mapsto> \<lparr>tn_tid = i, tn_next = tid_list l\<rparr>)\<rparr>"
  let ?l = "l\<lparr>lheap := ?h, tid_list := a\<rparr>"
  have "heap_base ?h" using base_alloc(3) [OF b] by (simp add: heap_base_def)
  with heap_ok_frame [OF hok, of ?h] have h: "heap_ok ?h" "contents ?h = contents (lheap l)" by simp_all
  have a: "a \<noteq> NULL" "a \<notin> set as" using base_fresh [OF b] tid_seg_dom [OF as(2)] by auto
  have "ids_ok ?l (used - {i}) (i # ids)"
    using ok i h a as tid_seg_upd [OF a(2)]
    by (auto simp: ids_ok_def intro!: exI [of _ "a # as"])
  moreover have "free_ID i l = Some ?l" using fr a by (simp add: free_ID_def c_malloc_def)
  ultimately show ?thesis using h by (intro exI [of _ ?h]) simp
qed

text \<open>
  \<open>free_ID\<close> puts an identifier in use at the front of the recycled ones, so the
  next \<open>get_ID\<close> returns it; with no memory left for the list node it dereferences \<open>NULL\<close>.
\<close>

theorem free_ID_recycles:
  assumes ok: "ids_ok l used ids" and i: "i \<in> used"
  shows "(room l = 0 \<longrightarrow> free_ID i l = None) \<and>
    (0 < room l \<longrightarrow> (\<exists>l'. free_ID i l = Some l' \<and> ids_ok l' (used - {i}) (i # ids) \<and>
       (i < 1000 \<longrightarrow> (\<exists>l''. get_ID l' = Some (i, l'') \<and> ids_ok l'' used ids))))"
proof (cases "hfree (lheap l)")
  case Nil
  then show ?thesis by (simp add: free_ID_def c_malloc_def room_def)
next
  case (Cons a fs)
  from free_ID_law [OF ok i Cons] obtain l' where l': "free_ID i l = Some l'" "ids_ok l' (used - {i}) (i # ids)"
    by blast
  moreover have "\<exists>l''. get_ID l' = Some (i, l'') \<and> ids_ok l'' used ids" if "i < 1000"
  proof -
    obtain j l'' where "get_ID l' = Some (if j \<ge> 1000 then -1 else j, l'')" "j = i"
        "ids_ok l'' (insert i (used - {i})) ids"
      using get_ID_law [OF l'(2)] by auto
    with that i show ?thesis by (auto simp: insert_absorb)
  qed
  ultimately show ?thesis using Cons by (auto simp: room_def)
qed

section \<open>Mutexes\<close>

definition waiters :: "lib \<Rightarrow> addr \<Rightarrow> addr list" where
  "waiters l m = (case mutexes l m of None \<Rightarrow> [] | Some x \<Rightarrow> contents (lheap l) (m_waiting x))"

definition owner :: "lib \<Rightarrow> addr \<Rightarrow> addr" where
  "owner l m = (case mutexes l m of None \<Rightarrow> NULL | Some x \<Rightarrow> m_user x)"

text \<open>A thread struct whose level is one of the five.\<close>

definition prio_ok :: "lib \<Rightarrow> addr \<Rightarrow> bool" where
  "prio_ok l t \<longleftrightarrow> t \<noteq> NULL \<and> (case threads l t of None \<Rightarrow> False | Some x \<Rightarrow> 0 \<le> th_priority x \<and> th_priority x < 5)"

definition level_of :: "lib \<Rightarrow> addr \<Rightarrow> nat" where
  "level_of l t = (case threads l t of None \<Rightarrow> 0 | Some x \<Rightarrow> nat (th_priority x))"

definition status_of :: "lib \<Rightarrow> addr \<Rightarrow> thread_status option" where
  "status_of l t = map_option th_status (threads l t)"

text \<open>An initialised mutex: its queue exists and is not one of the ready queues.\<close>

definition mutex_ok :: "lib \<Rightarrow> addr \<Rightarrow> bool" where
  "mutex_ok l m \<longleftrightarrow> (\<exists>x. mutexes l m = Some x \<and> m_waiting x \<in> dom (hqueues (lheap l)) \<and>
     m_waiting x \<notin> set (priority_level l)) \<and> (\<forall>t \<in> set (waiters l m). prio_ok l t)"

lemma ready_frame:
  "contents h = (contents (lheap l))(q := v) \<Longrightarrow> q \<notin> set (priority_level l) \<Longrightarrow>
     ready (l\<lparr>lheap := h\<rparr>) = ready l"
  by (simp add: ready_def map_upd_notin)

lemma sched_ok_heap:
  assumes "sched_ok l" "heap_ok h" "dom (hqueues h) = dom (hqueues (lheap l))" "ready (l\<lparr>lheap := h\<rparr>) = ready l"
  shows "sched_ok (l\<lparr>lheap := h\<rparr>)"
  using assms by (simp add: sched_ok_def)

text \<open>
  Locking a free mutex: the caller becomes the owner, the call returns 0 and
  nothing else changes; the timer runs again when the call returns.
\<close>

theorem lock_free:
  assumes "mutexes l m = Some x" "m \<noteq> NULL" "m_user x = NULL" "running_thread l \<noteq> NULL"
  shows "\<exists>l1. my_pthread_mutex_lock_enter m l = Some (Go, l1) \<and>
    my_pthread_mutex_claim m l1 = Some (0, l\<lparr>cont_val := itimer l,
      mutexes := (mutexes l)(m \<mapsto> x\<lparr>m_user := running_thread l\<rparr>)\<rparr>)"
  using assms
  by (simp add: my_pthread_mutex_lock_enter_def my_pthread_mutex_claim_def setitimer_pause_def
      setitimer_cont_def upd_mutex_def Let_def)

lemma lock_contended_law:
  assumes ok: "sched_ok l" and m: "mutex_ok l m" "m \<noteq> NULL" and ow: "owner l m \<noteq> NULL" "owner l m \<noteq> running_thread l"
    and rt: "threads l (running_thread l) = Some rt" and mem: "0 < room l"
  shows "\<exists>l'. my_pthread_mutex_lock_enter m l = Some (Raise, l') \<and> sched_ok l' \<and> ready l' = ready l \<and>
    waiters l' m = waiters l m @ [running_thread l] \<and> owner l' m = owner l m \<and>
    running_thread l' = running_thread l \<and> itimer l' = itimer l \<and> Suc (room l') = room l \<and> dom (hqueues (lheap l')) = dom (hqueues (lheap l)) \<and>
    mutexes l' = mutexes l \<and> priority_level l' = priority_level l \<and>
    threads l' = (threads l)(running_thread l \<mapsto> rt\<lparr>th_status := wait_mutex\<rparr>)"
proof -
  from m obtain x where x: "mutexes l m = Some x" "m_waiting x \<in> dom (hqueues (lheap l))"
      "m_waiting x \<notin> set (priority_level l)" by (auto simp: mutex_ok_def)
  from enqueue_law [OF sched_okD(1) [OF ok] x(2), of "running_thread l"] mem obtain h where
    h: "enqueue (running_thread l) (m_waiting x) (lheap l) = Some h" "heap_ok h"
      "dom (hqueues h) = dom (hqueues (lheap l))" "Suc (length (hfree h)) = length (hfree (lheap l))"
      "contents h = (contents (lheap l))(m_waiting x := contents (lheap l) (m_waiting x) @ [running_thread l])"
    by (auto simp: room_def)
  have rd: "ready (l\<lparr>lheap := h\<rparr>) = ready l" by (rule ready_frame [OF h(5) x(3)])
  have okh: "sched_ok (l\<lparr>lheap := h\<rparr>)" by (rule sched_ok_heap [OF ok h(2,3) rd])
  let ?l' = "l\<lparr>cont_val := itimer l, lheap := h, threads := (threads l)(running_thread l \<mapsto> rt\<lparr>th_status := wait_mutex\<rparr>)\<rparr>"
  have "my_pthread_mutex_lock_enter m l = Some (Raise, ?l')"
    using x ow m(2) h(1) rt
    by (simp add: my_pthread_mutex_lock_enter_def setitimer_pause_def setitimer_cont_def enqueue_q_def
        upd_thread_def Let_def owner_def)
  moreover have "sched_ok ?l'" using okh by (simp add: sched_ok_def ready_def)
  moreover have "ready ?l' = ready l" using rd by (simp add: ready_def)
  ultimately show ?thesis
    using x h(3-5) by (intro exI [of _ ?l']) (simp add: waiters_def owner_def room_def)
qed

text \<open>
  Locking a mutex that another thread owns: the caller is appended to the mutex's
  queue with status \<open>wait_mutex\<close> and the signal is raised; the owner, the ready queues and
  the other threads stay as they are.
\<close>

theorem lock_contended:
  assumes ok: "sched_ok l" and m: "mutex_ok l m" "m \<noteq> NULL" and ow: "owner l m \<noteq> NULL" "owner l m \<noteq> running_thread l"
    and rt: "threads l (running_thread l) = Some rt" and mem: "0 < room l"
  shows "\<exists>l'. my_pthread_mutex_lock_enter m l = Some (Raise, l') \<and> sched_ok l' \<and> ready l' = ready l \<and>
    waiters l' m = waiters l m @ [running_thread l] \<and> owner l' m = owner l m \<and>
    running_thread l' = running_thread l \<and> itimer l' = itimer l \<and> Suc (room l') = room l \<and> dom (hqueues (lheap l')) = dom (hqueues (lheap l)) \<and>
    mutexes l' = mutexes l \<and> priority_level l' = priority_level l \<and>
    threads l' = (threads l)(running_thread l \<mapsto> rt\<lparr>th_status := wait_mutex\<rparr>)"
  by (rule lock_contended_law [OF assms])

text \<open>
  The two refusals of \<open>my_pthread_mutex_lock\<close>: \<open>EINVAL\<close> for a null pointer,
  \<open>EDEADLK\<close> for the thread that owns the mutex; both leave the library as it was.
\<close>

theorem lock_refused:
  "my_pthread_mutex_lock_enter NULL l = Some (Ret EINVAL, l\<lparr>cont_val := itimer l\<rparr>) \<and>
   (m \<noteq> NULL \<longrightarrow> mutexes l m = Some x \<longrightarrow> m_user x = running_thread l \<longrightarrow>
      my_pthread_mutex_lock_enter m l = Some (Ret EDEADLK, l\<lparr>cont_val := itimer l\<rparr>))"
  by (simp add: my_pthread_mutex_lock_enter_def setitimer_pause_def setitimer_cont_def Let_def)

lemma enqueue_level_of:
  assumes "sched_ok l" "0 < room l" "prio_ok l u"
  shows "\<exists>h t. threads l u = Some t \<and> enqueue_level u (th_priority t) l = Some (l\<lparr>lheap := h\<rparr>) \<and>
    sched_ok (l\<lparr>lheap := h\<rparr>) \<and> same_others l (l\<lparr>lheap := h\<rparr>) \<and> Suc (room (l\<lparr>lheap := h\<rparr>)) = room l \<and>
    ready (l\<lparr>lheap := h\<rparr>) = (ready l)[level_of l u := ready l ! level_of l u @ [u]]"
proof -
  from assms(3) obtain t where t: "threads l u = Some t" "0 \<le> th_priority t" "th_priority t < 5" "u \<noteq> NULL"
    by (auto simp: prio_ok_def split: option.splits)
  have lv: "level_of l u < 5" "int (level_of l u) = th_priority t" using t by (auto simp: level_of_def)
  from enqueue_level_law [OF assms(1) lv(1) assms(2) t(4)] t(1) lv(2) show ?thesis by auto
qed

lemma unlock_hands_over_law:
  assumes ok: "sched_ok l" and m: "mutex_ok l m" and ow: "owner l m = running_thread l"
  shows "\<exists>l'. my_pthread_mutex_unlock m l = Some (0, l') \<and> sched_ok l' \<and> room l' = room l \<and>
    running_thread l' = running_thread l \<and> itimer l' = itimer l \<and>
    dom (hqueues (lheap l')) = dom (hqueues (lheap l)) \<and> priority_level l' = priority_level l \<and>
    map_option m_waiting (mutexes l' m) = map_option m_waiting (mutexes l m) \<and>
    (case waiters l m of
       [] \<Rightarrow> owner l' m = NULL \<and> waiters l' m = [] \<and> ready l' = ready l \<and> threads l' = threads l
     | u # us \<Rightarrow> owner l' m = u \<and> waiters l' m = us \<and> status_of l' u = Some active \<and> level_of l' u = level_of l u \<and> prio_ok l' u \<and>
         ready l' = (ready l)[level_of l u := ready l ! level_of l u @ [u]] \<and>
         (\<forall>t. t \<noteq> u \<longrightarrow> threads l' t = threads l t))"
proof -
  from m obtain x where x: "mutexes l m = Some x" "m_waiting x \<in> dom (hqueues (lheap l))"
      "m_waiting x \<notin> set (priority_level l)" by (auto simp: mutex_ok_def)
  have wt: "waiters l m = contents (lheap l) (m_waiting x)" by (simp add: waiters_def x(1))
  have us: "m_user x = running_thread l" using ow x(1) by (simp add: owner_def)
  show ?thesis
  proof (cases "waiters l m")
    case Nil
    let ?l' = "l\<lparr>cont_val := itimer l, mutexes := (mutexes l)(m \<mapsto> x\<lparr>m_user := NULL\<rparr>)\<rparr>"
    have "get_next (m_waiting x) (lheap l) = Some (NULL, lheap l)"
      using ring_queue.deq_empty [OF sched_okD(1) [OF ok] x(2)] Nil wt by simp
    then have "my_pthread_mutex_unlock m l = Some (0, ?l')"
      using x(1) us by (simp add: my_pthread_mutex_unlock_def setitimer_pause_def setitimer_cont_def
          get_next_q_def upd_mutex_def Let_def)
    with ok Nil show ?thesis
      by (intro exI [of _ ?l']) (simp add: sched_ok_def ready_def room_def owner_def waiters_def x(1))
  next
    case (Cons u us')
    from get_next_law [OF sched_okD(1) [OF ok] x(2)] Cons wt obtain h where
      h: "get_next (m_waiting x) (lheap l) = Some (u, h)" "heap_ok h" "dom (hqueues h) = dom (hqueues (lheap l))"
        "length (hfree h) = Suc (length (hfree (lheap l)))"
        "contents h = (contents (lheap l))(m_waiting x := us')" by auto
    have pu: "prio_ok l u" using m Cons by (simp add: mutex_ok_def)
    then obtain tu where tu: "threads l u = Some tu" "u \<noteq> NULL" by (auto simp: prio_ok_def split: option.splits)
    define l1 where "l1 = l\<lparr>cont_val := itimer l, itimer := 0, lheap := h,
      mutexes := (mutexes l)(m \<mapsto> x\<lparr>m_user := u\<rparr>), threads := (threads l)(u \<mapsto> tu\<lparr>th_status := active\<rparr>)\<rparr>"
    have rd: "ready (l\<lparr>lheap := h\<rparr>) = ready l" by (rule ready_frame [OF h(5) x(3)])
    have rd1: "ready l1 = ready l" using rd by (simp add: l1_def ready_def)
    have ok1: "sched_ok l1"
      using sched_ok_heap [OF ok h(2,3) rd] rd1 rd by (simp add: l1_def sched_ok_def ready_def)
    have p1: "prio_ok l1 u" "level_of l1 u = level_of l u"
      using pu tu by (simp_all add: l1_def prio_ok_def level_of_def)
    have r1: "room l1 = Suc (room l)" using h(4) by (simp add: l1_def room_def)
    from enqueue_level_of [OF ok1 _ p1(1)] r1 p1(2) rd1 obtain h2 where
      h2: "enqueue_level u (th_priority tu) l1 = Some (l1\<lparr>lheap := h2\<rparr>)" "sched_ok (l1\<lparr>lheap := h2\<rparr>)"
        "same_others l1 (l1\<lparr>lheap := h2\<rparr>)" "Suc (room (l1\<lparr>lheap := h2\<rparr>)) = Suc (room l)"
        "ready (l1\<lparr>lheap := h2\<rparr>) = (ready l)[level_of l u := ready l ! level_of l u @ [u]]"
      by (auto simp: l1_def)
    let ?l' = "l1\<lparr>lheap := h2, itimer := itimer l\<rparr>"
    have "my_pthread_mutex_unlock m l = Some (0, ?l')"
      using x(1) us h(1) h2(1) tu by (simp add: my_pthread_mutex_unlock_def setitimer_pause_def
          setitimer_cont_def get_next_q_def upd_mutex_def upd_thread_def Let_def l1_def)
    moreover have "sched_ok ?l'" using h2(2) by simp
    moreover have "waiters ?l' m = us'"
      using h2(3) x(3) h(5) by (simp add: waiters_def l1_def same_others_def)
    ultimately show ?thesis
      using h2(3-5) h(3) tu Cons p1 x(1)
      by (intro exI [of _ ?l']) (simp add: owner_def l1_def status_of_def ready_def room_def same_others_def level_of_def prio_ok_def)
  qed
qed

text \<open>
  Claim C24. Unlocking hands the mutex over in FIFO order: the thread that has waited longest
  becomes the owner and is put, active again, at the back of its level; the others keep their
  order. With nobody waiting the mutex becomes free. No memory is needed, so it cannot fail.
\<close>

theorem unlock_hands_over:
  assumes ok: "sched_ok l" and m: "mutex_ok l m" and ow: "owner l m = running_thread l"
  shows "\<exists>l'. my_pthread_mutex_unlock m l = Some (0, l') \<and> sched_ok l' \<and> room l' = room l \<and>
    running_thread l' = running_thread l \<and> itimer l' = itimer l \<and>
    dom (hqueues (lheap l')) = dom (hqueues (lheap l)) \<and> priority_level l' = priority_level l \<and>
    map_option m_waiting (mutexes l' m) = map_option m_waiting (mutexes l m) \<and>
    (case waiters l m of
       [] \<Rightarrow> owner l' m = NULL \<and> waiters l' m = [] \<and> ready l' = ready l \<and> threads l' = threads l
     | u # us \<Rightarrow> owner l' m = u \<and> waiters l' m = us \<and> status_of l' u = Some active \<and> level_of l' u = level_of l u \<and> prio_ok l' u \<and>
         ready l' = (ready l)[level_of l u := ready l ! level_of l u @ [u]] \<and>
         (\<forall>t. t \<noteq> u \<longrightarrow> threads l' t = threads l t))"
  by (rule unlock_hands_over_law [OF assms])

text \<open>A thread that does not own the mutex cannot unlock it: \<open>EPERM\<close>, nothing changes.\<close>

theorem unlock_refused:
  assumes "mutexes l m = Some x" "m_user x \<noteq> running_thread l"
  shows "my_pthread_mutex_unlock m l = Some (EPERM, l\<lparr>cont_val := itimer l\<rparr>)"
  using assms by (simp add: my_pthread_mutex_unlock_def setitimer_pause_def setitimer_cont_def Let_def)

subsection \<open>Initialising a mutex\<close>

lemma scan_mem: "scan (\<lambda>y. y = x) xs < 0 \<longleftrightarrow> x \<notin> set xs"
  by (auto simp: scan_neg_iff)

lemma make_queue_lib:
  assumes "sched_ok l" "0 < room l"
  shows "\<exists>q h. make_queue (lheap l) = (q, h) \<and> q \<noteq> NULL \<and> sched_ok (l\<lparr>lheap := h\<rparr>) \<and>
    ready (l\<lparr>lheap := h\<rparr>) = ready l \<and> q \<in> dom (hqueues h) \<and> q \<notin> set (priority_level l) \<and>
    dom (hqueues (lheap l)) \<subseteq> dom (hqueues h) \<and> q \<notin> dom (hqueues (lheap l)) \<and>
    contents h = contents (lheap l) \<and> contents h q = [] \<and> Suc (room (l\<lparr>lheap := h\<rparr>)) = room l"
proof -
  obtain a as where fr: "hfree (lheap l) = a # as" using assms(2) by (cases "hfree (lheap l)") (auto simp: room_def)
  from make_queue_law [OF sched_okD(1) [OF assms(1)] fr] obtain h where
    h: "make_queue (lheap l) = (a, h)" "a \<noteq> NULL" "heap_ok h" "hfree h = as"
      "dom (hqueues h) = insert a (dom (hqueues (lheap l)))" "a \<notin> dom (hqueues (lheap l))"
      "contents h = contents (lheap l)" by blast
  have "sched_ok (l\<lparr>lheap := h\<rparr>)" using assms(1) h(3,5,7) by (auto simp: sched_ok_def ready_def)
  moreover have "a \<notin> set (priority_level l)" using sched_okD(4) [OF assms(1)] h(6) by blast
  ultimately show ?thesis
    using h contents_outside [OF h(6)] fr by (auto simp: ready_def room_def)
qed

text \<open>
  Initialising a mutex that is not in use, with memory and a free slot: it becomes
  a well-formed free mutex with an empty queue and is entered in the first free slot of the
  list of active mutexes; the ready queues and the threads are untouched.
\<close>

theorem mutex_init_ok:
  assumes ok: "sched_ok l" and mem: "0 < room l" and x: "mutexes l m = Some x"
    and new: "m \<notin> set (mutex_list l)" and slot: "NULL \<in> set (mutex_list l)"
  shows "\<exists>l' i. my_pthread_mutex_init m a l = Some (0, l') \<and> sched_ok l' \<and> mutex_ok l' m \<and>
    owner l' m = NULL \<and> waiters l' m = [] \<and> ready l' = ready l \<and> threads l' = threads l \<and>
    i < length (mutex_list l) \<and> mutex_list l ! i = NULL \<and> (\<forall>j < i. mutex_list l ! j \<noteq> NULL) \<and>
    mutex_list l' = (mutex_list l)[i := m]"
proof -
  from make_queue_lib [OF ok mem] obtain q h where
    h: "make_queue (lheap l) = (q, h)" "q \<noteq> NULL" "sched_ok (l\<lparr>lheap := h\<rparr>)" "ready (l\<lparr>lheap := h\<rparr>) = ready l"
      "q \<in> dom (hqueues h)" "q \<notin> set (priority_level l)" "contents h q = []" by blast
  have "\<not> scan (\<lambda>y. y = NULL) (mutex_list l) < 0" using slot by (simp add: scan_mem)
  then obtain i where i: "scan (\<lambda>y. y = NULL) (mutex_list l) = int i" "i < length (mutex_list l)"
      "mutex_list l ! i = NULL" "\<forall>j < i. mutex_list l ! j \<noteq> NULL"
    by (cases rule: scan_cases [of "\<lambda>y. y = NULL" "mutex_list l"]) auto
  have "\<not> scan (\<lambda>y. y = m) (mutex_list l) \<ge> 0" using new scan_mem [of m "mutex_list l"] by linarith
  let ?l' = "l\<lparr>lheap := h, mutexes := (mutexes l)(m \<mapsto> x\<lparr>m_waiting := q, m_user := NULL\<rparr>),
    mutex_list := (mutex_list l)[i := m]\<rparr>"
  have "my_pthread_mutex_init m a l = Some (0, ?l')"
    using h(1,2) x i \<open>\<not> scan (\<lambda>y. y = m) (mutex_list l) \<ge> 0\<close>
    by (simp add: my_pthread_mutex_init_def upd_mutex_def Let_def)
  moreover have "sched_ok ?l'" "ready ?l' = ready l" using h(3,4) by (simp_all add: sched_ok_def ready_def)
  ultimately show ?thesis
    using h(5-7) i by (intro exI [of _ ?l'] exI [of _ i]) (simp add: mutex_ok_def waiters_def owner_def)
qed

text \<open>
  Initialising a mutex that is already active returns \<open>EBUSY\<close>, but only after its
  queue has been replaced by a new empty one: the threads that wait for it are in no queue of
  the mutex any more, while the mutex keeps its owner.
\<close>

theorem mutex_init_busy_loses_waiters:
  assumes ok: "sched_ok l" and mem: "0 < room l" and x: "mutexes l m = Some x" and act: "m \<in> set (mutex_list l)"
  shows "\<exists>l'. my_pthread_mutex_init m a l = Some (EBUSY, l') \<and> waiters l' m = [] \<and>
    owner l' m = owner l m \<and> ready l' = ready l \<and> threads l' = threads l"
proof -
  from make_queue_lib [OF ok mem] obtain q h where
    h: "make_queue (lheap l) = (q, h)" "q \<noteq> NULL" "ready (l\<lparr>lheap := h\<rparr>) = ready l" "contents h q = []" by blast
  have "scan (\<lambda>y. y = m) (mutex_list l) \<ge> 0" using act scan_mem [of m "mutex_list l"] by linarith
  then have "my_pthread_mutex_init m a l =
      Some (EBUSY, l\<lparr>lheap := h, mutexes := (mutexes l)(m \<mapsto> x\<lparr>m_waiting := q\<rparr>)\<rparr>)"
    using h(1,2) x by (simp add: my_pthread_mutex_init_def upd_mutex_def Let_def)
  with h(3,4) x show ?thesis by (simp add: waiters_def owner_def ready_def)
qed

subsection \<open>Destroying a mutex\<close>

lemma destroy_errors:
  assumes "m \<notin> set (mutex_list l) \<or> (\<exists>x. mutexes l m = Some x \<and> m_user x \<noteq> NULL)"
  shows "my_pthread_mutex_destroy m l = Some (if m \<notin> set (mutex_list l) then EINVAL else EBUSY, l\<lparr>cont_val := itimer l, itimer := 0\<rparr>)"
  using assms
  by (auto simp: my_pthread_mutex_destroy_def setitimer_pause_def scan_mem Let_def)

text \<open>Releasing the waiters one after the other to their levels.\<close>

definition release :: "lib \<Rightarrow> addr list \<Rightarrow> addr list list \<Rightarrow> addr list list" where
  "release l ws rs = fold (\<lambda>u rs. rs[level_of l u := rs ! level_of l u @ [u]]) ws rs"

lemma release_cong:
  assumes "\<And>u. u \<in> set ws \<Longrightarrow> level_of l' u = level_of l u"
  shows "release l' ws rs = release l ws rs"
  unfolding release_def by (rule fold_cong) (use assms in auto)

lemma drain_loop_law:
  assumes "sched_ok l" "q \<in> dom (hqueues (lheap l))" "q \<notin> set (priority_level l)"
    and "contents (lheap l) q = ws" "\<forall>u \<in> set ws. prio_ok l u"
  shows "\<exists>h ts. drain_loop q l = Some (l\<lparr>lheap := h, threads := ts\<rparr>) \<and> sched_ok (l\<lparr>lheap := h\<rparr>) \<and>
    contents h q = [] \<and> q \<in> dom (hqueues h) \<and> ready (l\<lparr>lheap := h\<rparr>) = release l ws (ready l) \<and>
    (\<forall>u \<in> set ws. map_option th_status (ts u) = Some active) \<and> (\<forall>u. u \<notin> set ws \<longrightarrow> ts u = threads l u)"
  using assms
proof (induction ws arbitrary: l)
  case Nil
  have "queue_ok (lheap l) q (qnodes (lheap l) q)"
    using heap_repD(2) sched_okD(1) [OF Nil(1)] Nil(2) by (simp add: heap_ok_def)
  moreover have "qnodes (lheap l) q = []" using Nil(4) by (simp add: contents_map)
  ultimately have "drain_loop q l = Some l"
    by (subst drain_loop.simps) (auto simp: queue_ok_def)
  with Nil show ?case
    by (intro exI [of _ "lheap l"] exI [of _ "threads l"]) (simp add: release_def)
next
  case (Cons u ws)
  have "queue_ok (lheap l) q (qnodes (lheap l) q)"
    using heap_repD(2) sched_okD(1) [OF Cons.prems(1)] Cons.prems(2) by (simp add: heap_ok_def)
  moreover have "length (qnodes (lheap l) q) = Suc (length ws)"
    using Cons.prems(4) by (metis contents_map length_Cons length_map)
  ultimately obtain qs where qs: "hqueues (lheap l) q = Some qs" "q_size qs \<noteq> 0"
    by (auto simp: queue_ok_def)
  from get_next_law [OF sched_okD(1) [OF Cons.prems(1)] Cons.prems(2,4)] obtain h where
    h: "get_next q (lheap l) = Some (u, h)" "heap_ok h" "dom (hqueues h) = dom (hqueues (lheap l))"
      "length (hfree h) = Suc (length (hfree (lheap l)))" "contents h = (contents (lheap l))(q := ws)" by blast
  have pu: "prio_ok l u" using Cons.prems(5) by simp
  then obtain tu where tu: "threads l u = Some tu" by (auto simp: prio_ok_def split: option.splits)
  define l1 where "l1 = l\<lparr>lheap := h, threads := (threads l)(u \<mapsto> tu\<lparr>th_status := active\<rparr>)\<rparr>"
  have rd: "ready (l\<lparr>lheap := h\<rparr>) = ready l" by (rule ready_frame [OF h(5) Cons.prems(3)])
  have ok1: "sched_ok l1" "ready l1 = ready l" "0 < room l1"
    using sched_ok_heap [OF Cons.prems(1) h(2,3) rd] rd h(4)
    by (simp_all add: l1_def sched_ok_def ready_def room_def)
  have lv: "level_of l1 v = level_of l v" "prio_ok l v \<Longrightarrow> prio_ok l1 v" for v
    using tu by (auto simp: l1_def prio_ok_def level_of_def)
  from enqueue_level_of [OF ok1(1,3) lv(2) [OF pu]] ok1(2) lv(1) obtain h2 where
    h2: "enqueue_level u (th_priority tu) l1 = Some (l1\<lparr>lheap := h2\<rparr>)" "sched_ok (l1\<lparr>lheap := h2\<rparr>)"
      "same_others l1 (l1\<lparr>lheap := h2\<rparr>)"
      "ready (l1\<lparr>lheap := h2\<rparr>) = (ready l)[level_of l u := ready l ! level_of l u @ [u]]"
    by (auto simp: l1_def)
  let ?l2 = "l1\<lparr>lheap := h2\<rparr>"
  have step: "drain_loop q l = drain_loop q ?l2"
    using qs h(1) tu h2(1)
    by (subst drain_loop.simps) (simp add: get_next_q_def upd_thread_def l1_def)
  have "\<exists>h' ts. drain_loop q ?l2 = Some (?l2\<lparr>lheap := h', threads := ts\<rparr>) \<and> sched_ok (?l2\<lparr>lheap := h'\<rparr>) \<and>
    contents h' q = [] \<and> q \<in> dom (hqueues h') \<and> ready (?l2\<lparr>lheap := h'\<rparr>) = release ?l2 ws (ready ?l2) \<and>
    (\<forall>v \<in> set ws. map_option th_status (ts v) = Some active) \<and> (\<forall>v. v \<notin> set ws \<longrightarrow> ts v = threads ?l2 v)"
  proof (rule Cons.IH)
    show "contents (lheap ?l2) q = ws" using h2(3) h(5) Cons.prems(3) by (simp add: same_others_def l1_def)
    show "q \<in> dom (hqueues (lheap ?l2))" using h2(3) h(3) Cons.prems(2) by (simp add: same_others_def l1_def)
    show "\<forall>v \<in> set ws. prio_ok ?l2 v" using Cons.prems(5) lv(2) by (auto simp: prio_ok_def)
  qed (use h2(2) Cons.prems(3) in \<open>simp_all add: l1_def\<close>)
  then obtain h' ts where r: "drain_loop q ?l2 = Some (?l2\<lparr>lheap := h', threads := ts\<rparr>)"
    "sched_ok (?l2\<lparr>lheap := h'\<rparr>)" "contents h' q = []" "q \<in> dom (hqueues h')"
    "ready (?l2\<lparr>lheap := h'\<rparr>) = release ?l2 ws (ready ?l2)"
    "\<forall>v \<in> set ws. map_option th_status (ts v) = Some active" "\<forall>v. v \<notin> set ws \<longrightarrow> ts v = threads ?l2 v" by blast
  have "release ?l2 ws (ready ?l2) = release l (u # ws) (ready l)"
    using release_cong [of ws ?l2 l] lv(1) h2(4) by (simp add: release_def level_of_def)
  moreover have "map_option th_status (ts v) = Some active" if "v \<in> set (u # ws)" for v
    using that r(6,7) by (cases "v \<in> set ws") (auto simp: l1_def)
  moreover have "sched_ok (l\<lparr>lheap := h'\<rparr>)" using r(2) by (simp add: l1_def sched_ok_def ready_def)
  moreover have "ready (l\<lparr>lheap := h'\<rparr>) = ready (?l2\<lparr>lheap := h'\<rparr>)" by (simp add: l1_def ready_def)
  moreover have "drain_loop q l = Some (l\<lparr>lheap := h', threads := ts\<rparr>)" using step r(1) by (simp add: l1_def)
  moreover have "ts v = threads l v" if "v \<notin> set (u # ws)" for v using r(7) that by (simp add: l1_def)
  ultimately show ?case
    using r(3,4,5) by (intro exI [of _ h'] exI [of _ ts]) simp
qed

lemma destroy_releases:
  assumes ok: "sched_ok l" and m: "mutex_ok l m" and ow: "owner l m = NULL" and act: "m \<in> set (mutex_list l)"
  shows "\<exists>l' x. my_pthread_mutex_destroy m l = Some (0, l') \<and> mutexes l m = Some x \<and>
    ready l' = release l (waiters l m) (ready l) \<and> m_waiting x \<notin> dom (hqueues (lheap l')) \<and>
    (\<forall>u \<in> set (waiters l m). status_of l' u = Some active) \<and> itimer l' = itimer l \<and>
    mutex_list l' = mutex_list l \<and> (\<exists>l''. my_pthread_mutex_init m a l' = Some (EBUSY, l''))"
proof -
  from m obtain x where x: "mutexes l m = Some x" "m_waiting x \<in> dom (hqueues (lheap l))"
      "m_waiting x \<notin> set (priority_level l)" by (auto simp: mutex_ok_def)
  let ?q = "m_waiting x"
  let ?l0 = "l\<lparr>cont_val := itimer l, itimer := 0\<rparr>"
  have wt: "contents (lheap ?l0) ?q = waiters l m" by (simp add: waiters_def x(1))
  obtain h ts where d: "drain_loop ?q ?l0 = Some (?l0\<lparr>lheap := h, threads := ts\<rparr>)" "sched_ok (?l0\<lparr>lheap := h\<rparr>)"
      "contents h ?q = []" "?q \<in> dom (hqueues h)" "ready (?l0\<lparr>lheap := h\<rparr>) = release ?l0 (waiters l m) (ready ?l0)"
      "\<forall>u \<in> set (waiters l m). map_option th_status (ts u) = Some active"
    using drain_loop_law [of ?l0 ?q, OF _ _ _ wt] ok x m by (auto simp: mutex_ok_def prio_ok_def)
  have "heap_ok h" using sched_okD(1) [OF d(2)] by simp
  from free_queue_law [OF this d(4,3)] obtain h2 where
    h2: "free_queue ?q h = Some h2" "dom (hqueues h2) = dom (hqueues h) - {?q}" "contents h2 = contents h"
      "hfree h2 = ?q # hfree h" by blast
  let ?l' = "l\<lparr>cont_val := itimer l, lheap := h2, threads := ts, mutexes := (mutexes l)(m \<mapsto> x\<lparr>m_user := NULL\<rparr>)\<rparr>"
  have "scan (\<lambda>y. y = m) (mutex_list l) \<ge> 0" using act scan_mem [of m "mutex_list l"] by linarith
  then have ev: "my_pthread_mutex_destroy m l = Some (0, ?l')"
    using x(1) ow d(1) h2(1)
    by (simp add: my_pthread_mutex_destroy_def setitimer_pause_def setitimer_cont_def upd_mutex_def owner_def Let_def)
  have "release ?l0 (waiters l m) (ready ?l0) = release l (waiters l m) (ready l)"
    using release_cong [of "waiters l m" ?l0 l] by (simp add: level_of_def)
  then have "ready ?l' = release l (waiters l m) (ready l)"
    using d(5) h2(3) by (simp add: ready_def)
  moreover have "\<exists>l''. my_pthread_mutex_init m a ?l' = Some (EBUSY, l'')"
  proof -
    have "make_queue h2 = (?q, snd (make_queue h2))" "?q \<noteq> NULL"
      using h2(4) base_fresh heap_ok_base [OF sched_okD(1) [OF ok]] x(2)
      by (auto simp: make_queue_def c_malloc_def base_def)
    with \<open>scan (\<lambda>y. y = m) (mutex_list l) \<ge> 0\<close> show ?thesis
      by (cases "make_queue h2") (simp add: my_pthread_mutex_init_def upd_mutex_def Let_def)
  qed
  ultimately show ?thesis
    using ev x(1) d(6) h2(2) by (intro exI [of _ ?l'] exI [of _ x]) (simp add: status_of_def)
qed

text \<open>
  Claim C29. Destroying a mutex, on every branch. One that is not in the list of active mutexes and one with
  an owner are refused, and both returns leave the interval timer stopped, as it was paused on entry. Otherwise the call
  returns 0, releases every waiting thread, in FIFO order and active again, to its level, frees the mutex's queue and resumes
  the timer. The mutex is still in the list of active mutexes afterwards (line 525 compares
  instead of assigning), so initialising it again is refused with \<open>EBUSY\<close>.
\<close>

theorem destroy_decides:
  assumes ok: "sched_ok l" and m: "mutex_ok l m"
  shows "if m \<notin> set (mutex_list l) then my_pthread_mutex_destroy m l = Some (EINVAL, l\<lparr>cont_val := itimer l, itimer := 0\<rparr>)
    else if owner l m \<noteq> NULL then my_pthread_mutex_destroy m l = Some (EBUSY, l\<lparr>cont_val := itimer l, itimer := 0\<rparr>)
    else \<exists>l' x. my_pthread_mutex_destroy m l = Some (0, l') \<and> mutexes l m = Some x \<and>
      ready l' = release l (waiters l m) (ready l) \<and> m_waiting x \<notin> dom (hqueues (lheap l')) \<and>
      (\<forall>u \<in> set (waiters l m). status_of l' u = Some active) \<and> itimer l' = itimer l \<and>
      mutex_list l' = mutex_list l \<and> (\<exists>l''. my_pthread_mutex_init m a l' = Some (EBUSY, l''))"
proof -
  from m obtain x where "mutexes l m = Some x" by (auto simp: mutex_ok_def)
  then have "owner l m \<noteq> NULL \<Longrightarrow> \<exists>x. mutexes l m = Some x \<and> m_user x \<noteq> NULL" by (simp add: owner_def)
  then show ?thesis using destroy_errors [of m l] destroy_releases [OF ok m, of a] by auto
qed

section \<open>Creating a thread\<close>

lemma sched_ok_frame:
  assumes "sched_ok l" "heap_ok h" "dom (hqueues h) = dom (hqueues (lheap l))" "contents h = contents (lheap l)"
  shows "sched_ok (l\<lparr>lheap := h\<rparr>)" "ready (l\<lparr>lheap := h\<rparr>) = ready l"
  using assms by (simp_all add: sched_ok_def ready_def)

lemma get_ID_frame:
  assumes "get_ID l = Some (i, l')" "heap_ok (lheap l)"
  shows "\<exists>h tl tc. l' = l\<lparr>lheap := h, tid_list := tl, thread_count := tc\<rparr> \<and> hqueues h = hqueues (lheap l) \<and>
    hnodes h = hnodes (lheap l) \<and> length (hfree h) \<ge> length (hfree (lheap l)) \<and> hraw h = hraw (lheap l)"
proof (cases "tid_list l = NULL")
  case True
  then have "l' = l\<lparr>lheap := lheap l, tid_list := tid_list l, thread_count := thread_count l + 1\<rparr>"
    using assms(1) by (auto simp: get_ID_def)
  then show ?thesis by blast
next
  case False
  with assms(1) obtain n h where n: "htids (lheap l) (tid_list l) = Some n" "free_tid (tid_list l) (lheap l) = Some h"
      "l' = l\<lparr>tid_list := tn_next n, lheap := h\<rparr>"
    by (auto simp: get_ID_def Let_def bind_eq_Some_conv)
  then have "l' = l\<lparr>lheap := h, tid_list := tn_next n, thread_count := thread_count l\<rparr>" by simp
  moreover have "hqueues h = hqueues (lheap l)" "hnodes h = hnodes (lheap l)"
      "length (hfree h) \<ge> length (hfree (lheap l))" "hraw h = hraw (lheap l)"
    using n(2) by (auto simp: free_tid_def split: option.splits if_splits)
  ultimately show ?thesis by blast
qed

text \<open>The call up to the tables: the stack and the identifier are there and the struct is filled.\<close>

lemma create_prepares:
  assumes ini: "init l" and gc: "gc_thread e" and ok: "sched_ok l" and ids: "ids_ok l used ids"
    and t: "threads l t = Some t0" and mem: "2 \<le> room l" and lim: "(case ids of [] \<Rightarrow> thread_count l | j # _ \<Rightarrow> j) < 1000"
  shows "\<exists>l4 i sp. my_pthread_create e t a l = do {
       tt \<leftarrow> arr_set (thread_table l4) i t;
       wt \<leftarrow> arr_set (waiting l4) i NULL;
       dn \<leftarrow> arr_set (done_flag l4) i 0;
       l \<leftarrow> enqueue_level t 0 (l4\<lparr>thread_table := tt, waiting := wt, done_flag := dn\<rparr>);
       l \<leftarrow> upd_thread t (\<lambda>t. t\<lparr>th_status := active\<rparr>) l;
       Some (0, setitimer_cont l) } \<and>
    i \<notin> used \<and> 1 \<le> i \<and> i < 1000 \<and> ids_ok l4 (insert i used) (tl ids) \<and> sched_ok l4 \<and> ready l4 = ready l \<and> 0 < room l4 \<and>
    threads l4 = (threads l)(t \<mapsto> \<lparr>th_id = i, th_priority = 0, intervals_run = 0, wait_id = -1, th_status = th_status t0, th_ret = NULL, ss_sp = sp\<rparr>) \<and>
    thread_table l4 = thread_table l \<and> waiting l4 = waiting l \<and> done_flag l4 = done_flag l \<and>
    running_thread l4 = running_thread l \<and> cont_val l4 = itimer l"
proof -
  obtain sp fs where fr: "hfree (lheap l) = sp # fs" "1 \<le> length fs"
    using mem by (cases "hfree (lheap l)") (auto simp: room_def)
  define l1 where "l1 = setitimer_pause l"
  have l1: "heap_ok (lheap l1)" "hfree (lheap l1) = sp # fs" "sched_ok l1" "ready l1 = ready l"
    using sched_okD(1) [OF ok] fr ok by (simp_all add: l1_def setitimer_pause_def)
  from malloc_raw_law [OF l1(1,2), of 8000] obtain h where
    h: "malloc_raw 8000 l1 = (sp, l1\<lparr>lheap := h\<rparr>)" "sp \<noteq> NULL" "heap_ok h" "hfree h = fs"
      "hqueues h = hqueues (lheap l1)" "contents h = contents (lheap l1)" "htids h = htids (lheap l1)" by blast
  define l2 where "l2 = l1\<lparr>lheap := h, threads := (threads l)(t \<mapsto> t0\<lparr>ss_sp := sp\<rparr>)\<rparr>"
  have u2: "upd_thread t (\<lambda>t. t\<lparr>ss_sp := sp\<rparr>) (l1\<lparr>lheap := h\<rparr>) = Some l2"
    using t by (simp add: upd_thread_def l2_def l1_def setitimer_pause_def)
  have ids2: "ids_ok l2 used ids"
    using ids h(3,7) by (simp add: ids_ok_def l2_def l1_def setitimer_pause_def)
  from get_ID_law [OF ids2] obtain i l3 where
    g: "get_ID l2 = Some (if i \<ge> 1000 then -1 else i, l3)" "i \<notin> used" "1 \<le> i"
      "i = (case ids of [] \<Rightarrow> thread_count l2 | j # _ \<Rightarrow> j)" "ids_ok l3 (insert i used) (tl ids)"
      "contents (lheap l3) = contents (lheap l2)" by blast
  have "thread_count l2 = thread_count l" by (simp add: l2_def l1_def setitimer_pause_def)
  with lim g(4) have i: "i < 1000" by (simp split: list.splits)
  have ok2: "heap_ok (lheap l2)" using h(3) by (simp add: l2_def)
  from get_ID_frame [OF g(1) ok2] obtain h3 tl3 tc3 where
    l3: "l3 = l2\<lparr>lheap := h3, tid_list := tl3, thread_count := tc3\<rparr>" "hqueues h3 = hqueues h"
      "length fs \<le> length (hfree h3)" using h(4) by (auto simp: l2_def)
  let ?th = "\<lparr>th_id = i, th_priority = 0, intervals_run = 0, wait_id = -1, th_status = th_status t0, th_ret = NULL, ss_sp = sp\<rparr>"
  define l4 where "l4 = l3\<lparr>threads := (threads l)(t \<mapsto> ?th)\<rparr>"
  have u4: "upd_thread t (\<lambda>t. t\<lparr>th_id := i, wait_id := -1, th_priority := 0, intervals_run := 0,
      th_ret := NULL\<rparr>) l3 = Some l4"
    by (cases t0) (simp add: upd_thread_def l4_def l3(1) l2_def)
  have c3: "contents h3 = contents (lheap l)"
    using g(6) h(6) l3(1) by (simp add: l2_def l1_def setitimer_pause_def)
  have q: "dom (hqueues h3) = dom (hqueues (lheap l))" "heap_ok h3"
    using l3(1,2) h(5) g(5) by (simp_all add: l1_def setitimer_pause_def ids_ok_def)
  have rd: "ready l4 = ready l" by (simp add: l4_def l3(1) l2_def l1_def setitimer_pause_def ready_def c3)
  have "sched_ok l4" using q ok rd by (simp add: sched_ok_def l4_def l3(1) l2_def l1_def setitimer_pause_def)
  moreover have "0 < length (hfree h3)" using l3(3) fr(2) by linarith
  then have "0 < room l4" by (simp add: room_def l4_def l3(1))
  moreover have "ids_ok l4 (insert i used) (tl ids)" using g(5) by (simp add: ids_ok_def l4_def l3(1))
  moreover have "my_pthread_create e t a l = do {
       tt \<leftarrow> arr_set (thread_table l4) i t;
       wt \<leftarrow> arr_set (waiting l4) i NULL;
       dn \<leftarrow> arr_set (done_flag l4) i 0;
       l \<leftarrow> enqueue_level t 0 (l4\<lparr>thread_table := tt, waiting := wt, done_flag := dn\<rparr>);
       l \<leftarrow> upd_thread t (\<lambda>t. t\<lparr>th_status := active\<rparr>) l;
       Some (0, setitimer_cont l) }"
    using ini gc h(1,2) u2 g(1) i u4 by (simp add: my_pthread_create_def l1_def [symmetric])
  ultimately show ?thesis
    using g(2,3) i rd by (intro exI [of _ l4] exI [of _ i] exI [of _ sp]) (simp add: l4_def l3(1) l2_def l1_def setitimer_pause_def)
qed

text \<open>
  Claim C25. A successful \<open>my_pthread_create\<close>: the new thread gets an identifier no live
  thread has, is active at the top level, is appended to that level's queue and entered in the
  thread table with no waiter and not finished; no other thread changes.
\<close>

theorem create_ok:
  assumes ini: "init l" and gc: "gc_thread e" and ok: "sched_ok l" and ids: "ids_ok l used ids"
    and t: "threads l t = Some t0" "t \<noteq> NULL" and mem: "2 \<le> room l"
    and lim: "(case ids of [] \<Rightarrow> thread_count l | j # _ \<Rightarrow> j) < 1000"
    and len: "length (thread_table l) = 1000" "length (waiting l) = 1000" "length (done_flag l) = 1000"
  shows "\<exists>l' i. my_pthread_create e t a l = Some (0, l') \<and> i \<notin> used \<and> 1 \<le> i \<and> i < 1000 \<and>
    sched_ok l' \<and> ids_ok l' (insert i used) (tl ids) \<and>
    (\<exists>sp. threads l' = (threads l)(t \<mapsto> \<lparr>th_id = i, th_priority = 0, intervals_run = 0, wait_id = -1,
       th_status = active, th_ret = NULL, ss_sp = sp\<rparr>)) \<and>
    ready l' = (ready l)[0 := ready l ! 0 @ [t]] \<and> thread_table l' = (thread_table l)[nat i := t] \<and>
    waiting l' = (waiting l)[nat i := NULL] \<and> done_flag l' = (done_flag l)[nat i := 0] \<and>
    running_thread l' = running_thread l \<and> itimer l' = itimer l"
proof -
  from create_prepares [OF ini gc ok ids t(1) mem lim, of a] obtain l4 i sp where
    run: "my_pthread_create e t a l = do {
       tt \<leftarrow> arr_set (thread_table l4) i t;
       wt \<leftarrow> arr_set (waiting l4) i NULL;
       dn \<leftarrow> arr_set (done_flag l4) i 0;
       l \<leftarrow> enqueue_level t 0 (l4\<lparr>thread_table := tt, waiting := wt, done_flag := dn\<rparr>);
       l \<leftarrow> upd_thread t (\<lambda>t. t\<lparr>th_status := active\<rparr>) l;
       Some (0, setitimer_cont l) }"
    and i: "i \<notin> used" "1 \<le> i" "i < 1000" and l4: "ids_ok l4 (insert i used) (tl ids)" "sched_ok l4" "ready l4 = ready l" "0 < room l4"
      "threads l4 = (threads l)(t \<mapsto> \<lparr>th_id = i, th_priority = 0, intervals_run = 0, wait_id = -1, th_status = th_status t0, th_ret = NULL, ss_sp = sp\<rparr>)" "thread_table l4 = thread_table l" "waiting l4 = waiting l" "done_flag l4 = done_flag l"
      "running_thread l4 = running_thread l" "cont_val l4 = itimer l"
    by (elim exE conjE) rule
  define l5 where "l5 = l4\<lparr>thread_table := (thread_table l)[nat i := t], waiting := (waiting l)[nat i := NULL],
    done_flag := (done_flag l)[nat i := 0]\<rparr>"
  have same: "sched_ok l5 = sched_ok l4" "ready l5 = ready l4" "room l5 = room l4"
    by (simp_all add: l5_def sched_ok_def ready_def room_def)
  with l4(2-4) have l5: "sched_ok l5" "ready l5 = ready l" "0 < room l5" by simp_all
  with enqueue_level_law [OF l5(1), of 0 t] t(2) obtain h6 where
    h6: "enqueue_level t 0 l5 = Some (l5\<lparr>lheap := h6\<rparr>)" "sched_ok (l5\<lparr>lheap := h6\<rparr>)"
      "same_others l5 (l5\<lparr>lheap := h6\<rparr>)" "ready (l5\<lparr>lheap := h6\<rparr>) = (ready l)[0 := ready l ! 0 @ [t]]" by auto
  define l' where "l' = l5\<lparr>lheap := h6, threads := (threads l)(t \<mapsto> \<lparr>th_id = i, th_priority = 0, intervals_run = 0, wait_id = -1, th_status = th_status t0, th_ret = NULL, ss_sp = sp\<rparr>\<lparr>th_status := active\<rparr>), itimer := itimer l\<rparr>"
  have "arr_set (thread_table l4) i t = Some ((thread_table l)[nat i := t])" "arr_set (waiting l4) i 0 = Some ((waiting l)[nat i := 0])"
      "arr_set (done_flag l4) i 0 = Some ((done_flag l)[nat i := 0])"
    using l4(6-8) len i by (simp_all add: arr_set_in)
  then have "my_pthread_create e t a l = Some (0, l')"
    using run h6(1) l4(5,10) by (simp add: l5_def [symmetric] setitimer_cont_def upd_thread_def) (simp add: l'_def l5_def l4(5))
  moreover have "ids_ok l' (insert i used) (tl ids)"
    using l4(1) h6(2,3) by (simp add: ids_ok_def sched_ok_def same_others_def l'_def l5_def)
  moreover have "sched_ok l' = sched_ok (l5\<lparr>lheap := h6\<rparr>)" "ready l' = ready (l5\<lparr>lheap := h6\<rparr>)"
    by (simp_all add: l'_def sched_ok_def ready_def)
  then have "sched_ok l'" "ready l' = (ready l)[0 := ready l ! 0 @ [t]]" using h6(2,4) by simp_all
  ultimately show ?thesis
    using i l4(9) by (intro exI [of _ l'] exI [of _ i]) (auto simp: l'_def l5_def)
qed

text \<open>
  When all 999 identifiers are in use \<open>my_pthread_create\<close> does not report an
  error: \<open>get_ID\<close> returns -1 and the call stores through \<open>thread_table[-1]\<close>.
\<close>

theorem create_overflow:
  assumes ini: "init l" and gc: "gc_thread e" and ids: "ids_ok l used []" "1000 \<le> thread_count l"
    and t: "threads l t = Some t0" and mem: "1 \<le> room l"
  shows "my_pthread_create e t a l = None"
proof -
  obtain sp fs where fr: "hfree (lheap l) = sp # fs" using mem by (cases "hfree (lheap l)") (auto simp: room_def)
  have "heap_ok (lheap l)" using ids(1) by (simp add: ids_ok_def)
  from heap_ok_base [OF this] fr have sp: "sp \<noteq> NULL" using base_fresh by auto
  have "tid_list l = NULL"
    using ids(1) by (auto simp: ids_ok_def) (metis list.exhaust list.simps(3) tid_seg.simps)
  then show ?thesis
    using ini gc t fr sp ids(2)
    by (simp add: my_pthread_create_def setitimer_pause_def malloc_raw_def c_malloc_def upd_thread_def
        get_ID_def arr_set_def Let_def)
qed

end
