(* ===== verification/Thread_System.thy ===== *)
theory Thread_System
  imports Thread_Calls
begin

text \<open>
  Threads that share a mutex, as a transition system over the library of asst1: at any moment the
  timer may interrupt the running thread, or it yields, locks or unlocks. A call of
  \<open>my_pthread_mutex_lock\<close> that blocks is two steps, the call up to the signal and, when the thread runs again,
  the rest. \<open>pend\<close> are the threads inside such a call, \<open>held\<close> the threads whose last call of lock returned 0
  and that have not unlocked since; both are bookkeeping and no code reads them. The timer cannot interrupt a call
  between its \<open>setitimer_pause\<close> and its \<open>setitimer_cont\<close>; a timer signal just before the signal a blocking call
  raises is the step \<open>lock_wait\<close>, and the raised one then a \<open>tick\<close> when the thread runs again.
\<close>

section \<open>The transition system\<close>

record sys =
  slib :: lib
  pend :: "addr set"
  held :: "addr set"

abbreviation current :: "sys \<Rightarrow> addr" where "current s \<equiv> running_thread (slib s)"

inductive step :: "addr \<Rightarrow> sys \<Rightarrow> sys \<Rightarrow> bool" for m :: addr where
  tick: "scheduler_alarm_handler (slib s) = Some l \<Longrightarrow> step m s (s\<lparr>slib := l\<rparr>)"
| yield: "current s \<notin> pend s \<Longrightarrow> my_pthread_yield (slib s) = Some l \<Longrightarrow> step m s (s\<lparr>slib := l\<rparr>)"
| lock_now: "current s \<notin> pend s \<Longrightarrow> my_pthread_mutex_lock_enter m (slib s) = Some (Go, l) \<Longrightarrow>
    my_pthread_mutex_claim m l = Some (c, l') \<Longrightarrow> step m s (s\<lparr>slib := l', held := insert (current s) (held s)\<rparr>)"
| lock_own: "current s \<notin> pend s \<Longrightarrow> my_pthread_mutex_lock_enter m (slib s) = Some (Ret c, l) \<Longrightarrow> step m s (s\<lparr>slib := l\<rparr>)"
| lock_wait: "current s \<notin> pend s \<Longrightarrow> my_pthread_mutex_lock_enter m (slib s) = Some (Raise, l) \<Longrightarrow>
    scheduler_alarm_handler l = Some l' \<Longrightarrow> step m s (s\<lparr>slib := l', pend := insert (current s) (pend s)\<rparr>)"
| lock_done: "current s \<in> pend s \<Longrightarrow> my_pthread_mutex_claim m (slib s) = Some (c, l) \<Longrightarrow>
    step m s (s\<lparr>slib := l, pend := pend s - {current s}, held := insert (current s) (held s)\<rparr>)"
| unlock: "current s \<notin> pend s \<Longrightarrow> my_pthread_mutex_unlock m (slib s) = Some (c, l) \<Longrightarrow>
    step m s (s\<lparr>slib := l, held := (if c = 0 then held s - {current s} else held s)\<rparr>)"

inductive_cases stepE: "step m s s'"

section \<open>The invariant of the library\<close>

definition bag :: "addr \<Rightarrow> lib \<Rightarrow> addr multiset" where
  "bag m l = add_mset (running_thread l) (mset (concat (ready l)) + mset (waiters l m))"

definition lib_inv :: "addr \<Rightarrow> addr set \<Rightarrow> lib \<Rightarrow> bool" where
  "lib_inv m T l \<longleftrightarrow> finite T \<and> m \<noteq> NULL \<and> sched_ok l \<and> mutex_ok l m \<and> bag m l = mset_set T \<and> 0 < room l \<and>
     (\<forall>t \<in> T. prio_ok l t) \<and>
     (\<forall>t \<in> T. if t \<in> set (waiters l m) then status_of l t = Some wait_mutex else status_of l t = Some active \<or> status_of l t = Some yield)"

lemma lib_invD:
  assumes "lib_inv m T l"
  shows "finite T" "m \<noteq> NULL" "sched_ok l" "mutex_ok l m" "bag m l = mset_set T" "0 < room l"
    and "t \<in> T \<Longrightarrow> prio_ok l t"
    and "t \<in> T \<Longrightarrow> t \<in> set (waiters l m) \<Longrightarrow> status_of l t = Some wait_mutex"
    and "t \<in> T \<Longrightarrow> t \<notin> set (waiters l m) \<Longrightarrow> status_of l t = Some active \<or> status_of l t = Some yield"
  using assms by (auto simp: lib_inv_def)

lemma bag_members:
  assumes "finite T" "bag m l = mset_set T"
  shows "T = insert (running_thread l) (set (concat (ready l)) \<union> set (waiters l m))"
    and "running_thread l \<notin> set (concat (ready l))" "running_thread l \<notin> set (waiters l m)"
    and "set (concat (ready l)) \<inter> set (waiters l m) = {}" "distinct (waiters l m)"
proof -
  have "set_mset (bag m l) = T" using assms by simp
  then show "T = insert (running_thread l) (set (concat (ready l)) \<union> set (waiters l m))" by (auto simp: bag_def)
  have c: "count (bag m l) x \<le> 1" for x using assms by (simp add: count_mset_set')
  show "running_thread l \<notin> set (concat (ready l))" "running_thread l \<notin> set (waiters l m)"
    using c [of "running_thread l"] by (auto simp: bag_def count_mset_0_iff)
  define xs where "xs = running_thread l # concat (ready l) @ waiters l m"
  have e: "mset xs = mset_set T" using assms(2) by (simp add: bag_def xs_def)
  then have "set xs = T" using assms(1) by (metis finite_set_mset_mset_set set_mset_mset)
  then have "distinct xs" unfolding distinct_count_atmost_1 e using assms(1) by (simp add: count_mset_set')
  then have "distinct (running_thread l # concat (ready l) @ waiters l m)" by (simp add: xs_def)
  then show "set (concat (ready l)) \<inter> set (waiters l m) = {}" "distinct (waiters l m)" by auto
qed

lemma dispatched_mset:
  assumes "dispatched l rs ts l'" "length rs = 5"
  shows "add_mset (running_thread l') (mset (concat (ready l'))) = mset (concat rs)"
proof -
  from assms(1) obtain q where q: "pick rs (nat (current_priority l) + 1) = Some q"
      "running_thread l' = hd (rs ! q)" "ready l' = rs[q := tl (rs ! q)]" by (auto simp: dispatched_def)
  obtain k where "q = (nat (current_priority l) + 1 + k) mod 5" "rs ! q \<noteq> []" using pick_Some [OF q(1)] by blast
  then have "q < length rs" "rs ! q \<noteq> []" using assms(2) by simp_all
  from mset_concat_tl [OF this] show ?thesis by (simp add: q(2,3))
qed

lemma dispatched_frame:
  assumes m: "mutex_ok l m" and d: "dispatched l rs ts l'"
    and pr: "\<And>t. t \<in> set (waiters l m) \<Longrightarrow> prio_ok l' t"
  shows "waiters l' m = waiters l m" "owner l' m = owner l m" "mutex_ok l' m"
proof -
  from m obtain x where x: "mutexes l m = Some x" "m_waiting x \<in> dom (hqueues (lheap l))" "m_waiting x \<notin> set (priority_level l)"
    by (auto simp: mutex_ok_def)
  have d': "mutexes l' = mutexes l" "same_others l l'" "priority_level l' = priority_level l" using d by (auto simp: dispatched_def)
  show w: "waiters l' m = waiters l m" "owner l' m = owner l m"
    using d' x by (simp_all add: waiters_def owner_def same_others_def)
  show "mutex_ok l' m" using d' x pr w by (auto simp: mutex_ok_def same_others_def)
qed

section \<open>What each call does to the invariant\<close>

text \<open>The timer always finds a thread to run, and keeps the mutex as it is.\<close>

lemma status_upd: "status_of (l\<lparr>threads := (threads l)(a \<mapsto> t)\<rparr>) b = (if b = a then Some (th_status t) else status_of l b)"
  by (simp add: status_of_def)

lemma running_in: "lib_inv m T l \<Longrightarrow> running_thread l \<in> T"
  using bag_members(1) [OF lib_invD(1,5)] by blast

lemma requeue_law:
  assumes I: "lib_inv m T l" and p: "p < 5" and d: "dispatched l ((ready l)[p := ready l ! p @ [running_thread l]]) ts l'"
    and rm: "room l' = room l" and ts: "\<And>t. t \<in> T \<Longrightarrow> prio_ok (l\<lparr>threads := ts\<rparr>) t"
      "\<And>t. map_option th_status (ts t) = status_of l t"
  shows "lib_inv m T l' \<and> waiters l' m = waiters l m \<and> owner l' m = owner l m"
proof -
  note D = lib_invD [OF I] and B = bag_members [OF lib_invD(1,5) [OF I]]
  have t': "threads l' = ts" "sched_ok l'" using d by (auto simp: dispatched_def)
  have pr: "prio_ok l' t" if "t \<in> T" for t using ts(1) [OF that] t'(1) by (simp add: prio_ok_def)
  have st: "status_of l' t = status_of l t" for t using ts(2) [of t] t'(1) by (simp add: status_of_def)
  have F: "waiters l' m = waiters l m" "owner l' m = owner l m" "mutex_ok l' m"
    using dispatched_frame [OF D(4) d] pr B(1) by auto
  have "add_mset (running_thread l') (mset (concat (ready l'))) = add_mset (running_thread l) (mset (concat (ready l)))"
    by (rule handler_conserves_threads_law [OF D(3) p d])
  then have "bag m l' = bag m l" by (simp add: bag_def F(1))
  then show ?thesis using D F pr st t'(2) rm by (simp add: lib_inv_def)
qed

lemma tick_law:
  assumes I: "lib_inv m T l"
  shows "\<exists>l'. scheduler_alarm_handler l = Some l' \<and> lib_inv m T l' \<and> waiters l' m = waiters l m \<and> owner l' m = owner l m"
proof -
  note D = lib_invD [OF I] and B = bag_members [OF lib_invD(1,5) [OF I]]
  let ?r = "running_thread l"
  have rT: "?r \<in> T" using I by (rule running_in)
  then obtain rt where rt: "threads l ?r = Some rt" "0 \<le> th_priority rt" "th_priority rt < 5" "?r \<noteq> NULL"
    using D(7) [of ?r] by (auto simp: prio_ok_def split: option.splits)
  have "th_status rt = active \<or> th_status rt = yield" using D(9) [OF rT B(3)] rt(1) by (simp add: status_of_def)
  then consider (quantum) "th_status rt = active" "intervals_run rt < current_priority l"
    | (over) "th_status rt = active" "\<not> intervals_run rt < current_priority l" | (yield) "th_status rt = yield" by blast
  then show ?thesis
  proof cases
    case quantum
    let ?l' = "l\<lparr>cont_val := itimer l, itimer := 25, threads := (threads l)(?r \<mapsto> rt\<lparr>intervals_run := intervals_run rt + 1\<rparr>)\<rparr>"
    have e: "scheduler_alarm_handler l = Some ?l'" by (rule handler_within_quantum [OF rt(1) quantum])
    have w: "waiters ?l' m = waiters l m" "owner ?l' m = owner l m" by (cases "mutexes l m"; simp add: waiters_def owner_def)+
    have pr: "prio_ok ?l' t = prio_ok l t" "status_of ?l' t = status_of l t" for t
      using rt(1) by (simp_all add: prio_ok_def status_of_def)
    have "mutex_ok ?l' m" using D(4) w(1) pr(1) by (simp add: mutex_ok_def)
    moreover have "bag m ?l' = bag m l" using w(1) by (simp add: bag_def ready_def)
    moreover have "sched_ok ?l'" using D(3) by simp
    moreover have "room ?l' = room l" by (simp add: room_def)
    ultimately have "lib_inv m T ?l'" using D w pr by (simp add: lib_inv_def)
    then show ?thesis using e w by blast
  next
    case over
    let ?p = "nat (th_priority rt + 1) mod 5" and ?ts = "(threads l)(?r \<mapsto> rt\<lparr>intervals_run := 0, th_priority := int (nat (th_priority rt + 1) mod 5)\<rparr>)"
    from handler_preempts_law [OF D(3) rt(1) over rt(2-4) D(6)] obtain l' where
      l': "scheduler_alarm_handler l = Some l'" "room l' = room l" "dispatched l ((ready l)[?p := ready l ! ?p @ [?r]]) ?ts l'"
      by (auto simp: Let_def)
    have "prio_ok (l\<lparr>threads := ?ts\<rparr>) t" if "t \<in> T" for t
      using D(7) [OF that] rt(4) by (auto simp: prio_ok_def)
    moreover have "map_option th_status (?ts t) = status_of l t" for t using rt(1) by (simp add: status_of_def)
    ultimately show ?thesis using requeue_law [OF I _ l'(3,2)] l'(1) by simp
  next
    case yield
    let ?p = "nat (th_priority rt)"
    from handler_yields_law [OF D(3) rt(1) yield rt(2-4) D(6)] obtain l' where
      l': "scheduler_alarm_handler l = Some l'" "room l' = room l" "dispatched l ((ready l)[?p := ready l ! ?p @ [?r]]) (threads l) l'"
      by (auto simp: Let_def)
    have "?p < 5" using rt(3) by simp
    then show ?thesis using requeue_law [OF I _ l'(3,2)] l'(1) D(7) by (simp add: status_of_def)
  qed
qed

text \<open>A change of the status of the running thread, and of the owner of the mutex.\<close>

lemma lib_inv_yield:
  assumes I: "lib_inv m T l" and rt: "threads l (running_thread l) = Some rt"
  shows "lib_inv m T (l\<lparr>threads := (threads l)(running_thread l \<mapsto> rt\<lparr>th_status := yield\<rparr>)\<rparr>)" (is "lib_inv m T ?l'")
    and "waiters (l\<lparr>threads := ts\<rparr>) m = waiters l m" "owner (l\<lparr>threads := ts\<rparr>) m = owner l m"
proof -
  note D = lib_invD [OF I] and B = bag_members [OF lib_invD(1,5) [OF I]]
  show w: "waiters (l\<lparr>threads := ts\<rparr>) m = waiters l m" "owner (l\<lparr>threads := ts\<rparr>) m = owner l m" for ts
    by (cases "mutexes l m"; simp add: waiters_def owner_def)+
  have pr: "prio_ok ?l' t = prio_ok l t" for t using rt by (simp add: prio_ok_def)
  have st: "status_of ?l' t = (if t = running_thread l then Some yield else status_of l t)" for t by (simp add: status_upd)
  have "mutex_ok ?l' m" using D(4) w(1) pr by (simp add: mutex_ok_def)
  moreover have "bag m ?l' = bag m l" using w(1) by (simp add: bag_def ready_def)
  moreover have "room ?l' = room l" by (simp add: room_def)
  ultimately show "lib_inv m T ?l'" using D w pr st B(3) by (auto simp: lib_inv_def)
qed

lemma yield_law:
  assumes I: "lib_inv m T l"
  shows "\<exists>l'. my_pthread_yield l = Some l' \<and> lib_inv m T l' \<and> waiters l' m = waiters l m \<and> owner l' m = owner l m"
proof -
  obtain rt where rt: "threads l (running_thread l) = Some rt"
    using lib_invD(7) [OF I running_in [OF I]] by (auto simp: prio_ok_def split: option.splits)
  show ?thesis
    using tick_law [OF lib_inv_yield(1) [OF I rt]] rt lib_inv_yield(2,3) [OF I rt]
    by (simp add: my_pthread_yield_def upd_thread_def)
qed

lemma lib_inv_timer:
  assumes I: "lib_inv m T l" and x: "mutexes l m = Some x"
  shows "lib_inv m T (l\<lparr>cont_val := a, itimer := b, mutexes := (mutexes l)(m \<mapsto> x\<lparr>m_user := u\<rparr>)\<rparr>)" (is "lib_inv m T ?l'")
    and "waiters (l\<lparr>cont_val := a, itimer := b, mutexes := (mutexes l)(m \<mapsto> x\<lparr>m_user := u\<rparr>)\<rparr>) m = waiters l m"
    and "owner (l\<lparr>cont_val := a, itimer := b, mutexes := (mutexes l)(m \<mapsto> x\<lparr>m_user := u\<rparr>)\<rparr>) m = u"
proof -
  note D = lib_invD [OF I]
  show w: "waiters ?l' m = waiters l m" "owner ?l' m = u" using x by (simp_all add: waiters_def owner_def)
  have e: "prio_ok ?l' t = prio_ok l t" "status_of ?l' t = status_of l t" for t by (simp_all add: prio_ok_def status_of_def)
  have "mutex_ok ?l' m" using D(4) w(1) e(1) x by (auto simp: mutex_ok_def)
  moreover have "bag m ?l' = bag m l" using w(1) by (simp add: bag_def ready_def)
  moreover have "room ?l' = room l" by (simp add: room_def)
  moreover have "sched_ok ?l'" using D(3) by (simp add: sched_ok_def ready_def)
  ultimately show "lib_inv m T ?l'" using D w(1) e by (simp add: lib_inv_def)
qed

lemma lib_inv_cont:
  assumes I: "lib_inv m T l"
  shows "lib_inv m T (l\<lparr>cont_val := a\<rparr>)" "waiters (l\<lparr>cont_val := a\<rparr>) m = waiters l m" "owner (l\<lparr>cont_val := a\<rparr>) m = owner l m"
proof -
  from lib_invD(4) [OF I] obtain x where x: "mutexes l m = Some x" by (auto simp: mutex_ok_def)
  have "x\<lparr>m_user := owner l m\<rparr> = x" using x by (simp add: owner_def)
  then have "l\<lparr>cont_val := a, itimer := itimer l, mutexes := (mutexes l)(m \<mapsto> x\<lparr>m_user := owner l m\<rparr>)\<rparr> = l\<lparr>cont_val := a\<rparr>"
    using x by (simp add: fun_upd_idem)
  then show "lib_inv m T (l\<lparr>cont_val := a\<rparr>)" "waiters (l\<lparr>cont_val := a\<rparr>) m = waiters l m" "owner (l\<lparr>cont_val := a\<rparr>) m = owner l m"
    using lib_inv_timer [OF I x, where a = a and b = "itimer l" and u = "owner l m"] by metis+
qed

text \<open>The three outcomes of locking.\<close>

lemma lock_law:
  assumes I: "lib_inv m T l" and ow: "owner l m = NULL \<or> owner l m \<in> T - set (waiters l m)"
  shows "owner l m = NULL \<Longrightarrow> \<exists>l1 l'. my_pthread_mutex_lock_enter m l = Some (Go, l1) \<and> my_pthread_mutex_claim m l1 = Some (0, l') \<and>
      lib_inv m T l' \<and> waiters l' m = waiters l m \<and> owner l' m = running_thread l \<and> running_thread l' = running_thread l"
    and "owner l m = running_thread l \<Longrightarrow> \<exists>l'. my_pthread_mutex_lock_enter m l = Some (Ret EDEADLK, l') \<and>
      lib_inv m T l' \<and> waiters l' m = waiters l m \<and> owner l' m = owner l m \<and> running_thread l' = running_thread l"
    and "owner l m \<noteq> NULL \<Longrightarrow> owner l m \<noteq> running_thread l \<Longrightarrow> \<exists>l1 l'. my_pthread_mutex_lock_enter m l = Some (Raise, l1) \<and>
      scheduler_alarm_handler l1 = Some l' \<and> lib_inv m T l' \<and> waiters l' m = waiters l m @ [running_thread l] \<and> owner l' m = owner l m"
proof -
  note D = lib_invD [OF I] and B = bag_members [OF lib_invD(1,5) [OF I]]
  let ?r = "running_thread l"
  have rT: "?r \<in> T" using I by (rule running_in)
  from D(4) obtain x where x: "mutexes l m = Some x" by (auto simp: mutex_ok_def)
  have ox: "owner l m = m_user x" using x by (simp add: owner_def)
  obtain rt where rt: "threads l ?r = Some rt" "?r \<noteq> NULL" using D(7) [OF rT] by (auto simp: prio_ok_def split: option.splits)
  show "\<exists>l1 l'. my_pthread_mutex_lock_enter m l = Some (Go, l1) \<and> my_pthread_mutex_claim m l1 = Some (0, l') \<and>
      lib_inv m T l' \<and> waiters l' m = waiters l m \<and> owner l' m = ?r \<and> running_thread l' = ?r" if "owner l m = NULL"
    using lock_free [OF x D(2) _ rt(2)] that ox lib_inv_timer [OF I x, where a = "itimer l" and b = "itimer l" and u = ?r] by auto
  show "\<exists>l'. my_pthread_mutex_lock_enter m l = Some (Ret EDEADLK, l') \<and>
      lib_inv m T l' \<and> waiters l' m = waiters l m \<and> owner l' m = owner l m \<and> running_thread l' = ?r" if "owner l m = ?r"
    using lock_refused [of l m x] x D(2) that ox lib_inv_cont [OF I] by simp
  assume o: "owner l m \<noteq> NULL" "owner l m \<noteq> ?r"
  from lock_contended_law [OF D(3,4,2) o rt(1) D(6)] obtain l1 where
    l1: "my_pthread_mutex_lock_enter m l = Some (Raise, l1)" "sched_ok l1" "ready l1 = ready l" "waiters l1 m = waiters l m @ [?r]"
      "owner l1 m = owner l m" "running_thread l1 = ?r" "Suc (room l1) = room l" "dom (hqueues (lheap l1)) = dom (hqueues (lheap l))"
      "mutexes l1 = mutexes l" "priority_level l1 = priority_level l" "threads l1 = (threads l)(?r \<mapsto> rt\<lparr>th_status := wait_mutex\<rparr>)" by blast
  have pr: "prio_ok l1 t = prio_ok l t" for t using rt(1) by (simp add: prio_ok_def l1(11))
  have st: "status_of l1 t = (if t = ?r then Some wait_mutex else status_of l t)" for t by (simp add: status_of_def l1(11))
  have mo1: "mutex_ok l1 m" using D(4) x pr l1(4,8,9,10) D(7) [OF rT] by (auto simp: mutex_ok_def)
  have "owner l m \<in> set (concat (ready l))" using ow o B(1) by auto
  then obtain q where "q \<in> set (ready l)" "owner l m \<in> set q" by auto
  then have "q \<in> set (ready l)" "q \<noteq> []" by auto
  then have ne: "\<exists>p < 5. ready l1 ! p \<noteq> []" using sched_okD(2) [OF D(3)] l1(3) by (metis in_set_conv_nth ready_length)
  have "threads l1 (running_thread l1) = Some (rt\<lparr>th_status := wait_mutex\<rparr>)" by (simp add: l1(6,11))
  from handler_blocks_law [OF l1(2) this] ne obtain l' where
    l': "scheduler_alarm_handler l1 = Some l'" "dispatched l1 (ready l1) (threads l1) l'" "room l' = Suc (room l1)" by auto
  have t': "threads l' = threads l1" "sched_ok l'" using l'(2) by (auto simp: dispatched_def)
  have e: "prio_ok l' t = prio_ok l t" "status_of l' t = status_of l1 t" for t
    using pr [of t] t'(1) by (simp_all add: prio_ok_def status_of_def)
  have pr': "prio_ok l' t" if "t \<in> set (waiters l1 m)" for t using mo1 that pr e(1) by (simp add: mutex_ok_def)
  have F: "waiters l' m = waiters l m @ [?r]" "owner l' m = owner l m" "mutex_ok l' m"
    using dispatched_frame [OF mo1 l'(2) pr'] l1(4,5) by simp_all
  have "add_mset (running_thread l') (mset (concat (ready l'))) = mset (concat (ready l))"
    using dispatched_mset [OF l'(2)] sched_okD(2) [OF D(3)] l1(3,10) by simp
  then have "bag m l' = bag m l" by (simp add: bag_def F(1))
  then have "lib_inv m T l'" using D F e st l'(3) l1(7) t'(2) by (auto simp: lib_inv_def)
  then show "\<exists>l1 l'. my_pthread_mutex_lock_enter m l = Some (Raise, l1) \<and>
      scheduler_alarm_handler l1 = Some l' \<and> lib_inv m T l' \<and> waiters l' m = waiters l m @ [?r] \<and> owner l' m = owner l m"
    using l1(1) l'(1) F by blast
qed

text \<open>The rest of a blocked call of lock, and the two outcomes of unlocking.\<close>

lemma claim_law:
  assumes I: "lib_inv m T l"
  shows "\<exists>l'. my_pthread_mutex_claim m l = Some (0, l') \<and> lib_inv m T l' \<and> waiters l' m = waiters l m \<and>
    owner l' m = running_thread l \<and> running_thread l' = running_thread l"
proof -
  from lib_invD(4) [OF I] obtain x where x: "mutexes l m = Some x" by (auto simp: mutex_ok_def)
  show ?thesis
    using lib_inv_timer [OF I x, where a = "cont_val l" and b = "cont_val l" and u = "running_thread l"] x
    by (cases l) (simp add: my_pthread_mutex_claim_def upd_mutex_def setitimer_cont_def)
qed

lemma unlock_law:
  assumes I: "lib_inv m T l"
  shows "owner l m \<noteq> running_thread l \<Longrightarrow> \<exists>l'. my_pthread_mutex_unlock m l = Some (EPERM, l') \<and> lib_inv m T l' \<and>
      waiters l' m = waiters l m \<and> owner l' m = owner l m \<and> running_thread l' = running_thread l"
    and "owner l m = running_thread l \<Longrightarrow> \<exists>l'. my_pthread_mutex_unlock m l = Some (0, l') \<and> lib_inv m T l' \<and>
      running_thread l' = running_thread l \<and> waiters l' m = tl (waiters l m) \<and>
      owner l' m = (case waiters l m of [] \<Rightarrow> NULL | u # us \<Rightarrow> u)"
proof -
  note D = lib_invD [OF I] and B = bag_members [OF lib_invD(1,5) [OF I]]
  from D(4) obtain x where x: "mutexes l m = Some x" "m_waiting x \<in> dom (hqueues (lheap l))" "m_waiting x \<notin> set (priority_level l)"
    by (auto simp: mutex_ok_def)
  show "\<exists>l'. my_pthread_mutex_unlock m l = Some (EPERM, l') \<and> lib_inv m T l' \<and>
      waiters l' m = waiters l m \<and> owner l' m = owner l m \<and> running_thread l' = running_thread l" if "owner l m \<noteq> running_thread l"
    using unlock_refused [OF x(1)] that x(1) lib_inv_cont [OF I] by (simp add: owner_def)
  assume "owner l m = running_thread l"
  from unlock_hands_over_law [OF D(3,4) this] obtain l' where
    l': "my_pthread_mutex_unlock m l = Some (0, l')" "sched_ok l'" "room l' = room l" "running_thread l' = running_thread l"
      "dom (hqueues (lheap l')) = dom (hqueues (lheap l))" "priority_level l' = priority_level l"
      "map_option m_waiting (mutexes l' m) = map_option m_waiting (mutexes l m)"
    and c: "case waiters l m of
       [] \<Rightarrow> owner l' m = NULL \<and> waiters l' m = [] \<and> ready l' = ready l \<and> threads l' = threads l
     | u # us \<Rightarrow> owner l' m = u \<and> waiters l' m = us \<and> status_of l' u = Some active \<and> level_of l' u = level_of l u \<and> prio_ok l' u \<and>
         ready l' = (ready l)[level_of l u := ready l ! level_of l u @ [u]] \<and> (\<forall>t. t \<noteq> u \<longrightarrow> threads l' t = threads l t)" by blast
  obtain x' where x': "mutexes l' m = Some x'" "m_waiting x' = m_waiting x" using l'(7) x(1) by auto
  have W: "waiters l' m = tl (waiters l m) \<and> owner l' m = (case waiters l m of [] \<Rightarrow> NULL | u # us \<Rightarrow> u)"
    using c by (simp split: list.splits)
  have pr: "prio_ok l' t" if "t \<in> T" for t
    using c D(7) [OF that] by (cases "waiters l m"; cases "t = hd (waiters l m)") (auto simp: prio_ok_def)
  have "set (tl (waiters l m)) \<subseteq> T" using B(1) by (cases "waiters l m") auto
  then have mo: "mutex_ok l' m" using x x' l'(5,6) W pr by (auto simp: mutex_ok_def)
  have other: "waiters l m = [] \<or> t \<noteq> hd (waiters l m) \<Longrightarrow> status_of l' t = status_of l t" for t
    using c by (cases "waiters l m") (simp_all add: status_of_def)
  have st: "t \<in> T \<Longrightarrow> if t \<in> set (waiters l' m) then status_of l' t = Some wait_mutex
      else status_of l' t = Some active \<or> status_of l' t = Some yield" for t
    using c B(5) D(8,9) [of t] other by (cases "waiters l m"; cases "t = hd (waiters l m)") auto
  have bg: "bag m l' = bag m l"
  proof (cases "waiters l m")
    case Nil
    then show ?thesis using c l'(4) by (simp add: bag_def)
  next
    case (Cons u us)
    have "prio_ok l u" using B(1) Cons D(7) [of u] by simp
    then have "level_of l u < length (ready l)" using sched_okD(2) [OF D(3)] by (auto simp: prio_ok_def level_of_def split: option.splits)
    from mset_concat_update [OF this, of "ready l ! level_of l u @ [u]"] show ?thesis using Cons c l'(4) by (simp add: bag_def)
  qed
  have "lib_inv m T l'" using D(1,2,5,6) l'(2,3) mo bg pr st by (simp add: lib_inv_def)
  then show "\<exists>l'. my_pthread_mutex_unlock m l = Some (0, l') \<and> lib_inv m T l' \<and>
      running_thread l' = running_thread l \<and> waiters l' m = tl (waiters l m) \<and>
      owner l' m = (case waiters l m of [] \<Rightarrow> NULL | u # us \<Rightarrow> u)" using l'(1,4) W by blast
qed

section \<open>The invariant of the system\<close>

text \<open>
  The threads inside a blocked call are those that wait and the owner, unless it holds the mutex already; nobody
  but the owner holds it; and as long as somebody waits there is an owner, which does not wait itself.
\<close>

definition sys_inv :: "addr \<Rightarrow> addr set \<Rightarrow> sys \<Rightarrow> bool" where
  "sys_inv m T s \<longleftrightarrow> (let l = slib s in lib_inv m T l \<and> (owner l m \<noteq> NULL \<longrightarrow> owner l m \<in> T - set (waiters l m)) \<and>
     (waiters l m \<noteq> [] \<longrightarrow> owner l m \<noteq> NULL) \<and> held s \<subseteq> {owner l m} - {NULL} \<and>
     pend s = set (waiters l m) \<union> ({owner l m} - {NULL}) - held s)"

lemma sys_invD:
  assumes "sys_inv m T s"
  shows "lib_inv m T (slib s)" "owner (slib s) m = NULL \<or> owner (slib s) m \<in> T - set (waiters (slib s) m)"
    and "waiters (slib s) m \<noteq> [] \<Longrightarrow> owner (slib s) m \<noteq> NULL"
    and "held s \<subseteq> {owner (slib s) m} - {NULL}" "pend s = set (waiters (slib s) m) \<union> ({owner (slib s) m} - {NULL}) - held s"
  using assms by (auto simp: sys_inv_def Let_def)

lemma NULL_not_in: "lib_inv m T l \<Longrightarrow> NULL \<notin> T"
  by (auto simp: lib_inv_def prio_ok_def)

lemma current_facts:
  assumes "sys_inv m T s"
  shows "current s \<in> T" "current s \<noteq> NULL" "current s \<notin> set (waiters (slib s) m)"
  using running_in [OF sys_invD(1) [OF assms]] NULL_not_in [OF sys_invD(1) [OF assms]]
    bag_members(3) [OF lib_invD(1,5) [OF sys_invD(1) [OF assms]]] by metis+

lemma step_sys_inv:
  assumes st: "step m s s'" and I: "sys_inv m T s"
  shows "sys_inv m T s'"
proof -
  note S = sys_invD [OF I] and C = current_facts [OF I]
  have frame: "sys_inv m T (s\<lparr>slib := l\<rparr>)"
    if "lib_inv m T l" "waiters l m = waiters (slib s) m" "owner l m = owner (slib s) m" for l
    using that S by (auto simp: sys_inv_def)
  from st show ?thesis
  proof cases
    case (tick l)
    then show ?thesis using tick_law [OF S(1)] frame by auto
  next
    case (yield l)
    then show ?thesis using yield_law [OF S(1)] frame by auto
  next
    case (lock_now l c l')
    have o: "owner (slib s) m = NULL" using lock_now(3) lock_law(2,3) [OF S(1,2)] by fastforce
    show ?thesis using lock_law(1) [OF S(1,2) o] lock_now S(3-5) o C by (auto simp: sys_inv_def)
  next
    case (lock_own c l)
    have o: "owner (slib s) m = current s" using lock_own(3) lock_law(1,3) [OF S(1,2)] by fastforce
    show ?thesis using lock_law(2) [OF S(1,2) o] lock_own frame by auto
  next
    case (lock_wait l l')
    have o: "owner (slib s) m \<noteq> NULL" "owner (slib s) m \<noteq> current s"
      using lock_wait(3) lock_law(1,2) [OF S(1,2)] by fastforce+
    show ?thesis using lock_law(3) [OF S(1,2) o] lock_wait S(2,4,5) o C by (auto simp: sys_inv_def)
  next
    case (lock_done c l)
    have "owner (slib s) m = current s" using lock_done(2) S(5) C(3) by auto
    then show ?thesis using claim_law [OF S(1)] lock_done S(4,5) C by (auto simp: sys_inv_def)
  next
    case (unlock c l)
    show ?thesis
    proof (cases "owner (slib s) m = current s")
      case False
      then show ?thesis using unlock_law(1) [OF S(1)] unlock frame by auto
    next
      case True
      have h: "held s = {current s}" using True unlock(2) S(4,5) C(2) by auto
      have w: "set (waiters (slib s) m) \<subseteq> T" "distinct (waiters (slib s) m)"
        using bag_members(1,5) [OF lib_invD(1,5) [OF S(1)]] by auto
      from unlock_law(2) [OF S(1) True] unlock(3) have
        l: "c = 0" "lib_inv m T l" "waiters l m = tl (waiters (slib s) m)"
          "owner l m = (case waiters (slib s) m of [] \<Rightarrow> NULL | u # us \<Rightarrow> u)" by simp_all
      have s': "slib s' = l" "pend s' = pend s" "held s' = {}" using unlock(1) l(1) h by simp_all
      have p: "pend s = set (waiters (slib s) m)" using S(5) h True C(3) by auto
      have "t \<noteq> NULL" if "t \<in> T" for t using NULL_not_in [OF S(1)] that by metis
      then show ?thesis using w l(2-4) unfolding sys_inv_def Let_def s' p by (cases "waiters (slib s) m") auto
    qed
  qed
qed

section \<open>Reachable states\<close>

text \<open>The start: nobody is inside a call and nobody has the mutex.\<close>

definition start :: "lib \<Rightarrow> sys" where
  "start l = \<lparr>slib = l, pend = {}, held = {}\<rparr>"

lemma reachable_sys_inv:
  assumes "lib_inv m T l" "owner l m = NULL" "waiters l m = []" "(step m)\<^sup>*\<^sup>* (start l) s"
  shows "sys_inv m T s"
  using assms(4)
proof (induction rule: rtranclp_induct)
  case base
  show ?case using assms(1-3) by (simp add: sys_inv_def start_def)
next
  case (step s s')
  then show ?case by (auto intro: step_sys_inv)
qed

text \<open>
  Claim C4. Mutual exclusion. Threads that use a mutex in any order, interrupted by the timer at any moment between calls,
  never hold it together: in every reachable state at most one thread has returned from lock and not unlocked, and
  that thread is the owner the mutex records.
\<close>

theorem mutual_exclusion:
  assumes "lib_inv m T l" "owner l m = NULL" "waiters l m = []" "(step m)\<^sup>*\<^sup>* (start l) s"
    and "a \<in> held s" "b \<in> held s"
  shows "a = b \<and> owner (slib s) m = a \<and> a \<noteq> NULL"
  using sys_invD(4) [OF reachable_sys_inv [OF assms(1-4)]] assms(5,6) by blast

text \<open>
  Claim C5. No deadlock and no lost thread. In every reachable state each thread is running, ready or waiting for the mutex,
  exactly once; if any waits, the mutex has an owner that does not wait; and whatever the running thread may call
  next returns or dispatches another thread: the timer, yield, lock (the signal of a blocking call included), the
  rest of a blocked call, and unlock.
\<close>

theorem system_progress:
  assumes "lib_inv m T l" "owner l m = NULL" "waiters l m = []" "(step m)\<^sup>*\<^sup>* (start l) s"
  shows "bag m (slib s) = mset_set T \<and>
    (waiters (slib s) m \<noteq> [] \<longrightarrow> owner (slib s) m \<in> insert (current s) (set (concat (ready (slib s))))) \<and>
    scheduler_alarm_handler (slib s) \<noteq> None \<and>
    (if current s \<in> pend s then \<exists>l'. my_pthread_mutex_claim m (slib s) = Some (0, l')
     else my_pthread_yield (slib s) \<noteq> None \<and> (\<exists>c l'. my_pthread_mutex_unlock m (slib s) = Some (c, l')) \<and>
       (\<exists>c l'. my_pthread_mutex_lock_enter m (slib s) = Some (c, l') \<and>
          (c = Raise \<longrightarrow> scheduler_alarm_handler l' \<noteq> None) \<and> (c = Go \<longrightarrow> (\<exists>l''. my_pthread_mutex_claim m l' = Some (0, l'')))))"
proof -
  note S = sys_invD [OF reachable_sys_inv [OF assms]]
  note B = bag_members(1) [OF lib_invD(1,5) [OF S(1)]]
  have "\<exists>c l'. my_pthread_mutex_unlock m (slib s) = Some (c, l')" using unlock_law [OF S(1)] by blast
  moreover have "\<exists>c l'. my_pthread_mutex_lock_enter m (slib s) = Some (c, l') \<and>
      (c = Raise \<longrightarrow> scheduler_alarm_handler l' \<noteq> None) \<and> (c = Go \<longrightarrow> (\<exists>l''. my_pthread_mutex_claim m l' = Some (0, l'')))"
    using lock_law [OF S(1,2)] by (cases "owner (slib s) m = NULL"; cases "owner (slib s) m = current s") fastforce+
  moreover have "owner (slib s) m \<in> insert (current s) (set (concat (ready (slib s))))" if "waiters (slib s) m \<noteq> []"
    using S(2,3) that B by blast
  ultimately show ?thesis
    using lib_invD(5) [OF S(1)] tick_law [OF S(1)] yield_law [OF S(1)] claim_law [OF S(1)] by fastforce
qed

end
