(* ===== verification/Thread_Join.thy ===== *)
theory Thread_Join
  imports Thread_Calls
begin

text \<open>
  Thread termination in the thread library of asst1: \<open>pthread_exit\<close>, \<open>my_pthread_join\<close> and the
  hand-over between them through \<open>waiting[]\<close>, \<open>done[]\<close> and \<open>thread_table[]\<close>.
\<close>

section \<open>Exit\<close>

lemma exit_enter_law:
  assumes "threads l (running_thread l) = Some rt" "0 \<le> th_id rt" "th_id rt < int (length (done_flag l))"
  shows "pthread_exit_enter v l = Some (l\<lparr>cont_val := itimer l, itimer := 0,
    threads := (threads l)(running_thread l \<mapsto> rt\<lparr>th_ret := v, th_status := thread_exit\<rparr>),
    done_flag := (done_flag l)[nat (th_id rt) := 1]\<rparr>)"
  using assms by (simp add: pthread_exit_enter_def setitimer_pause_def upd_thread_def arr_set_in)

text \<open>
  Claim C27. \<open>pthread_exit\<close> with a thread waiting in \<open>my_pthread_join\<close>: the exit value is stored
  in the thread's struct and its \<open>done\<close> flag is set, the waiting thread becomes active and goes to
  the back of its own level's queue, the exiting thread is in no queue, and the scheduler always
  dispatches a next thread.
\<close>

theorem exit_wakes_joiner:
  assumes ok: "sched_ok l" and rt: "threads l (running_thread l) = Some rt"
    and id: "0 \<le> th_id rt" "th_id rt < 1000" "length (done_flag l) = 1000" "length (waiting l) = 1000"
    and w: "waiting l ! nat (th_id rt) = w" "w \<noteq> NULL" "w \<noteq> running_thread l" "threads l w = Some wt"
    and pr: "0 \<le> th_priority wt" "th_priority wt < 5" and mem: "0 < room l"
  shows "\<exists>l'. pthread_exit v l = Some l' \<and>
    (let p = nat (th_priority wt)
     in dispatched (l\<lparr>done_flag := (done_flag l)[nat (th_id rt) := 1]\<rparr>) ((ready l)[p := ready l ! p @ [w]])
          ((threads l)(running_thread l \<mapsto> rt\<lparr>th_ret := v, th_status := thread_exit\<rparr>,
             w \<mapsto> wt\<lparr>th_status := active\<rparr>)) l')"
proof -
  let ?p = "nat (th_priority wt)"
  let ?ts = "(threads l)(running_thread l \<mapsto> rt\<lparr>th_ret := v, th_status := thread_exit\<rparr>,
    w \<mapsto> wt\<lparr>th_status := active\<rparr>)"
  let ?base = "l\<lparr>done_flag := (done_flag l)[nat (th_id rt) := 1]\<rparr>"
  let ?l = "l\<lparr>done_flag := (done_flag l)[nat (th_id rt) := 1], cont_val := 0, itimer := 0, threads := ?ts\<rparr>"
  have "\<exists>l1 l'. enqueue_level w (int ?p) ?l = Some l1 \<and> reschedule l1 = Some l' \<and>
      dispatched ?l ((ready ?l)[?p := ready ?l ! ?p @ [w]]) (threads ?l) l' \<and> room l' = room ?l"
    by (rule enqueue_then_reschedule) (use ok w mem pr in \<open>simp_all add: sched_ok_def room_def ready_def\<close>)
  then obtain l1 l' where 1: "enqueue_level w (int ?p) ?l = Some l1" "reschedule l1 = Some l'"
      "dispatched ?l ((ready ?l)[?p := ready ?l ! ?p @ [w]]) (threads ?l) l'" by blast
  have wg: "arr_get (waiting l) (th_id rt) = Some w" using id w(1) by (simp add: arr_get_in)
  have "pthread_exit v l = Some l'"
    unfolding pthread_exit_def
    using exit_enter_law [OF rt id(1), of v] id 1(1,2) rt w(2-4) wg pr
    by (simp add: scheduler_alarm_handler_def setitimer_pause_def upd_thread_def Let_def)
  moreover have "dispatched ?base ((ready l)[?p := ready l ! ?p @ [w]]) ?ts l'"
    using 1(3) by (simp add: dispatched_def same_others_def)
  ultimately show ?thesis unfolding Let_def by blast
qed

text \<open>
  \<open>pthread_exit\<close> with nobody waiting for the thread: the next ready thread is
  dispatched, and if there is none the handler's selection loop never ends.
\<close>

theorem exit_unjoined:
  assumes ok: "sched_ok l" and rt: "threads l (running_thread l) = Some rt"
    and id: "0 \<le> th_id rt" "th_id rt < 1000" "length (done_flag l) = 1000" "length (waiting l) = 1000"
    and w: "waiting l ! nat (th_id rt) = NULL"
  shows "((\<exists>p < 5. ready l ! p \<noteq> []) \<longrightarrow> (\<exists>l'. pthread_exit v l = Some l' \<and>
      dispatched (l\<lparr>done_flag := (done_flag l)[nat (th_id rt) := 1]\<rparr>) (ready l)
        ((threads l)(running_thread l \<mapsto> rt\<lparr>th_ret := v, th_status := thread_exit\<rparr>)) l')) \<and>
    ((\<forall>p < 5. ready l ! p = []) \<longrightarrow> pthread_exit v l = None)"
proof -
  let ?ts = "(threads l)(running_thread l \<mapsto> rt\<lparr>th_ret := v, th_status := thread_exit\<rparr>)"
  let ?l = "l\<lparr>threads := ?ts, done_flag := (done_flag l)[nat (th_id rt) := 1], cont_val := 0, itimer := 0\<rparr>"
  have okl: "sched_ok ?l" and rd: "ready ?l = ready l" using ok by (simp_all add: sched_ok_def ready_def)
  have wg: "arr_get (waiting l) (th_id rt) = Some NULL" using id w by (simp add: arr_get_in)
  have h: "pthread_exit v l = reschedule ?l"
    unfolding pthread_exit_def
    using exit_enter_law [OF rt id(1), of v] id rt wg
    by (simp add: scheduler_alarm_handler_def setitimer_pause_def upd_thread_def Let_def)
  show ?thesis
  proof (intro conjI impI)
    assume "\<exists>p < 5. ready l ! p \<noteq> []"
    then obtain l' where "reschedule ?l = Some l'" "dispatched ?l (ready ?l) (threads ?l) l'"
      using reschedule_dispatched [OF okl] rd by auto
    with h rd show "\<exists>l'. pthread_exit v l = Some l' \<and>
      dispatched (l\<lparr>done_flag := (done_flag l)[nat (th_id rt) := 1]\<rparr>) (ready l) ?ts l'"
      by (intro exI [of _ l']) (simp add: dispatched_def same_others_def)
  next
    assume "\<forall>p < 5. ready l ! p = []"
    with reschedule_spins [OF okl] rd h show "pthread_exit v l = None" by simp
  qed
qed

section \<open>Join\<close>

lemma waited_for_Some:
  assumes "\<forall>w \<in> set ws. w = NULL \<or> threads l w \<noteq> None"
  shows "waited_for l r ws = Some (\<exists>w \<in> set ws. w \<noteq> NULL \<and> (\<exists>t. threads l w = Some t \<and> wait_id t = r))"
  using assms by (induction ws) (auto split: if_splits)

text \<open>Every entry of \<open>waiting[]\<close> is \<open>NULL\<close> or a thread struct.\<close>

definition waiting_ok :: "lib \<Rightarrow> bool" where
  "waiting_ok l \<longleftrightarrow> length (waiting l) = 1000 \<and> length (thread_table l) = 1000 \<and> length (done_flag l) = 1000 \<and>
     (\<forall>w \<in> set (waiting l). w = NULL \<or> threads l w \<noteq> None)"

text \<open>Somebody waits for the thread \<open>r\<close>.\<close>

definition joined :: "lib \<Rightarrow> int \<Rightarrow> bool" where
  "joined l r \<longleftrightarrow> (\<exists>w \<in> set (waiting l). w \<noteq> NULL \<and> (\<exists>t. threads l w = Some t \<and> wait_id t = r))"

lemma waited_for_joined: "waiting_ok l \<Longrightarrow> waited_for l r (waiting l) = Some (joined l r)"
  by (simp add: waiting_ok_def joined_def waited_for_Some)


lemma ids_ok_frame:
  assumes "ids_ok l used ids" "heap_ok h" "htids h = htids (lheap l)" "thread_count l' = thread_count l"
    "tid_list l' = tid_list l" "lheap l' = h"
  shows "ids_ok l' used ids"
  using assms by (simp add: ids_ok_def)

text \<open>
  Claim C26. Collecting a finished thread: \<open>my_pthread_join\<close> delivers the value the thread passed
  to \<open>pthread_exit\<close> when a place for it was given, frees the thread's stack, empties its entries
  of \<open>thread_table[]\<close> and \<open>waiting[]\<close>, makes its identifier the next one to be handed out,
  leaves the ready queues alone and restores the timer.
\<close>

theorem join_collects:
  assumes ok: "sched_ok l" and ids: "ids_ok l used ids" "th_id t \<in> used" "th_id t < 1000"
    and len: "length (thread_table l) = 1000" "length (waiting l) = 1000"
    and th: "threads l (thread_table l ! nat (th_id t)) = Some x"
    and st: "hraw (lheap l) (ss_sp x) \<noteq> None"
  shows "\<exists>l'. my_pthread_join_resume t value_ptr l = Some (if value_ptr = NULL then None else Some (th_ret x), 0, l') \<and>
    thread_table l' = (thread_table l)[nat (th_id t) := NULL] \<and> waiting l' = (waiting l)[nat (th_id t) := NULL] \<and>
    hraw (lheap l') = (hraw (lheap l))(ss_sp x := None) \<and> ids_ok l' (used - {th_id t}) (th_id t # ids) \<and>
    sched_ok l' \<and> ready l' = ready l \<and> threads l' = threads l \<and> itimer l' = itimer l"
proof -
  have "used \<subseteq> {1..<thread_count l}" using ids(1) by (auto simp: ids_ok_def)
  with ids(2) have i: "0 \<le> th_id t" by auto
  let ?a = "ss_sp x"
  have hok: "heap_ok (lheap l)" by (rule sched_okD(1) [OF ok])
  let ?h = "(lheap l)\<lparr>hraw := (hraw (lheap l))(?a := None), hfree := ?a # hfree (lheap l)\<rparr>"
  have fr: "free_raw ?a (lheap l) = Some ?h" using st by (auto simp: free_raw_def)
  have "heap_base ?h" using base_free(4) [OF heap_ok_base [OF hok], of ?a] st by (auto simp: heap_base_def domIff)
  with heap_ok_frame [OF hok, of ?h] have h: "heap_ok ?h" "contents ?h = contents (lheap l)" by simp_all
  let ?l = "l\<lparr>cont_val := itimer l, itimer := 0, waiting := (waiting l)[nat (th_id t) := NULL], lheap := ?h,
    thread_table := (thread_table l)[nat (th_id t) := NULL]\<rparr>"
  have ids': "ids_ok ?l used ids" by (rule ids_ok_frame [OF ids(1) h(1)]) simp_all
  from free_ID_law [OF ids' ids(2), of ?a "hfree (lheap l)"] obtain h2 where
    f: "free_ID (th_id t) ?l = Some (?l\<lparr>lheap := h2, tid_list := ?a\<rparr>)"
      "ids_ok (?l\<lparr>lheap := h2, tid_list := ?a\<rparr>) (used - {th_id t}) (th_id t # ids)"
      "heap_ok h2" "hqueues h2 = hqueues ?h" "contents h2 = contents ?h" "hraw h2 = hraw ?h" by auto
  let ?l' = "l\<lparr>cont_val := itimer l, waiting := (waiting l)[nat (th_id t) := NULL], lheap := h2,
    thread_table := (thread_table l)[nat (th_id t) := NULL], tid_list := ?a\<rparr>"
  have "my_pthread_join_resume t value_ptr l = Some (if value_ptr = NULL then None else Some (th_ret x), 0, ?l')"
    using i ids(3) len th fr f(1)
    by (simp add: my_pthread_join_resume_def arr_get_in arr_set_in setitimer_pause_def setitimer_cont_def Let_def)
  moreover have "ids_ok ?l' (used - {th_id t}) (th_id t # ids)"
    by (rule ids_ok_frame [OF f(2,3)]) simp_all
  moreover have "sched_ok ?l'" "ready ?l' = ready l"
    using ok f(3-5) h(2) by (simp_all add: sched_ok_def ready_def)
  ultimately show ?thesis using f(6) by (intro exI [of _ ?l']) simp
qed

end
