(* ===== verification/Thread_Examples.thy ===== *)
theory Thread_Examples
  imports Thread_Join
begin

text \<open>
  A concrete state of the thread library of asst1 with a mutex, a recycled identifier and a
  finished thread, on which the theorems about the calls are applied.

  Thread 100 (identifier 1) runs; 101 (identifier 2) is ready at level 1; 102 (identifier 3,
  level 2) waits for the mutex 200; 104 (identifier 4) has finished with the value 77 and its stack is
  at 12; 103 is a struct not yet in use; identifier 5 is recycled. \<open>u\<close> owns the mutex and
  \<open>w\<close> waits for thread 100 to finish.
\<close>

definition lab_heap :: heap where
  "lab_heap = \<lparr>hnodes = [6 \<mapsto> \<lparr>nd_thread = 101, nd_next = 6\<rparr>, 11 \<mapsto> \<lparr>nd_thread = 102, nd_next = 11\<rparr>],
     hqueues = [1 \<mapsto> \<lparr>q_back = 0, q_size = 0\<rparr>, 2 \<mapsto> \<lparr>q_back = 6, q_size = 1\<rparr>,
       3 \<mapsto> \<lparr>q_back = 0, q_size = 0\<rparr>, 4 \<mapsto> \<lparr>q_back = 0, q_size = 0\<rparr>, 5 \<mapsto> \<lparr>q_back = 0, q_size = 0\<rparr>,
       10 \<mapsto> \<lparr>q_back = 11, q_size = 1\<rparr>],
     htids = [16 \<mapsto> \<lparr>tn_tid = 5, tn_next = 0\<rparr>], hraw = [12 \<mapsto> 8000], hfree = [13, 14, 15]\<rparr>"

definition lab_threads :: "addr \<rightharpoonup> my_pthread" where
  "lab_threads = [100 \<mapsto> demo_thread 1 0 0 active, 101 \<mapsto> demo_thread 2 1 0 active,
     102 \<mapsto> demo_thread 3 2 0 wait_mutex, 103 \<mapsto> demo_thread 0 0 0 active,
     104 \<mapsto> (demo_thread 4 0 0 thread_exit)\<lparr>th_ret := 77, ss_sp := 12\<rparr>]"

definition lab :: "addr \<Rightarrow> addr \<Rightarrow> lib" where
  "lab u w = (lib_start lab_heap lab_threads [200 \<mapsto> \<lparr>m_waiting = 10, m_user = u\<rparr>, 201 \<mapsto> \<lparr>m_waiting = 0, m_user = 9\<rparr>])
     \<lparr>priority_level := [1, 2, 3, 4, 5], running_thread := 100, init := True, itimer := 25,
      thread_count := 6, tid_list := 16, thread_table := [0, 100, 101, 102, 104] @ replicate 995 0,
      waiting := [0, w] @ replicate 998 0, mutex_list := 200 # replicate 999 0,
      done_flag := [0, 0, 0, 0, 1] @ replicate 995 0\<rparr>"

lemma lab_fields [simp]:
  "lheap (lab u w) = lab_heap" "threads (lab u w) = lab_threads" "running_thread (lab u w) = 100"
  "mutexes (lab u w) = [200 \<mapsto> \<lparr>m_waiting = 10, m_user = u\<rparr>, 201 \<mapsto> \<lparr>m_waiting = 0, m_user = 9\<rparr>]"
  "priority_level (lab u w) = [1, 2, 3, 4, 5]" "current_priority (lab u w) = 0" "run_at_priority (lab u w) = 0"
  "init (lab u w)" "itimer (lab u w) = 25" "thread_count (lab u w) = 6" "tid_list (lab u w) = 16"
  by (simp_all add: lab_def lib_start_def)

lemma lab_tables:
  "thread_table (lab u w) = [0, 100, 101, 102, 104] @ replicate 995 0"
  "waiting (lab u w) = [0, w] @ replicate 998 0" "mutex_list (lab u w) = 200 # replicate 999 0"
  "done_flag (lab u w) = [0, 0, 0, 0, 1] @ replicate 995 0"
  unfolding lab_def by simp_all

lemma lab_lengths [simp]:
  "length (thread_table (lab u w)) = 1000" "length (waiting (lab u w)) = 1000"
  "length (mutex_list (lab u w)) = 1000" "length (done_flag (lab u w)) = 1000"
  unfolding lab_tables length_append length_replicate list.size by simp_all

lemma lab_entries [simp]:
  "thread_table (lab u w) ! 4 = 104" "waiting (lab u w) ! 1 = w" "waiting (lab u w) ! Suc 0 = w"
  "done_flag (lab u w) ! 4 = 1" "done_flag (lab u w) ! 2 = 0" "thread_table (lab u w) ! 2 = 101"
  "thread_table (lab u w) ! 7 = 0"
  unfolding lab_tables by (simp_all add: nth_append)

lemma lab_sets [simp]:
  "200 \<in> set (mutex_list (lab u w))" "201 \<notin> set (mutex_list (lab u w))" "0 \<in> set (mutex_list (lab u w))"
  "set (waiting (lab u w)) = {0, w}"
  unfolding lab_tables by (simp_all add: insert_commute)

lemma lab_threads_at [simp]:
  "lab_threads 100 = Some (demo_thread 1 0 0 active)" "lab_threads 102 = Some (demo_thread 3 2 0 wait_mutex)"
  "lab_threads 101 = Some (demo_thread 2 1 0 active)" "lab_threads 103 = Some (demo_thread 0 0 0 active)"
  "lab_threads 104 = Some ((demo_thread 4 0 0 thread_exit)\<lparr>th_ret := 77, ss_sp := 12\<rparr>)"
  by (simp_all add: lab_threads_def)

lemma lab_qnodes:
  "qnodes lab_heap 1 = []" "qnodes lab_heap 2 = [6]" "qnodes lab_heap 3 = []"
  "qnodes lab_heap 4 = []" "qnodes lab_heap 5 = []" "qnodes lab_heap 10 = [11]"
  by (simp_all add: qnodes_def lab_heap_def)

lemma lab_heap_ok: "heap_ok lab_heap"
proof -
  have d: "dom (hqueues lab_heap) = {1, 2, 3, 4, 5, 10}" by (auto simp: lab_heap_def)
  have "queue_ok lab_heap Q (qnodes lab_heap Q)" if "Q \<in> {1, 2, 3, 4, 5, 10}" for Q
    using that lab_qnodes by (auto simp: queue_ok_def ring_def lab_heap_def)
  moreover have "heap_base lab_heap" by (auto simp: heap_base_def base_def lab_heap_def)
  moreover have "dom (hnodes lab_heap) = {6, 11}" by (auto simp: lab_heap_def)
  ultimately show ?thesis unfolding heap_ok_def heap_rep_def d
    by (auto simp: lab_qnodes lab_qnodes(1) [unfolded One_nat_def])
qed

lemma lab_contents:
  "contents lab_heap 1 = []" "contents lab_heap 2 = [101]" "contents lab_heap 3 = []"
  "contents lab_heap 4 = []" "contents lab_heap 5 = []" "contents lab_heap 10 = [102]"
  using lab_qnodes by (simp_all add: contents_def) (simp_all add: lab_heap_def)

lemma lab_ready: "ready (lab u w) = [[], [101], [], [], []]"
  using lab_contents by (simp add: ready_def)

lemma lab_room [simp]: "room (lab u w) = 3"
  by (simp add: room_def lab_heap_def)

lemma lab_ok: "sched_ok (lab u w)"
  using lab_heap_ok by (auto simp: sched_ok_def lab_ready) (auto simp: lab_heap_def)

lemma lab_ids: "ids_ok (lab u w) {1, 2, 3, 4} [5]"
  using lab_heap_ok by (auto simp: ids_ok_def lab_heap_def intro!: exI [of _ "[16]"])

lemma lab_waiters: "waiters (lab u w) 200 = [102]" "owner (lab u w) 200 = u"
  using lab_contents by (simp_all add: waiters_def owner_def)

lemma lab_mutex_ok: "mutex_ok (lab u w) 200"
  by (auto simp: mutex_ok_def lab_waiters prio_ok_def) (auto simp: lab_heap_def)

lemma list_update_2 [simp]: "(a # b # c # xs)[2 := v] = a # b # v # xs"
  by (simp add: numeral_2_eq_2)

section \<open>The theorems applied\<close>

theorem free_ID_recycles_witness:
  "\<exists>l' l''. free_ID 3 (lab 0 0) = Some l' \<and> ids_ok l' {1, 2, 4} [3, 5] \<and> get_ID l' = Some (3, l'')"
proof -
  have "{1, 2, 3, 4} - {3} = {1, 2, 4 :: int}" by auto
  then show ?thesis using free_ID_recycles [OF lab_ids, of 3 0 0] by auto
qed

theorem lock_contended_witness:
  "\<exists>l'. my_pthread_mutex_lock_enter 200 (lab 101 0) = Some (Raise, l') \<and> waiters l' 200 = [102, 100] \<and>
     owner l' 200 = 101"
  using lock_contended [OF lab_ok lab_mutex_ok, of 101 0 "demo_thread 1 0 0 active"]
  by (auto simp: lab_waiters)

theorem unlock_hands_over_witness:
  "\<exists>l'. my_pthread_mutex_unlock 200 (lab 100 0) = Some (0, l') \<and> owner l' 200 = 102 \<and>
     ready l' = [[], [101], [102], [], []]"
  using unlock_hands_over [OF lab_ok lab_mutex_ok, of 100 0]
  by (auto simp: lab_waiters lab_ready level_of_def)

theorem mutex_init_ok_witness:
  "\<exists>l'. my_pthread_mutex_init 201 0 (lab 0 0) = Some (0, l') \<and> mutex_ok l' 201 \<and> waiters l' 201 = []"
  using mutex_init_ok [OF lab_ok, of 0 0 201 "\<lparr>m_waiting = 0, m_user = 9\<rparr>" 0] by auto

theorem mutex_init_busy_loses_waiters_witness:
  "\<exists>l'. my_pthread_mutex_init 200 0 (lab 101 0) = Some (EBUSY, l') \<and> waiters l' 200 = [] \<and> owner l' 200 = 101"
  using mutex_init_busy_loses_waiters [OF lab_ok, of 101 0 200 "\<lparr>m_waiting = 10, m_user = 101\<rparr>" 0]
  by (auto simp: lab_waiters)

theorem destroy_decides_witness:
  "(\<exists>l'. my_pthread_mutex_destroy 200 (lab 100 0) = Some (EBUSY, l') \<and> itimer l' = 0) \<and>
   (\<exists>l'. my_pthread_mutex_destroy 200 (lab 0 0) = Some (0, l') \<and> ready l' = [[], [101], [102], [], []] \<and> 200 \<in> set (mutex_list l'))"
proof -
  have e: "200 \<in> set (mutex_list (lab u w))" "owner (lab u w) 200 = u" for u w by (simp_all add: owner_def)
  show ?thesis
    using destroy_decides [OF lab_ok lab_mutex_ok, of 100 0 0] destroy_decides [OF lab_ok lab_mutex_ok, of 0 0 0]
    by (auto simp: lab_waiters lab_ready release_def level_of_def e)
qed

theorem create_ok_witness:
  "\<exists>l'. my_pthread_create \<lparr>gc_main = True, gc_thread = True, junk_thread = demo_thread 7 7 7 yield\<rparr> 103 0
      (lab 0 0) = Some (0, l') \<and> ready l' = [[103], [101], [], [], []]"
  using create_ok [of "lab 0 0" "\<lparr>gc_main = True, gc_thread = True, junk_thread = demo_thread 7 7 7 yield\<rparr>"
      "{1, 2, 3, 4}" "[5]" 103 "demo_thread 0 0 0 active" 0] lab_ok lab_ids
  by (auto simp: lab_ready)

theorem exit_wakes_joiner_witness:
  "\<exists>l'. pthread_exit 55 (lab 0 102) = Some l' \<and> running_thread l' = 101 \<and>
     ready l' = [[], [], [102], [], []] \<and> map_option th_ret (threads l' 100) = Some 55"
  using exit_wakes_joiner [OF lab_ok, of 0 102 "demo_thread 1 0 0 active" 102 "demo_thread 3 2 0 wait_mutex" 55]
  by (auto simp: dispatched_def lab_ready pick_def upt_rec)

theorem exit_unjoined_witness:
  "\<exists>l'. pthread_exit 55 (lab 0 0) = Some l' \<and> running_thread l' = 101 \<and> ready l' = [[], [], [], [], []]"
proof -
  have "\<exists>p < 5. ready (lab 0 0) ! p \<noteq> []" by (intro exI [of _ 1]) (simp add: lab_ready)
  then show ?thesis
    using exit_unjoined [OF lab_ok, of 0 0 "demo_thread 1 0 0 active" 55]
    by (auto simp: dispatched_def lab_ready pick_def upt_rec)
qed

lemma lab_waiting_ok: "waiting_ok (lab 0 0)"
  by (simp add: waiting_ok_def)


theorem join_collects_witness:
  "\<exists>l'. my_pthread_join_resume (demo_thread 4 0 0 active) 1 (lab 0 0) = Some (Some 77, 0, l') \<and>
     hraw (lheap l') = Map.empty \<and> ids_ok l' ({1, 2, 3, 4} - {4}) [4, 5]"
  using join_collects [of "lab 0 0" "{1, 2, 3, 4}" "[5]" "demo_thread 4 0 0 active"
      "(demo_thread 4 0 0 thread_exit)\<lparr>th_ret := 77, ss_sp := 12\<rparr>" 1] lab_ok [of 0 0] lab_ids [of 0 0]
  by (auto simp: lab_heap_def)

theorem create_overflow_witness:
  "my_pthread_create \<lparr>gc_main = True, gc_thread = True, junk_thread = demo_thread 7 7 7 yield\<rparr> 103 0
     ((lab 0 0)\<lparr>thread_count := 1000, tid_list := 0\<rparr>) = None"
proof -
  let ?l = "(lab 0 0)\<lparr>thread_count := 1000, tid_list := 0\<rparr>"
  have "ids_ok ?l {1..<1000} []" using lab_heap_ok by (auto simp: ids_ok_def intro!: exI [of _ "[]"])
  moreover have "1 \<le> room ?l" by (simp add: room_def lab_heap_def)
  ultimately show ?thesis
    using create_overflow [of ?l "\<lparr>gc_main = True, gc_thread = True, junk_thread = demo_thread 7 7 7 yield\<rparr>"
      "{1..<1000}" 103 "demo_thread 0 0 0 active" 0] by simp
qed

end
