(* ===== verification/Thread_Runs.thy ===== *)
theory Thread_Runs
  imports Thread_System Thread_Examples
begin

text \<open>
  A run of the transition system: thread 100 runs, 101 and 102 are ready at levels 1 and 2, and the mutex 200 is
  free with nobody waiting; 100 locks it and the theorems about reachable states are applied there.
\<close>

definition trio_heap :: heap where
  "trio_heap = lab_heap\<lparr>hqueues := (hqueues lab_heap)(3 \<mapsto> \<lparr>q_back = 11, q_size = 1\<rparr>, 10 \<mapsto> \<lparr>q_back = 0, q_size = 0\<rparr>)\<rparr>"

definition trio :: lib where
  "trio = (lab 0 0)\<lparr>lheap := trio_heap, threads := lab_threads(102 \<mapsto> demo_thread 3 2 0 active)\<rparr>"

lemma trio_fields [simp]:
  "lheap trio = trio_heap" "threads trio = lab_threads(102 \<mapsto> demo_thread 3 2 0 active)" "running_thread trio = 100"
  "mutexes trio = [200 \<mapsto> \<lparr>m_waiting = 10, m_user = 0\<rparr>, 201 \<mapsto> \<lparr>m_waiting = 0, m_user = 9\<rparr>]"
  "priority_level trio = [1, 2, 3, 4, 5]" "current_priority trio = 0" "run_at_priority trio = 0" "itimer trio = 25"
  by (simp_all add: trio_def)

lemma trio_qnodes:
  "qnodes trio_heap 1 = []" "qnodes trio_heap 2 = [6]" "qnodes trio_heap 3 = [11]"
  "qnodes trio_heap 4 = []" "qnodes trio_heap 5 = []" "qnodes trio_heap 10 = []"
  by (simp_all add: qnodes_def trio_heap_def lab_heap_def)

lemma trio_heap_ok: "heap_ok trio_heap"
proof -
  have d: "dom (hqueues trio_heap) = {1, 2, 3, 4, 5, 10}" by (auto simp: trio_heap_def lab_heap_def)
  have "queue_ok trio_heap Q (qnodes trio_heap Q)" if "Q \<in> {1, 2, 3, 4, 5, 10}" for Q
    using that trio_qnodes by (auto simp: queue_ok_def ring_def trio_heap_def lab_heap_def)
  moreover have "heap_base trio_heap" by (auto simp: heap_base_def base_def trio_heap_def lab_heap_def)
  moreover have "dom (hnodes trio_heap) = {6, 11}" by (auto simp: trio_heap_def lab_heap_def)
  ultimately show ?thesis unfolding heap_ok_def heap_rep_def d
    by (auto simp: trio_qnodes trio_qnodes(1) [unfolded One_nat_def])
qed

lemma trio_contents:
  "contents trio_heap 1 = []" "contents trio_heap 2 = [101]" "contents trio_heap 3 = [102]"
  "contents trio_heap 4 = []" "contents trio_heap 5 = []" "contents trio_heap 10 = []"
  using trio_qnodes by (simp_all add: contents_def) (simp_all add: trio_heap_def lab_heap_def)

lemma trio_ready: "ready trio = [[], [101], [102], [], []]"
  using trio_contents by (simp add: ready_def)

lemma trio_mutex: "owner trio 200 = NULL" "waiters trio 200 = []"
  using trio_contents by (simp_all add: waiters_def owner_def)

lemma trio_inv: "lib_inv 200 {100, 101, 102} trio"
proof -
  have "sched_ok trio" using trio_heap_ok by (auto simp: sched_ok_def trio_ready) (auto simp: trio_heap_def lab_heap_def)
  moreover have "mutex_ok trio 200" by (auto simp: mutex_ok_def trio_mutex) (auto simp: trio_heap_def lab_heap_def)
  moreover have "bag 200 trio = mset_set {100, 101, 102}" by (simp add: bag_def trio_ready trio_mutex)
  moreover have "0 < room trio" by (simp add: room_def trio_heap_def lab_heap_def)
  ultimately show ?thesis by (simp add: lib_inv_def trio_mutex prio_ok_def status_of_def demo_thread_def)
qed

text \<open>After one call of lock by thread 100.\<close>

definition trio_locked :: lib where
  "trio_locked = trio\<lparr>cont_val := 25, mutexes := (mutexes trio)(200 \<mapsto> \<lparr>m_waiting = 10, m_user = 100\<rparr>)\<rparr>"

lemma trio_run: "(step 200)\<^sup>*\<^sup>* (start trio) \<lparr>slib = trio_locked, pend = {}, held = {100}\<rparr>"
proof -
  from lock_free [of trio 200 "\<lparr>m_waiting = 10, m_user = 0\<rparr>"] obtain l1 where
    "my_pthread_mutex_lock_enter 200 trio = Some (Go, l1)" "my_pthread_mutex_claim 200 l1 = Some (0, trio_locked)"
    by (auto simp: trio_locked_def)
  then have "step 200 (start trio) ((start trio)\<lparr>slib := trio_locked, held := insert (current (start trio)) (held (start trio))\<rparr>)"
    by (intro step.lock_now) (simp_all add: start_def)
  then show ?thesis by (simp add: start_def)
qed

theorem mutual_exclusion_witness: "owner trio_locked 200 = 100"
  using mutual_exclusion [OF trio_inv trio_mutex trio_run, of 100 100] by simp

theorem system_progress_witness:
  "bag 200 trio_locked = {#100, 101, 102#} \<and> scheduler_alarm_handler trio_locked \<noteq> None \<and>
   (\<exists>c l'. my_pthread_mutex_unlock 200 trio_locked = Some (c, l'))"
  using system_progress [OF trio_inv trio_mutex trio_run] by simp

end
