(* ===== verification/Sfs_Disk.thy ===== *)
theory Sfs_Disk
  imports C_Prelude
begin

text \<open>
  The block layer of the file system of asst3 (\<^verbatim>\<open>src/asst3/assignment3/src/block.c\<close>) over the
  disk file. A byte is a \<open>char\<close> and a buffer is a list of them. \<open>pread\<close> and
  \<open>pwrite\<close> follow POSIX on a regular file: reads stop at the end of the file, writes past it fill
  the gap with zero bytes; a write on an open descriptor succeeds. The tables of block numbers
  inside blocks are arrays of little-endian \<open>short\<close>s.
\<close>

abbreviation (input) NUL :: char where "NUL \<equiv> CHR 0x00"
abbreviation (input) BLOCK_SIZE :: nat where "BLOCK_SIZE \<equiv> 512"

abbreviation zeros :: "nat \<Rightarrow> string" where "zeros n \<equiv> replicate n NUL"

section \<open>Arrays of short in a buffer\<close>

definition get_short :: "string \<Rightarrow> nat \<Rightarrow> int" where
  "get_short b k = to_short (of_char (b ! (2 * k)) + 256 * of_char (b ! (2 * k + 1)))"

definition put_short :: "string \<Rightarrow> nat \<Rightarrow> int \<Rightarrow> string" where
  "put_short b k v = b[2 * k := char_of (v mod 256), 2 * k + 1 := char_of (v div 256 mod 256)]"

lemma length_put_short [simp]: "length (put_short b k v) = length b"
  by (simp add: put_short_def)

lemma to_short_mod: "to_short (v mod 65536) = to_short v"
proof -
  have "(word_of_int (v mod 65536) :: 16 word) = word_of_int v"
    using word_of_int_eq_iff [where 'a = 16] by (simp add: take_bit_eq_mod)
  then show ?thesis by (simp add: to_short_def)
qed

lemma get_put_short:
  "2 * k + 1 < length b \<Longrightarrow> get_short (put_short b k v) j = (if j = k then to_short v else get_short b j)"
proof -
  assume len: "2 * k + 1 < length b"
  have "v mod 256 + 256 * (v div 256 mod 256) = v mod 65536"
    using zmod_zmult2_eq [of 256 v 256] by simp
  moreover have "2 * j \<noteq> 2 * k + 1" "2 * j + 1 \<noteq> 2 * k" by presburger+
  ultimately show ?thesis using len
    by (auto simp: get_short_def put_short_def of_char_of to_short_mod nth_list_update)
qed

lemma get_short_zeros: "2 * k + 1 < n \<Longrightarrow> get_short (zeros n) k = 0"
  by (simp add: get_short_def to_short_id)

section \<open>The disk file\<close>

record disk =
  diskfile :: int
  fd_open :: bool
  dfile :: string

definition pread :: "disk \<Rightarrow> nat \<Rightarrow> int \<Rightarrow> string option" where
  "pread d n off = (if diskfile d < 0 \<or> \<not> fd_open d \<or> off < 0 then None
     else Some (take n (drop (nat off) (dfile d))))"

definition pwrite :: "disk \<Rightarrow> string \<Rightarrow> int \<Rightarrow> disk option" where
  "pwrite d b off = (if diskfile d < 0 \<or> \<not> fd_open d \<or> off < 0 then None
     else Some (d\<lparr>dfile := take (nat off) (dfile d @ zeros (nat off - length (dfile d))) @ b @
                   drop (nat off + length b) (dfile d)\<rparr>))"

text \<open>\<open>r\<close> is what \<open>open\<close> returns; a failure ends the process.\<close>

definition disk_open :: "int \<Rightarrow> disk \<Rightarrow> disk option" where
  "disk_open r d = (if diskfile d \<ge> 0 then Some d
     else if r < 0 then None else Some (d\<lparr>diskfile := r, fd_open := True\<rparr>))"

definition disk_close :: "disk \<Rightarrow> disk" where
  "disk_close d = (if diskfile d \<ge> 0 then d\<lparr>fd_open := False\<rparr> else d)"

definition block_read :: "int \<Rightarrow> string \<Rightarrow> disk \<Rightarrow> int \<times> string" where
  "block_read block_num buf d = (case pread d BLOCK_SIZE (block_num * 512) of
     None \<Rightarrow> (-1, zeros BLOCK_SIZE)
   | Some data \<Rightarrow> if data = [] then (0, zeros BLOCK_SIZE)
       else (int (length data), data @ drop (length data) buf))"

definition block_write :: "int \<Rightarrow> string \<Rightarrow> disk \<Rightarrow> int \<times> disk" where
  "block_write block_num buf d = (case pwrite d buf (block_num * 512) of
     None \<Rightarrow> (-1, d)
   | Some d' \<Rightarrow> (int (length buf), d'))"

section \<open>The disk as an array of blocks\<close>

definition disk_ok :: "disk \<Rightarrow> bool" where
  "disk_ok d \<longleftrightarrow> 0 \<le> diskfile d \<and> fd_open d \<and> 512 dvd length (dfile d)"

definition blk :: "disk \<Rightarrow> int \<Rightarrow> string" where
  "blk d n = (let data = (if n < 0 then [] else take 512 (drop (nat n * 512) (dfile d)))
     in data @ zeros (512 - length data))"

lemma length_blk [simp]: "length (blk d n) = 512"
  by (simp add: blk_def Let_def)

lemma aligned_short_read:
  assumes "512 dvd length f"
  shows "length (take 512 (drop (k * 512) f)) = 0 \<or> length (take 512 (drop (k * 512) f)) = 512"
proof -
  from assms obtain m where m: "length f = 512 * m" by auto
  show ?thesis
  proof (cases "k < m")
    case True
    then have "k * 512 + 512 \<le> length f" using m by simp
    then show ?thesis by simp
  next
    case False
    then show ?thesis using m by simp
  qed
qed

lemma blk_neg: "n < 0 \<Longrightarrow> blk d n = zeros 512"
  by (simp add: blk_def)

lemma block_read_law:
  assumes "disk_ok d" "length buf = 512"
  shows "snd (block_read n buf d) = blk d n"
proof (cases "n < 0")
  case True
  then show ?thesis using assms by (simp add: block_read_def pread_def disk_ok_def blk_neg)
next
  case False
  then have off: "nat (n * 512) = nat n * 512" by (simp add: nat_mult_distrib)
  let ?data = "take 512 (drop (nat n * 512) (dfile d))"
  have "length ?data = 0 \<or> length ?data = 512"
    using assms(1) by (intro aligned_short_read) (simp add: disk_ok_def)
  then show ?thesis
  proof
    assume "length ?data = 0"
    then have "?data = []" by (simp only: length_0_conv)
    then show ?thesis using False assms off by (simp add: block_read_def pread_def disk_ok_def blk_def)
  next
    assume "length ?data = 512"
    then show ?thesis using False assms off
      by (auto simp: block_read_def pread_def disk_ok_def blk_def)
  qed
qed

lemma blk_nth:
  "i < 512 \<Longrightarrow> blk d n ! i =
     (if 0 \<le> n \<and> nat n * 512 + i < length (dfile d) then dfile d ! (nat n * 512 + i) else NUL)"
  by (auto simp: blk_def Let_def nth_append)

lemma block_index_cases:
  fixes k n i :: nat
  assumes "k \<noteq> n" "i < 512"
  shows "k * 512 + i < n * 512 \<or> n * 512 + 512 \<le> k * 512 + i"
  using assms by (cases "k < n") auto

lemma block_write_law:
  assumes ok: "disk_ok d" and n: "0 \<le> n" and b: "length b = 512"
  shows "\<exists>d'. block_write n b d = (512, d') \<and> disk_ok d' \<and> blk d' = (blk d)(n := b)"
proof -
  let ?f = "dfile d" and ?o = "nat n * 512"
  define t where "t = take ?o (?f @ zeros (?o - length ?f))"
  define g where "g = t @ b @ drop (?o + 512) ?f"
  have off: "nat (n * 512) = ?o" using n by (simp add: nat_mult_distrib)
  have lent: "length t = ?o" unfolding t_def by simp
  have lg: "length g = max (?o + 512) (length ?f)" unfolding g_def using b lent by simp
  let ?d = "d\<lparr>dfile := g\<rparr>"
  have "pwrite d b (n * 512) = Some ?d"
    unfolding pwrite_def off t_def [symmetric] b g_def [symmetric] using ok n by (simp add: disk_ok_def)
  then have ev: "block_write n b d = (512, ?d)" using b by (simp add: block_write_def)
  have "512 dvd ?o + 512" by simp
  then have okd: "disk_ok ?d" using ok lg by (simp add: disk_ok_def max_def)
  have t: "t ! j = (if j < length ?f then ?f ! j else NUL)" if "j < ?o" for j
    unfolding t_def nth_take [OF that] using that by (simp add: nth_append)
  have g1: "g ! j = (if j < length ?f then ?f ! j else NUL)" if "j < ?o" for j
    unfolding g_def using that t lent by (simp add: nth_append)
  have g2: "g ! j = b ! (j - ?o)" if "?o \<le> j" "j < ?o + 512" for j
    unfolding g_def using that lent b by (auto simp: nth_append)
  have g3: "g ! j = ?f ! j" if "?o + 512 \<le> j" "j < length ?f" for j
    unfolding g_def using that lent b by (auto simp: nth_append)
  have same: "blk ?d n = b"
    by (rule nth_equalityI) (use b lg n g2 in \<open>auto simp: blk_nth\<close>)
  have other: "blk ?d k = blk d k" if "k \<noteq> n" for k
  proof (rule nth_equalityI)
    fix i
    assume "i < length (blk ?d k)"
    then have i: "i < 512" by simp
    show "blk ?d k ! i = blk d k ! i"
    proof (cases "0 \<le> k")
      case True
      then have "nat k \<noteq> nat n" using that n by simp
      from block_index_cases [OF this i] show ?thesis
      proof
        assume "nat k * 512 + i < ?o"
        then show ?thesis using i True lg g1 by (auto simp: blk_nth)
      next
        assume "?o + 512 \<le> nat k * 512 + i"
        then show ?thesis using i True lg g3 by (auto simp: blk_nth)
      qed
    qed (use i in \<open>simp add: blk_nth\<close>)
  qed simp
  from same other have "blk ?d = (blk d)(n := b)" by (auto simp: fun_eq_iff)
  with ev okd show ?thesis by blast
qed

lemma block_write_neg: "n < 0 \<Longrightarrow> block_write n b d = (-1, d)"
  by (simp add: block_write_def pwrite_def)

section \<open>The block store as an interface\<close>

text \<open>
  What the file system relies on: an array of 512-byte blocks in which a write changes exactly
  the block written. \<open>wr_all\<close> in the lemmas is a loop of block writes.
\<close>

locale block_store =
  fixes ok :: "'d \<Rightarrow> bool" and rd :: "'d \<Rightarrow> int \<Rightarrow> string" and wr :: "int \<Rightarrow> string \<Rightarrow> 'd \<Rightarrow> 'd"
  assumes rd_length: "length (rd d n) = 512"
    and wr_ok: "ok d \<Longrightarrow> length b = 512 \<Longrightarrow> ok (wr n b d)"
    and rd_wr: "ok d \<Longrightarrow> 0 \<le> n \<Longrightarrow> length b = 512 \<Longrightarrow> rd (wr n b d) = (rd d)(n := b)"
    and wr_neg: "n < 0 \<Longrightarrow> wr n b d = d"
begin

lemma wr_all_ok:
  "ok d \<Longrightarrow> \<forall>b \<in> set bs. length b = 512 \<Longrightarrow> ok (fold (\<lambda>(n, b). wr n b) (zip ns bs) d)"
proof (induction bs arbitrary: ns d)
  case (Cons b bs)
  then show ?case by (cases ns) (simp_all add: wr_ok)
qed simp

lemma rd_wr_all_other:
  assumes "ok d" "\<forall>b \<in> set bs. length b = 512" "k \<notin> set ns"
  shows "rd (fold (\<lambda>(n, b). wr n b) (zip ns bs) d) k = rd d k"
  using assms
proof (induction bs arbitrary: ns d)
  case (Cons b bs)
  show ?case
  proof (cases ns)
    case (Cons n ms)
    have "rd (wr n b d) k = rd d k"
      using Cons.prems Cons by (cases "n < 0") (simp_all add: wr_neg rd_wr)
    with Cons.prems Cons.IH [of "wr n b d" ms] Cons show ?thesis by (simp add: wr_ok)
  qed simp
qed simp

lemma rd_wr_all:
  assumes "ok d" "\<forall>b \<in> set bs. length b = 512" "distinct ns" "\<forall>n \<in> set ns. 0 \<le> n" "length bs = length ns"
  shows "map (rd (fold (\<lambda>(n, b). wr n b) (zip ns bs) d)) ns = bs"
  using assms
proof (induction bs arbitrary: ns d)
  case (Cons b bs)
  then obtain n ms where ns: "ns = n # ms" by (cases ns) auto
  have ok': "ok (wr n b d)" using Cons.prems by (simp add: wr_ok)
  have "rd (fold (\<lambda>(n, b). wr n b) (zip ms bs) (wr n b d)) n = b"
    using rd_wr_all_other [OF ok', of bs n ms] Cons.prems ns by (simp add: rd_wr)
  with Cons.IH [OF ok', of ms] Cons.prems ns show ?case by simp
qed simp

end

definition wr_block :: "int \<Rightarrow> string \<Rightarrow> disk \<Rightarrow> disk" where
  "wr_block n b d = snd (block_write n b d)"

interpretation store: block_store disk_ok blk wr_block
proof
  fix d n b
  show "length (blk d n) = 512" by simp
  show "disk_ok d \<Longrightarrow> 0 \<le> n \<Longrightarrow> length b = 512 \<Longrightarrow> blk (wr_block n b d) = (blk d)(n := b)"
    using block_write_law [of d n b] by (auto simp: wr_block_def)
  show "n < 0 \<Longrightarrow> wr_block n b d = d" by (simp add: wr_block_def block_write_neg)
  show "disk_ok d \<Longrightarrow> length b = 512 \<Longrightarrow> disk_ok (wr_block n b d)"
    using block_write_law [of d n b] by (cases "n < 0") (auto simp: wr_block_def block_write_neg)
qed

text \<open>
  The block layer is a store of blocks: a block that was written reads back as written,
  with the full count from both calls; every other block reads as before, whatever the buffer held.
\<close>

theorem block_roundtrip:
  assumes ok: "disk_ok d" and n: "0 \<le> n" and b: "length b = 512" and buf: "length buf = 512"
  shows "\<exists>d'. block_write n b d = (512, d') \<and> disk_ok d' \<and> block_read n buf d' = (512, b) \<and>
    (\<forall>m. m \<noteq> n \<longrightarrow> snd (block_read m buf d') = snd (block_read m buf d))"
proof -
  from block_write_law [OF ok n b] obtain d' where
    d': "block_write n b d = (512, d')" "disk_ok d'" "blk d' = (blk d)(n := b)" by blast
  have "snd (block_read n buf d') = b" using block_read_law [OF d'(2) buf] d'(3) by simp
  moreover have "fst (block_read n buf d') = 512"
  proof -
    have "nat (n * 512) = nat n * 512" using n by (simp add: nat_mult_distrib)
    moreover have "nat n * 512 + 512 \<le> length (dfile d')"
      using d'(1) ok n b by (auto simp: block_write_def pwrite_def disk_ok_def nat_mult_distrib)
    ultimately show ?thesis using d'(2) n by (auto simp: block_read_def pread_def disk_ok_def)
  qed
  moreover have "snd (block_read m buf d') = snd (block_read m buf d)" if "m \<noteq> n" for m
    using that block_read_law [OF d'(2) buf] block_read_law [OF ok buf] d'(3) by simp
  ultimately show ?thesis using d'(1,2) by (metis prod.collapse)
qed

theorem block_roundtrip_witness:
  "\<exists>d'. block_write 3 (replicate 512 CHR ''x'') \<lparr>diskfile = 3, fd_open = True, dfile = []\<rparr> = (512, d') \<and>
     block_read 3 (zeros 512) d' = (512, replicate 512 CHR ''x'')"
  using block_roundtrip [of "\<lparr>diskfile = 3, fd_open = True, dfile = []\<rparr>" 3 "replicate 512 CHR ''x''" "zeros 512"]
  by (auto simp: disk_ok_def)

end
