(* ===== verification/Sfs_Core.thy ===== *)
theory Sfs_Core
  imports Sfs_Disk
begin

text \<open>
  The tables of the file system of asst3 (\<^verbatim>\<open>src/asst3/assignment3/src/sfs.c\<close>, lines 61 to 317, and
  \<^verbatim>\<open>params.h\<close>) and the functions over them: inodes, path mappings, file handles, the block bitmap,
  the direct, single and double indirect block map, and the path helpers.

  A function that takes a pointer \<^verbatim>\<open>&inode_table[k]\<close> takes the index \<open>k\<close>. A path or a name is a C
  string: the characters before its terminating null. \<open>junk\<close> is the content of an
  uninitialised 512-byte buffer; \<open>stray\<close> lists the indices outside \<open>disk_blocks\<close> that the
  program stored to (such a store hits other memory, none of it part of this state).
\<close>

section \<open>Data\<close>

record stat =
  st_mode :: "32 word"
  st_nlink :: "64 word"
  st_uid :: int
  st_gid :: int
  st_size :: int
  st_blocks :: int
  st_atime :: int
  st_mtime :: int
  st_ctime :: int

record path_map =
  p_avail :: int
  p_ino :: int
  p_path :: string

record inode =
  i_avail :: int
  i_stat :: stat
  i_blocks :: "int list"

record file_entry =
  refcnt :: int
  f_ino :: int
  f_pos :: int

abbreviation (input) MAX_NODES :: nat where "MAX_NODES \<equiv> 128"
abbreviation (input) MAX_LINK :: nat where "MAX_LINK \<equiv> 128"
abbreviation (input) NUM_BLOCKS :: nat where "NUM_BLOCKS \<equiv> 32768"
abbreviation (input) MAX_PATH_LEN :: nat where "MAX_PATH_LEN \<equiv> 128"
abbreviation (input) MAX_FILE_BLOCKS :: int where "MAX_FILE_BLOCKS \<equiv> 1110"
abbreviation (input) ALLOCD :: int where "ALLOCD \<equiv> 1"
abbreviation (input) FREE :: int where "FREE \<equiv> 0"

record sfs =
  sdisk :: disk
  inode_table :: "inode list"
  name_table :: "path_map list"
  open_files :: "file_entry list"
  disk_blocks :: "int list"
  root_inode :: int
  root_block :: int
  system_block :: int
  cwd_inode :: int
  key_val :: "64 word"
  stray :: "int list"
  junk :: string

definition zero_stat :: stat where
  "zero_stat = \<lparr>st_mode = 0, st_nlink = 0, st_uid = 0, st_gid = 0, st_size = 0, st_blocks = 0,
     st_atime = 0, st_mtime = 0, st_ctime = 0\<rparr>"

text \<open>Stores to one element of a table.\<close>

definition upd_inode :: "int \<Rightarrow> (inode \<Rightarrow> inode) \<Rightarrow> sfs \<Rightarrow> sfs option" where
  "upd_inode k f s = do {
     n \<leftarrow> arr_get (inode_table s) k;
     tab \<leftarrow> arr_set (inode_table s) k (f n);
     Some (s\<lparr>inode_table := tab\<rparr>) }"

definition upd_stat :: "int \<Rightarrow> (stat \<Rightarrow> stat) \<Rightarrow> sfs \<Rightarrow> sfs option" where
  "upd_stat k f s = upd_inode k (\<lambda>n. n\<lparr>i_stat := f (i_stat n)\<rparr>) s"

definition put_disk_block :: "int \<Rightarrow> int \<Rightarrow> sfs \<Rightarrow> sfs" where
  "put_disk_block k v s = (case arr_set (disk_blocks s) k v of
     None \<Rightarrow> s\<lparr>stray := k # stray s\<rparr>
   | Some db \<Rightarrow> s\<lparr>disk_blocks := db\<rparr>)"

text \<open>A block read into a buffer, and a block written, by the functions of the block layer.\<close>

definition rd_blk :: "int \<Rightarrow> string \<Rightarrow> sfs \<Rightarrow> string" where
  "rd_blk n buf s = snd (block_read n buf (sdisk s))"

definition wr_blk :: "int \<Rightarrow> string \<Rightarrow> sfs \<Rightarrow> sfs" where
  "wr_blk n buf s = s\<lparr>sdisk := snd (block_write n buf (sdisk s))\<rparr>"

section \<open>Inodes\<close>

definition get_inode :: "sfs \<Rightarrow> int \<times> sfs" where
  "get_inode s =
     (let i = scan (\<lambda>n. i_avail n = FREE) (inode_table s)
      in if i < 0 then (-1, s)
         else (i, s\<lparr>inode_table := (inode_table s)[nat i :=
                (inode_table s ! nat i)\<lparr>i_avail := ALLOCD, i_blocks := replicate 12 (-1)\<rparr>]\<rparr>))"

text \<open>The loops of \<open>free_inode\<close> over an array of block numbers; they stop at the first that is not positive.\<close>

fun free_listed :: "int list \<Rightarrow> sfs \<Rightarrow> sfs" where
  "free_listed [] s = s"
| "free_listed (b # bs) s = (if b > 0 then free_listed bs (put_disk_block b FREE s) else s)"

definition shorts :: "string \<Rightarrow> nat \<Rightarrow> int list" where
  "shorts buf n = map (get_short buf) [0..<n]"

fun free_sub_listed :: "int list \<Rightarrow> sfs \<Rightarrow> sfs" where
  "free_sub_listed [] s = s"
| "free_sub_listed (b # bs) s =
     (if b > 0
      then free_sub_listed bs (put_disk_block b FREE (free_listed (shorts (rd_blk b (junk s) s) 100) s))
      else s)"

definition free_inode :: "int \<Rightarrow> sfs \<Rightarrow> sfs option" where
  "free_inode st_ino s = do {
     s \<leftarrow> upd_stat st_ino (\<lambda>t. t\<lparr>st_nlink := st_nlink t - 1\<rparr>) s;
     n \<leftarrow> arr_get (inode_table s) st_ino;
     if st_nlink (i_stat n) > 0 then Some s
     else do {
       s \<leftarrow> upd_stat st_ino (\<lambda>_. zero_stat) s;
       b11 \<leftarrow> arr_get (i_blocks n) 11;
       let s = (if b11 > 0
                then put_disk_block b11 FREE (free_sub_listed (shorts (rd_blk b11 (junk s) s) 10) s)
                else s);
       b10 \<leftarrow> arr_get (i_blocks n) 10;
       let s = (if b10 > 0
                then put_disk_block b10 FREE (free_listed (shorts (rd_blk b10 (junk s) s) 100) s)
                else s);
       let s = fold (\<lambda>b. put_disk_block b FREE) (take 10 (i_blocks n)) s;
       upd_inode st_ino (\<lambda>n. n\<lparr>i_blocks := replicate 10 (-1) @ drop 10 (i_blocks n), i_avail := FREE\<rparr>) s } }"

section \<open>Path mappings and file handles\<close>

definition get_mapping :: "sfs \<Rightarrow> int \<times> sfs" where
  "get_mapping s =
     (let i = scan (\<lambda>m. p_avail m = FREE) (name_table s)
      in if i < 0 then (-1, s)
         else (i, s\<lparr>name_table := (name_table s)[nat i := (name_table s ! nat i)\<lparr>p_avail := ALLOCD\<rparr>]\<rparr>))"

definition free_mapping :: "int \<Rightarrow> sfs \<Rightarrow> sfs option" where
  "free_mapping mapping s = do {
     tab \<leftarrow> arr_set (name_table s) mapping \<lparr>p_avail = FREE, p_ino = -1, p_path = []\<rparr>;
     Some (s\<lparr>name_table := tab\<rparr>) }"

definition get_fh :: "sfs \<Rightarrow> int" where
  "get_fh s = scan (\<lambda>f. f_ino f < 0) (open_files s)"

definition free_fh :: "int \<Rightarrow> sfs \<Rightarrow> sfs option" where
  "free_fh fh s = do {
     tab \<leftarrow> arr_set (open_files s) fh \<lparr>refcnt = 0, f_ino = -1, f_pos = 0\<rparr>;
     Some (s\<lparr>open_files := tab\<rparr>) }"

definition path_lookup :: "string \<Rightarrow> sfs \<Rightarrow> int" where
  "path_lookup path s = scan (\<lambda>m. p_path m = path) (name_table s)"

section \<open>Blocks\<close>

text \<open>
  The counter of \<open>get_block\<close> is a \<open>short\<close>: it never reaches \<open>NUM_BLOCKS\<close>, and with no
  free block it wraps to -32768 and the array is read out of range.
\<close>

definition get_block :: "sfs \<Rightarrow> (int \<times> sfs) option" where
  "get_block s =
     (let i = scan (\<lambda>b. b = FREE) (disk_blocks s)
      in if i < 0 then None else Some (i, s\<lparr>disk_blocks := (disk_blocks s)[nat i := ALLOCD]\<rparr>))"

definition free_block :: "int \<Rightarrow> sfs \<Rightarrow> sfs" where
  "free_block i s = put_disk_block i FREE s"

definition get_block_index :: "int \<Rightarrow> int \<Rightarrow> sfs \<Rightarrow> int option" where
  "get_block_index k num s = do {
     let block_num = to_short num;
     inode \<leftarrow> arr_get (inode_table s) k;
     if block_num < 10 then arr_get (i_blocks inode) block_num
     else if block_num < 110 then do {
       b \<leftarrow> arr_get (i_blocks inode) 10;
       let buf = rd_blk b (junk s) s;
       Some (get_short buf (nat (block_num - 10))) }
     else if block_num < 1110 then do {
       b \<leftarrow> arr_get (i_blocks inode) 11;
       let buf = rd_blk b (junk s) s;
       let sub_index = get_short buf (nat ((block_num - 110) div 100));
       let buf = rd_blk sub_index buf s;
       Some (get_short buf (nat ((block_num - 110) mod 100))) }
     else Some (-1) }"

text \<open>The loops that set the first \<open>n\<close> numbers of a buffer to -1.\<close>

definition clear_shorts :: "nat \<Rightarrow> string \<Rightarrow> string" where
  "clear_shorts n buf = fold (\<lambda>i b. put_short b i (-1)) [0..<n] buf"

definition set_blocks :: "int \<Rightarrow> int \<Rightarrow> int \<Rightarrow> sfs \<Rightarrow> sfs option" where
  "set_blocks k i v s = do {
     n \<leftarrow> arr_get (inode_table s) k;
     bs \<leftarrow> arr_set (i_blocks n) i v;
     upd_inode k (\<lambda>n. n\<lparr>i_blocks := bs\<rparr>) s }"

definition set_block_index :: "int \<Rightarrow> int \<Rightarrow> int \<Rightarrow> sfs \<Rightarrow> sfs option" where
  "set_block_index k num index s = do {
     let block_num = to_short num;
     inode \<leftarrow> arr_get (inode_table s) k;
     if block_num < 10 then set_blocks k block_num index s
     else if block_num < 110 then do {
       b10 \<leftarrow> arr_get (i_blocks inode) 10;
       (b, buf, s) \<leftarrow>
         (if b10 < 0 then do {
            (b, s) \<leftarrow> get_block s;
            s \<leftarrow> set_blocks k 10 b s;
            Some (b, clear_shorts 100 (rd_blk b (junk s) s), s) }
          else Some (b10, rd_blk b10 (junk s) s, s));
       let buf = put_short buf (nat (block_num - 10)) index;
       Some (wr_blk b buf s) }
     else if block_num \<le> 1110 then do {
       b11 \<leftarrow> arr_get (i_blocks inode) 11;
       (b, buf, s) \<leftarrow>
         (if b11 < 0 then do {
            (b, s) \<leftarrow> get_block s;
            s \<leftarrow> set_blocks k 11 b s;
            let buf = clear_shorts 10 (junk s);
            Some (b, buf, wr_blk b buf s) }
          else Some (b11, rd_blk b11 (junk s) s, s));
       let q = nat ((block_num - 110) div 100);
       (sub_index, buf, s) \<leftarrow>
         (if get_short buf q < 0 then do {
            (c, s) \<leftarrow> get_block s;
            let buf = put_short buf q c;
            let s = wr_blk b buf s;
            Some (c, clear_shorts 100 buf, s) }
          else Some (get_short buf q, rd_blk (get_short buf q) buf s, s));
       let buf = put_short buf (nat ((block_num - 110) mod 100)) index;
       Some (wr_blk sub_index buf s) }
     else Some s }"

section \<open>Paths and strings\<close>

definition last_slash :: "string \<Rightarrow> int" where
  "last_slash path = fold (\<lambda>i pos. if path ! i = CHR ''/'' then int i else pos) [0..<length path] (-1)"

text \<open>
  \<open>get_cwd_path\<close> and \<open>get_name\<close> fill a zeroed buffer of 255 bytes; the value is the string
  there afterwards.
\<close>

definition get_cwd_path :: "string \<Rightarrow> (int \<times> string) option" where
  "get_cwd_path path =
     (if path = ''/'' then Some (0, ''/'')
      else let pos = last_slash path
        in if pos < 0 then Some (-1, [])
           else if pos = 0 then Some (0, ''/'')
           else if pos \<ge> 255 then None
           else Some (0, take (nat pos) path))"

definition get_name :: "string \<Rightarrow> string option" where
  "get_name path =
     (if path = ''/'' then Some ''/''
      else let pos = last_slash path
        in if pos < 0 then Some []
           else if int (length path) - pos > 255 then None
           else Some (drop (nat pos + 1) path))"

text \<open>\<open>strstr\<close>: the first place where \<open>t\<close> occurs in \<open>s\<close>.\<close>

fun strstr :: "string \<Rightarrow> string \<Rightarrow> nat option" where
  "strstr [] t = (if t = [] then Some 0 else None)"
| "strstr (c # s) t = (if take (length t) (c # s) = t then Some 0 else map_option Suc (strstr s t))"

lemma strstr_Some: "strstr s t = Some k \<Longrightarrow> take (length t) (drop k s) = t \<and> k + length t \<le> length s"
proof (induction s arbitrary: k)
  case (Cons c s)
  show ?case
  proof (cases "take (length t) (c # s) = t")
    case True
    then have "length t \<le> length (c # s)" by (metis length_take min.cobounded1)
    with Cons True show ?thesis by auto
  qed (use Cons in auto)
qed (auto split: if_splits)

text \<open>
  \<open>removeSubstring\<close>: remove an occurrence and search on from the same place. With an empty
  pattern the loop of the source never ends.
\<close>

function removeSubstring :: "string \<Rightarrow> string \<Rightarrow> string option" where
  "removeSubstring s toremove =
     (if toremove = [] then None
      else case strstr s toremove of
        None \<Rightarrow> Some s
      | Some k \<Rightarrow> map_option ((@) (take k s)) (removeSubstring (drop (k + length toremove) s) toremove))"
  by pat_completeness auto
termination
proof (relation "measure (\<lambda>(s, _). length s)")
  fix s toremove :: string and k
  assume t: "toremove \<noteq> []" and "strstr s toremove = Some k"
  from strstr_Some [OF this(2)] have "k + length toremove \<le> length s" by blast
  moreover have "0 < length toremove" using t by simp
  ultimately have "length (drop (k + length toremove) s) < length s" unfolding length_drop by linarith
  then show "((drop (k + length toremove) s, toremove), (s, toremove)) \<in> measure (\<lambda>(s, _). length s)" by simp
qed simp

declare removeSubstring.simps [simp del]

text \<open>A path used as the format of \<open>sprintf\<close> with no further argument.\<close>

fun sprintf_path :: "string \<Rightarrow> string option" where
  "sprintf_path [] = Some []"
| "sprintf_path [c] = (if c = CHR ''%'' then None else Some [c])"
| "sprintf_path (c # d # cs) =
     (if c \<noteq> CHR ''%'' then map_option ((#) c) (sprintf_path (d # cs))
      else if d = CHR ''%'' then map_option ((#) CHR ''%'') (sprintf_path cs)
      else None)"

text \<open>The conversion \<^verbatim>\<open>%i\<close>.\<close>

fun print_nat :: "nat \<Rightarrow> string" where
  "print_nat n = (if n < 10 then [char_of (48 + n)] else print_nat (n div 10) @ [char_of (48 + n mod 10)])"

declare print_nat.simps [simp del]

definition print_int :: "int \<Rightarrow> string" where
  "print_int i = (if i < 0 then CHR ''-'' # print_nat (nat (- i)) else print_nat (nat i))"

text \<open>The C string at the start of a buffer; a buffer with no null is read past its end.\<close>

definition cstr :: "string \<Rightarrow> string option" where
  "cstr b = (if NUL \<in> set b then Some (takeWhile (\<lambda>c. c \<noteq> NUL) b) else None)"

end
