(* ===== verification/Sfs_Ops.thy ===== *)
theory Sfs_Ops
  imports Sfs_Core
begin

unbundle bit_operations_syntax

text \<open>
  The file-system operations of asst3 (\<^verbatim>\<open>src/asst3/assignment3/src/sfs.c\<close>, lines 319 to 1161) that FUSE
  calls. \<open>fuse_env\<close> is what the operating system answers to \<open>getuid\<close>, \<open>getgid\<close>,
  \<open>time\<close> and \<open>access\<close>. A result is the return code, what the call gives back (attributes, a
  file handle, data, names) and the new state. Sizes and offsets are 64 bits wide; \<open>u64\<close> is
  the wrap-around of unsigned arithmetic. Logging is left out and \<open>malloc\<close> succeeds.
\<close>

record fuse_env =
  e_uid :: int
  e_gid :: int
  e_time :: int
  e_access :: int

abbreviation (input) S_IFMT :: "32 word" where "S_IFMT \<equiv> 0xF000"
abbreviation (input) S_IFDIR :: "32 word" where "S_IFDIR \<equiv> 0x4000"
abbreviation (input) S_IFREG :: "32 word" where "S_IFREG \<equiv> 0x8000"
abbreviation (input) S_RWXA :: "32 word" where "S_RWXA \<equiv> 0x1FF"

definition u64 :: "int \<Rightarrow> int" where
  "u64 i = i mod 18446744073709551616"

definition new_stat :: "fuse_env \<Rightarrow> 32 word \<Rightarrow> 64 word \<Rightarrow> int \<Rightarrow> int \<Rightarrow> stat" where
  "new_stat e mode nlink bytes blocks = \<lparr>st_mode = mode, st_nlink = nlink, st_uid = e_uid e, st_gid = e_gid e,
     st_size = bytes, st_blocks = blocks, st_atime = e_time e, st_mtime = e_time e, st_ctime = e_time e\<rparr>"

section \<open>Mounting and unmounting\<close>

text \<open>\<open>KEY\<close> as it lies on the disk.\<close>

definition key_bytes :: string where
  "key_bytes = map char_of [0x25, 0xB8, 0x51, 0xEF, 0x4B, 0x14, 0xC4, 0xA7 :: nat]"

text \<open>The number of blocks the tables take: \<open>(reserve + BLOCK_SIZE) / BLOCK_SIZE\<close> with 107536 bytes to save.\<close>

definition reserve_blocks :: nat where
  "reserve_blocks = (8 + 128 * 176 + 128 * 136 + 32768 * 2 + 128 * 16 + 2 * 4 + 512) div 512"

text \<open>The search from block \<open>NUM_BLOCKS\<close> down to block 1.\<close>

fun find_key :: "nat \<Rightarrow> string \<Rightarrow> sfs \<Rightarrow> nat option" where
  "find_key 0 buf s = None"
| "find_key (Suc n) buf s =
     (let buf = rd_blk (int (Suc n)) buf s
      in if take 8 buf = key_bytes then Some (Suc n) else find_key n buf s)"

definition empty_tables :: "sfs \<Rightarrow> sfs" where
  "empty_tables s = s\<lparr>
     inode_table := replicate MAX_NODES \<lparr>i_avail = FREE, i_stat = zero_stat, i_blocks = replicate 12 0\<rparr>,
     name_table := replicate MAX_LINK \<lparr>p_avail = FREE, p_ino = 0, p_path = []\<rparr>,
     open_files := replicate MAX_LINK \<lparr>refcnt = 0, f_ino = 0, f_pos = 0\<rparr>,
     disk_blocks := replicate NUM_BLOCKS FREE\<rparr>"

definition truncate_disk :: "nat \<Rightarrow> sfs \<Rightarrow> sfs" where
  "truncate_disk n s = s\<lparr>sdisk := (sdisk s)\<lparr>dfile := take n (dfile (sdisk s)) @ zeros (n - length (dfile (sdisk s)))\<rparr>\<rparr>"

text \<open>
  The tables are copied to and from the disk as raw memory. \<open>load_tables\<close> and
  \<open>save_tables\<close> stand for the platform's representation of the structs: the bytes of
  \<open>inode_table\<close>, \<open>name_table\<close>, \<open>disk_blocks\<close>, \<open>open_files\<close>, \<open>root_inode\<close> and \<open>root_block\<close>.
\<close>

definition sfs_init :: "(string \<Rightarrow> sfs \<Rightarrow> sfs) \<Rightarrow> fuse_env \<Rightarrow> int \<Rightarrow> sfs \<Rightarrow> sfs option" where
  "sfs_init load_tables e fd s = do {
     d \<leftarrow> disk_open fd (sdisk s);
     let s = s\<lparr>sdisk := d\<rparr>;
     (case find_key NUM_BLOCKS (junk s) s of
        Some b \<Rightarrow> do {
          let s = s\<lparr>system_block := int b\<rparr>;
          let image = concat (map (\<lambda>i. rd_blk (int b + int i) (junk s) s) [0..<reserve_blocks]);
          let s = load_tables (drop 8 image) s;
          Some (s\<lparr>cwd_inode := root_inode s\<rparr>) }
      | None \<Rightarrow> do {
          let s = s\<lparr>system_block := int NUM_BLOCKS - int reserve_blocks\<rparr>;
          let s = empty_tables (truncate_disk (NUM_BLOCKS * BLOCK_SIZE) s);
          let (r, s) = get_inode s;
          s \<leftarrow> upd_stat r (\<lambda>_. new_stat e (S_IFDIR OR S_RWXA) 2 512 1) (s\<lparr>root_inode := r\<rparr>);
          s \<leftarrow> upd_inode r (\<lambda>n. n\<lparr>i_blocks := replicate 12 (-1)\<rparr>) s;
          let s = s\<lparr>open_files := map (\<lambda>f. f\<lparr>f_ino := -1\<rparr>) (open_files s)\<rparr>;
          let (m, s) = get_mapping s;
          nt \<leftarrow> arr_set (name_table s) m \<lparr>p_avail = ALLOCD, p_ino = r, p_path = ''/''\<rparr>;
          let s = s\<lparr>name_table := nt\<rparr>;
          (b, s) \<leftarrow> get_block s;
          s \<leftarrow> set_block_index r 0 b (s\<lparr>root_block := b\<rparr>);
          let s = wr_blk 0 (zeros 512) s;
          let s = wr_blk 0 (''./0/../0'' @ [NUL] @ drop 9 (junk s)) s;
          upd_stat r (\<lambda>t. t\<lparr>st_size := 9\<rparr>) s }) }"

definition sfs_destroy :: "(sfs \<Rightarrow> string) \<Rightarrow> sfs \<Rightarrow> sfs" where
  "sfs_destroy save_tables s =
     (let s = s\<lparr>key_val := 0xA7C4144BEF51B825\<rparr>;
          image = key_bytes @ save_tables s;
          buf = image @ drop (length image) (concat (replicate reserve_blocks (junk s)));
          s = fold (\<lambda>i. wr_blk (system_block s + int i) (take 512 (drop (512 * i) buf))) [0..<reserve_blocks] s
      in s\<lparr>sdisk := disk_close (sdisk s)\<rparr>)"

section \<open>Attributes, handles\<close>

definition sfs_getattr :: "fuse_env \<Rightarrow> string \<Rightarrow> sfs \<Rightarrow> (int \<times> stat) option" where
  "sfs_getattr e path s =
     (let mapping = path_lookup path s
      in if mapping < 0 then Some (-ENOENT, new_stat e (S_IFREG OR S_RWXA) 1 0 0)
         else do {
           n \<leftarrow> arr_get (inode_table s) mapping;
           Some (0, i_stat n) })"

definition sfs_open :: "fuse_env \<Rightarrow> string \<Rightarrow> sfs \<Rightarrow> (int \<times> int option \<times> sfs) option" where
  "sfs_open e path s =
     (let mapping = path_lookup path s
      in if mapping < 0 then Some (-ENOENT, None, s)
         else do {
           m \<leftarrow> arr_get (name_table s) mapping;
           if e_access e = EACCES then Some (-EACCES, None, s)
           else do {
             n \<leftarrow> arr_get (inode_table s) (p_ino m);
             if st_mode (i_stat n) AND S_IFMT = S_IFDIR then Some (-EISDIR, None, s)
             else do {
               let retstat = get_fh s;
               if retstat < 0 then Some (-ENOMEM, None, s)
               else do {
                 fs \<leftarrow> arr_set (open_files s) retstat \<lparr>refcnt = 1, f_ino = p_ino m, f_pos = 0\<rparr>;
                 Some (retstat, Some retstat, s\<lparr>open_files := fs\<rparr>) } } } })"

definition sfs_release :: "int \<Rightarrow> sfs \<Rightarrow> (int \<times> sfs) option" where
  "sfs_release fh s = do { s \<leftarrow> free_fh fh s; Some (0, s) }"

section \<open>Reading and writing\<close>

text \<open>
  The number of blocks a transfer of \<open>len\<close> bytes at \<open>offset\<close> touches, as the code
  computes it: unsigned 64-bit arithmetic converted to \<open>int\<close>.
\<close>

definition xfer_blocks :: "int \<Rightarrow> int \<Rightarrow> int" where
  "xfer_blocks len offset =
     (let block_offset = c_mod offset 512
      in to_int (u64 ((if block_offset \<noteq> 0 then 1 else 0) +
           u64 (len - (if block_offset \<noteq> 0 then 512 - block_offset else 0)) div 512 +
           (if u64 (offset + len) mod 512 \<noteq> 0 then 1 else 0))))"

text \<open>The read loop: blocks \<open>first\<close>, \<open>first + 1\<close>, ... of the file, \<open>n\<close> of them.\<close>

fun read_loop :: "int \<Rightarrow> int \<Rightarrow> nat \<Rightarrow> sfs \<Rightarrow> string option" where
  "read_loop ino first 0 s = Some []"
| "read_loop ino first (Suc n) s = do {
     b \<leftarrow> get_block_index ino first s;
     rest \<leftarrow> read_loop ino (first + 1) n s;
     Some (rd_blk b (junk s) s @ rest) }"

definition sfs_read :: "int \<Rightarrow> int \<Rightarrow> int \<Rightarrow> sfs \<Rightarrow> (int \<times> string) option" where
  "sfs_read fh len offset s =
     (if fh > 127 then Some (-EBADF, [])
      else do {
        f \<leftarrow> arr_get (open_files s) fh;
        if f_ino f < 0 then Some (-EBADF, [])
        else do {
          n \<leftarrow> arr_get (inode_table s) (f_ino f);
          let sz = st_size (i_stat n);
          if offset \<ge> sz then Some (EOF_C, [])
          else do {
            let len = (if u64 (offset + len) > u64 sz then u64 (sz - offset) else len);
            let start_block = to_int (c_div offset 512);
            let block_offset = c_mod offset 512;
            let read_blocks = xfer_blocks len offset;
            aligned \<leftarrow> read_loop (f_ino f) start_block (nat read_blocks) s;
            if block_offset + len > int (length aligned) then None
            else Some (to_int len, take (nat len) (drop (nat block_offset) aligned)) } } })"

text \<open>The loop that gives a file more blocks: an error code, or the number 0 when all were found.\<close>

fun grow_loop :: "int \<Rightarrow> int \<Rightarrow> nat \<Rightarrow> sfs \<Rightarrow> (int \<times> sfs) option" where
  "grow_loop ino i 0 s = Some (0, s)"
| "grow_loop ino i (Suc left) s = do {
     (block, s) \<leftarrow> get_block s;
     if block < 0 then Some (-ENOMEM, s)
     else if i > MAX_FILE_BLOCKS then Some (-EFBIG, s)
     else do {
       s \<leftarrow> set_block_index ino i block s;
       s \<leftarrow> upd_stat ino (\<lambda>t. t\<lparr>st_blocks := st_blocks t + 1\<rparr>) s;
       grow_loop ino (i + 1) left s } }"

fun write_loop :: "int \<Rightarrow> int \<Rightarrow> nat \<Rightarrow> string \<Rightarrow> sfs \<Rightarrow> sfs option" where
  "write_loop ino first 0 buf s = Some s"
| "write_loop ino first (Suc n) buf s = do {
     b \<leftarrow> get_block_index ino first s;
     write_loop ino (first + 1) n (drop 512 buf) (wr_blk b (take 512 buf) s) }"

definition overwrite :: "string \<Rightarrow> nat \<Rightarrow> string \<Rightarrow> string" where
  "overwrite b p e = take p b @ e @ drop (p + length e) b"

definition sfs_write :: "int \<Rightarrow> string \<Rightarrow> int \<Rightarrow> sfs \<Rightarrow> (int \<times> sfs) option" where
  "sfs_write fh buf offset s =
     (let len = int (length buf)
      in if fh > 127 then Some (-EBADF, s)
      else do {
        f \<leftarrow> arr_get (open_files s) fh;
        if f_ino f < 0 then Some (-EBADF, s)
        else do {
          let ino = f_ino f;
          n \<leftarrow> arr_get (inode_table s) ino;
          let sz = st_size (i_stat n);
          if offset > sz then Some (0, s)
          else do {
            let start_block = to_int (c_div offset 512);
            let block_offset = c_mod offset 512;
            let partial = (if c_mod sz 512 \<noteq> 0 then 1 else 0);
            (r, s) \<leftarrow>
              (if u64 (offset + len) > u64 ((c_div sz 512 + partial) * 512)
               then grow_loop ino (to_int (st_blocks (i_stat n)))
                 (nat (to_int (u64 (u64 (offset + len) div 512 - c_div sz 512 - partial +
                    (if u64 (offset + len) mod 512 \<noteq> 0 then 1 else 0))))) s
               else Some (0, s));
            if r < 0 then Some (r, s)
            else do {
              let write_blocks = xfer_blocks len offset;
              if write_blocks \<le> 0 then None
              else do {
                b \<leftarrow> get_block_index ino start_block s;
                let cont = rd_blk b (zeros 512) s @ zeros (nat (write_blocks * 512) - 512);
                if block_offset + len > write_blocks * 512 then None
                else do {
                  let cont = overwrite cont (nat block_offset) buf;
                  s \<leftarrow> write_loop ino start_block (nat write_blocks) cont s;
                  s \<leftarrow> upd_stat ino (\<lambda>t. t\<lparr>st_size := st_size t + len\<rparr>) s;
                  Some (to_int len, s) } } } } } })"

section \<open>Directories\<close>

text \<open>The loop that looks for the end of the directory's text, over its blocks.\<close>

partial_function (option) find_end :: "int \<Rightarrow> int \<Rightarrow> string \<Rightarrow> sfs \<Rightarrow> (int \<times> string \<times> nat) option" where
  "find_end dir i buf s =
     (if NUL \<in> set buf then Some (i, buf, length (takeWhile (\<lambda>c. c \<noteq> NUL) buf))
      else do {
        b \<leftarrow> get_block_index dir (i + 1) s;
        find_end dir (i + 1) (rd_blk b buf s) s })"

definition dir_entry :: "string \<Rightarrow> int \<Rightarrow> string" where
  "dir_entry name ino = ''/'' @ name @ ''/'' @ print_int ino"

text \<open>
  Entering a file into its parent directory \<open>cwd_inode\<close>; the buffer has \<open>cap\<close> bytes,
  1024 in \<open>sfs_create\<close> and 512 in \<open>sfs_mkdir\<close>.
\<close>

definition add_entry :: "nat \<Rightarrow> string \<Rightarrow> int \<Rightarrow> sfs \<Rightarrow> sfs option" where
  "add_entry cap path ino s = do {
     let dir = cwd_inode s;
     b \<leftarrow> get_block_index dir 0 s;
     (i, buf, ptr) \<leftarrow> find_end dir 0 (rd_blk b (zeros 512) s) s;
     name \<leftarrow> get_name path;
     let entry = dir_entry name ino;
     if ptr + length entry + 1 > cap then None
     else do {
       let buf = overwrite (buf @ take (cap - 512) (junk s)) ptr (entry @ [NUL]);
       let len = int (length entry) + 1;
       b \<leftarrow> get_block_index dir i s;
       let s = wr_blk b (take 512 buf) s;
       n \<leftarrow> arr_get (inode_table s) dir;
       s \<leftarrow>
         (if c_mod (st_size (i_stat n)) 512 + len > 512 then do {
            (block, s) \<leftarrow> get_block s;
            s \<leftarrow> set_block_index dir (i + 1) block s;
            if cap < 1024 then None else Some (wr_blk block (drop 512 buf) s) }
          else Some s);
       upd_stat dir (\<lambda>t. t\<lparr>st_size := st_size t + len, st_nlink := st_nlink t + 1\<rparr>) s } }"

text \<open>Entering the path in the name table, and the parent directory of the path as \<open>cwd_inode\<close>.\<close>

definition enter_path :: "int \<Rightarrow> string \<Rightarrow> int \<Rightarrow> sfs \<Rightarrow> sfs option" where
  "enter_path mapping path ino s = do {
     p \<leftarrow> sprintf_path path;
     if length p \<ge> MAX_PATH_LEN then None
     else do {
       nt \<leftarrow> arr_set (name_table s) mapping \<lparr>p_avail = ALLOCD, p_ino = ino, p_path = p\<rparr>;
       Some (s\<lparr>name_table := nt\<rparr>) } }"

definition enter_cwd :: "string \<Rightarrow> sfs \<Rightarrow> sfs option" where
  "enter_cwd path s = do {
     (r, cwd_path) \<leftarrow> get_cwd_path path;
     m \<leftarrow> arr_get (name_table s) (path_lookup cwd_path s);
     Some (s\<lparr>cwd_inode := p_ino m\<rparr>) }"

definition sfs_create :: "fuse_env \<Rightarrow> string \<Rightarrow> 32 word \<Rightarrow> sfs \<Rightarrow> (int \<times> int option \<times> sfs) option" where
  "sfs_create e path mode s =
     (if path_lookup path s > 0 then Some (-EEXIST, None, s)
      else do {
        let fh = get_fh s;
        let (ino, s) = get_inode s;
        fs \<leftarrow> arr_set (open_files s) fh \<lparr>refcnt = 1, f_ino = ino, f_pos = 0\<rparr>;
        s \<leftarrow> upd_stat ino (\<lambda>_. new_stat e mode 1 0 0) (s\<lparr>open_files := fs\<rparr>);
        let (mapping, s) = get_mapping s;
        if mapping < 0 then do {
          s \<leftarrow> free_inode ino s;
          s \<leftarrow> free_fh fh s;
          Some (-ENOMEM, Some fh, s) }
        else do {
          s \<leftarrow> enter_path mapping path ino s;
          s \<leftarrow> enter_cwd path s;
          s \<leftarrow> add_entry 1024 path ino s;
          Some (0, Some fh, s) } })"

definition sfs_mkdir :: "fuse_env \<Rightarrow> string \<Rightarrow> 32 word \<Rightarrow> sfs \<Rightarrow> (int \<times> sfs) option" where
  "sfs_mkdir e path mode s =
     (if path_lookup path s > 0 then Some (-EEXIST, s)
      else do {
        let (ino, s) = get_inode s;
        s \<leftarrow> upd_stat ino (\<lambda>_. new_stat e (mode OR S_IFDIR) 2 512 1) s;
        (b, s) \<leftarrow> get_block s;
        s \<leftarrow> set_blocks ino 0 b s;
        let (mapping, s) = get_mapping s;
        if mapping < 0 then do {
          s \<leftarrow> free_inode ino s;
          Some (-ENOMEM, s) }
        else do {
          s \<leftarrow> enter_path mapping path ino s;
          s \<leftarrow> enter_cwd path s;
          let text = ''./'' @ print_int ino @ ''/../'' @ print_int (cwd_inode s);
          b \<leftarrow> get_block_index ino 0 s;
          let s = wr_blk b (text @ zeros (512 - length text)) s;
          s \<leftarrow> add_entry 512 path ino s;
          Some (0, s) } })"

text \<open>The two halves of removing an entry from the parent directory: load its text, store it back.\<close>

definition dir_blocks :: "int \<Rightarrow> nat" where
  "dir_blocks len = (if c_div len 512 + c_mod len 512 \<noteq> 0 then 1 else 0)"

definition load_dir :: "int \<Rightarrow> string \<Rightarrow> sfs \<Rightarrow> (string \<times> int \<times> string \<times> sfs) option" where
  "load_dir mapping path s = do {
     name \<leftarrow> get_name path;
     m \<leftarrow> arr_get (name_table s) mapping;
     let entry = dir_entry name (p_ino m);
     if length entry \<ge> MAX_PATH_LEN then None
     else do {
       s \<leftarrow> enter_cwd path s;
       n \<leftarrow> arr_get (inode_table s) (cwd_inode s);
       let len = to_int (st_size (i_stat n));
       if dir_blocks len = 0 then None
       else do {
         b \<leftarrow> get_block_index (cwd_inode s) 0 s;
         text \<leftarrow> cstr (rd_blk b (zeros 512) s);
         Some (entry, len, text, s) } } }"

definition store_dir :: "string \<Rightarrow> int \<Rightarrow> string \<Rightarrow> sfs \<Rightarrow> sfs option" where
  "store_dir entry len text s = do {
     let dir = cwd_inode s;
     text \<leftarrow> removeSubstring text entry;
     let resize = 512 - int (length text);
     b \<leftarrow> get_block_index dir 0 s;
     let s = wr_blk b (text @ zeros (512 - length text)) s;
     s \<leftarrow>
       (if c_div len 512 > c_div (len - resize) 512 then do {
          b \<leftarrow> get_block_index dir 1 s;
          set_block_index dir 1 (-1) (put_disk_block b FREE s) }
        else Some s);
     upd_stat dir (\<lambda>t. t\<lparr>st_size := st_size t - resize, st_nlink := st_nlink t - 1\<rparr>) s }"

definition drop_path :: "int \<Rightarrow> sfs \<Rightarrow> sfs option" where
  "drop_path mapping s = do {
     m \<leftarrow> arr_get (name_table s) mapping;
     s \<leftarrow> free_inode (p_ino m) s;
     free_mapping mapping s }"

definition sfs_unlink :: "string \<Rightarrow> sfs \<Rightarrow> (int \<times> sfs) option" where
  "sfs_unlink path s =
     (let mapping = path_lookup path s
      in if mapping < 0 then Some (-ENOENT, s)
         else do {
           (entry, len, text, s) \<leftarrow> load_dir mapping path s;
           s \<leftarrow> store_dir entry len text s;
           s \<leftarrow> drop_path mapping s;
           Some (0, s) })"

definition sfs_rmdir :: "string \<Rightarrow> sfs \<Rightarrow> (int \<times> sfs) option" where
  "sfs_rmdir path s =
     (let mapping = path_lookup path s
      in if mapping < 0 then Some (-ENOENT, s)
         else do {
           (entry, len, text, s) \<leftarrow> load_dir mapping path s;
           m \<leftarrow> arr_get (name_table s) mapping;
           n \<leftarrow> arr_get (inode_table s) (p_ino m);
           if st_nlink (i_stat n) > 2 then Some (-ENOTEMPTY, s)
           else do {
             s \<leftarrow> store_dir entry len text s;
             s \<leftarrow> drop_path mapping s;
             Some (0, s) } })"

definition sfs_opendir :: "string \<Rightarrow> sfs \<Rightarrow> int \<times> sfs" where
  "sfs_opendir path s = (0, s)"

definition sfs_releasedir :: "string \<Rightarrow> sfs \<Rightarrow> int \<times> sfs" where
  "sfs_releasedir path s = (0, s)"

text \<open>\<open>strtok\<close> with the delimiter \<^verbatim>\<open>"/"\<close>: the next token and the rest of the string.\<close>

definition strtok :: "string \<Rightarrow> (string \<times> string) option" where
  "strtok s = (let s = dropWhile (\<lambda>c. c = CHR ''/'') s
     in if s = [] then None
        else Some (takeWhile (\<lambda>c. c \<noteq> CHR ''/'') s, drop 1 (dropWhile (\<lambda>c. c \<noteq> CHR ''/'') s)))"

lemma strtok_shorter: "strtok s = Some (t, r) \<Longrightarrow> length r < length s"
proof -
  assume "strtok s = Some (t, r)"
  then have s: "dropWhile (\<lambda>c. c = CHR ''/'') s \<noteq> []"
      and r: "r = drop 1 (dropWhile (\<lambda>c. c \<noteq> CHR ''/'') (dropWhile (\<lambda>c. c = CHR ''/'') s))"
    by (auto simp: strtok_def Let_def split: if_splits)
  have "length r < length (dropWhile (\<lambda>c. c = CHR ''/'') s)"
    using r s length_dropWhile_le [of "\<lambda>c. c \<noteq> CHR ''/''" "dropWhile (\<lambda>c. c = CHR ''/'') s"]
    by (cases "dropWhile (\<lambda>c. c = CHR ''/'') s") auto
  with length_dropWhile_le [of "\<lambda>c. c = CHR ''/''" s] show ?thesis by linarith
qed

text \<open>The names given to \<open>filler\<close>: every other token.\<close>

function fill_loop :: "string \<Rightarrow> string list" where
  "fill_loop s = (case strtok s of None \<Rightarrow> []
     | Some (tok, r) \<Rightarrow> tok # (case strtok r of None \<Rightarrow> [] | Some (_, r') \<Rightarrow> fill_loop r'))"
  by pat_completeness auto
termination
  by (relation "measure length") (auto dest!: strtok_shorter)

declare fill_loop.simps [simp del]

definition sfs_readdir :: "string \<Rightarrow> sfs \<Rightarrow> (int \<times> string list) option" where
  "sfs_readdir path s =
     (let mapping = path_lookup path s
      in if mapping < 0 then Some (-ENOENT, [])
         else do {
           m \<leftarrow> arr_get (name_table s) mapping;
           n \<leftarrow> arr_get (inode_table s) (p_ino m);
           if dir_blocks (st_size (i_stat n)) = 0 then None
           else do {
             b \<leftarrow> arr_get (i_blocks n) 0;
             text \<leftarrow> cstr (rd_blk b (junk s) s);
             Some (0, fill_loop text) } })"

end
