(* ===== verification/Sfs_Dir_Text.thy ===== *)
theory Sfs_Dir_Text
  imports Sfs_Ops
begin

text \<open>
  The text of a directory, \<^verbatim>\<open>./<inode>/../<inode>/<name>/<inode>/...\<close>, and the string functions
  that work on it: splitting a path into directory and name, listing the names
  (\<open>strtok\<close>) and cutting an entry out (\<open>removeSubstring\<close>).
\<close>

abbreviation (input) SLASH :: char where "SLASH \<equiv> CHR ''/''"

section \<open>Paths\<close>

lemma last_slash_snoc:
  "last_slash (p @ [c]) = (if c = SLASH then int (length p) else last_slash p)"
proof -
  have "fold (\<lambda>i pos. if (p @ [c]) ! i = SLASH then int i else pos) [0..<length p] (-1) =
      fold (\<lambda>i pos. if p ! i = SLASH then int i else pos) [0..<length p] (-1)"
    by (rule fold_cong) (auto simp: nth_append)
  then show ?thesis by (simp add: last_slash_def)
qed

lemma last_slash_split: "SLASH \<notin> set n \<Longrightarrow> last_slash (d @ SLASH # n) = int (length d)"
proof (induction n rule: rev_induct)
  case Nil
  then show ?case using last_slash_snoc [of d SLASH] by simp
next
  case (snoc c n)
  then show ?case using last_slash_snoc [of "d @ SLASH # n" c] by auto
qed

lemma path_splits_law:
  assumes n: "SLASH \<notin> set n" "n \<noteq> []" and len: "length d + length n < 254"
  shows "get_cwd_path (d @ SLASH # n) = Some (0, if d = [] then ''/'' else d) \<and> get_name (d @ SLASH # n) = Some n"
proof -
  have "d @ SLASH # n \<noteq> ''/''" using n(2) by (cases d) auto
  then show ?thesis
    using last_slash_split [OF n(1), of d] len by (auto simp: get_cwd_path_def get_name_def Let_def)
qed

text \<open>
  A path splits into its directory and its last component: \<open>get_cwd_path\<close> gives the
  part before the last slash (the root for a path at top level) and \<open>get_name\<close> the part after it.
\<close>

theorem path_splits:
  assumes n: "SLASH \<notin> set n" "n \<noteq> []" and len: "length d + length n < 254"
  shows "get_cwd_path (d @ SLASH # n) = Some (0, if d = [] then ''/'' else d) \<and> get_name (d @ SLASH # n) = Some n"
  by (rule path_splits_law [OF assms])

theorem path_splits_witness:
  "get_cwd_path ''/a/b/c.txt'' = Some (0, ''/a/b'') \<and> get_name ''/a/b/c.txt'' = Some ''c.txt''"
  using path_splits [of "''c.txt''" "''/a/b''"] by simp

section \<open>Entries\<close>

definition slashed :: "string list \<Rightarrow> string" where
  "slashed ts = concat (map ((#) SLASH) ts)"

definition dir_tokens :: "(string \<times> int) list \<Rightarrow> string list" where
  "dir_tokens es = concat (map (\<lambda>(n, i). [n, print_int i]) es)"

text \<open>The text of a directory with the entries \<open>es\<close>; the first has no slash in front.\<close>

definition dir_text :: "(string \<times> int) list \<Rightarrow> string" where
  "dir_text es = drop 1 (slashed (dir_tokens es))"

definition name_ok :: "string \<Rightarrow> bool" where
  "name_ok n \<longleftrightarrow> n \<noteq> [] \<and> SLASH \<notin> set n"

lemma slashed_simps [simp]:
  "slashed [] = []" "slashed (t # ts) = SLASH # t @ slashed ts" "slashed (ts @ us) = slashed ts @ slashed us"
  by (simp_all add: slashed_def)

lemma dir_tokens_simps [simp]:
  "dir_tokens [] = []" "dir_tokens (e # es) = fst e # print_int (snd e) # dir_tokens es"
  "dir_tokens (es @ fs) = dir_tokens es @ dir_tokens fs"
  by (simp_all add: dir_tokens_def split: prod.splits)

lemma dir_entry_slashed: "dir_entry n i = slashed [n, print_int i]"
  by (simp add: dir_entry_def)

lemma dir_text_snoc: "es \<noteq> [] \<Longrightarrow> dir_text (es @ [(n, i)]) = dir_text es @ dir_entry n i"
  by (cases es) (simp_all add: dir_text_def dir_entry_def)

definition digit :: "char \<Rightarrow> bool" where
  "digit c \<longleftrightarrow> 48 \<le> (of_char c :: nat) \<and> (of_char c :: nat) < 58"

lemma digit_char: "d < 10 \<Longrightarrow> digit (char_of (48 + d :: nat))"
  by (simp add: digit_def)

lemma print_nat_digits: "print_nat n \<noteq> [] \<and> (\<forall>c \<in> set (print_nat n). digit c)"
proof (induction n rule: print_nat.induct)
  case (1 n)
  show ?case
  proof (cases "n < 10")
    case True
    then show ?thesis using digit_char [of n] by (simp add: print_nat.simps [of n])
  next
    case False
    have "print_nat n = print_nat (n div 10) @ [char_of (48 + n mod 10)]" using False by (subst print_nat.simps) simp
    then show ?thesis using 1 [OF False] digit_char [of "n mod 10"] by simp
  qed
qed

lemma print_int_digits: "0 \<le> i \<Longrightarrow> name_ok (print_int i) \<and> (\<forall>c \<in> set (print_int i). digit c)"
proof -
  assume "0 \<le> i"
  then have e: "print_int i = print_nat (nat i)" by (simp add: print_int_def)
  have "\<not> digit SLASH" by (simp add: digit_def)
  then show ?thesis using print_nat_digits [of "nat i"] unfolding e name_ok_def by blast
qed

lemma token_ok:
  assumes "\<forall>(n, i) \<in> set es. name_ok n \<and> 0 \<le> i"
  shows "\<forall>t \<in> set (dir_tokens es). name_ok t"
  using assms print_int_digits by (induction es) auto

section \<open>Listing a directory\<close>

lemma slashed_start: "slashed ts = [] \<or> hd (slashed ts) = SLASH"
  by (cases ts) auto

lemma takeWhile_token:
  assumes "name_ok t" "r = [] \<or> hd r = SLASH"
  shows "takeWhile (\<lambda>c. c \<noteq> SLASH) (t @ r) = t" "dropWhile (\<lambda>c. c \<noteq> SLASH) (t @ r) = r"
proof -
  have "\<forall>c \<in> set t. c \<noteq> SLASH" using assms(1) by (auto simp: name_ok_def)
  moreover have "takeWhile (\<lambda>c. c \<noteq> SLASH) r = []" "dropWhile (\<lambda>c. c \<noteq> SLASH) r = r"
    using assms(2) by (cases r; simp)+
  ultimately show "takeWhile (\<lambda>c. c \<noteq> SLASH) (t @ r) = t" "dropWhile (\<lambda>c. c \<noteq> SLASH) (t @ r) = r"
    by (simp_all add: takeWhile_append2 dropWhile_append2)
qed

lemma strtok_slash: "strtok (SLASH # s) = strtok s"
  by (simp add: strtok_def)

lemma fill_loop_slash: "fill_loop (SLASH # s) = fill_loop s"
  by (subst (1 2) fill_loop.simps) (simp add: strtok_slash)

lemma strtok_token:
  assumes "name_ok t"
  shows "strtok (t @ slashed ts) = Some (t, drop 1 (slashed ts))"
proof -
  have "dropWhile (\<lambda>c. c = SLASH) (t @ slashed ts) = t @ slashed ts"
    using assms by (cases t) (auto simp: name_ok_def)
  then show ?thesis
    using takeWhile_token [OF assms slashed_start] assms by (simp add: strtok_def Let_def name_ok_def)
qed

lemma fill_loop_drop: "fill_loop (drop 1 (slashed ts)) = fill_loop (slashed ts)"
  by (cases ts) (simp_all add: fill_loop_slash)

lemma strtok_drop: "strtok (drop 1 (slashed ts)) = strtok (slashed ts)"
  by (cases ts) (simp_all add: strtok_slash)

lemma fill_loop_entries:
  assumes "\<forall>(n, i) \<in> set es. name_ok n \<and> 0 \<le> i"
  shows "fill_loop (slashed (dir_tokens es)) = map fst es"
  using assms
proof (induction es)
  case Nil
  then show ?case by (subst fill_loop.simps) (simp add: strtok_def)
next
  case (Cons e es)
  obtain n i where e: "e = (n, i)" by (cases e)
  have ok: "name_ok n" "name_ok (print_int i)" using Cons.prems print_int_digits e by auto
  let ?r = "slashed (dir_tokens es)"
  have s1: "strtok (SLASH # n @ slashed (print_int i # dir_tokens es)) = Some (n, drop 1 (slashed (print_int i # dir_tokens es)))"
    using strtok_token [OF ok(1)] by (simp only: strtok_slash)
  have s2: "strtok (drop 1 (slashed (print_int i # dir_tokens es))) = Some (print_int i, drop 1 ?r)"
    using strtok_token [OF ok(2)] by simp
  have "fill_loop (slashed (dir_tokens (e # es))) = n # fill_loop (drop 1 ?r)"
    using s1 s2 by (subst fill_loop.simps) (simp add: e)
  then show ?case using Cons e by (simp add: fill_loop_drop [unfolded One_nat_def] fill_loop_drop)
qed

lemma fill_loop_dir_text:
  "\<forall>(n, i) \<in> set es. name_ok n \<and> 0 \<le> i \<Longrightarrow> fill_loop (dir_text es) = map fst es"
  by (simp only: dir_text_def fill_loop_drop fill_loop_entries)

section \<open>Cutting an entry out\<close>

definition occurs_at :: "string \<Rightarrow> string \<Rightarrow> nat \<Rightarrow> bool" where
  "occurs_at s t k \<longleftrightarrow> take (length t) (drop k s) = t"

lemma strstr_None: "strstr s t = None \<Longrightarrow> \<not> occurs_at s t k"
proof (induction s arbitrary: k)
  case Nil
  then show ?case by (auto simp: occurs_at_def split: if_splits)
next
  case (Cons c s)
  then show ?case by (cases k) (auto simp: occurs_at_def split: if_splits)
qed

lemma strstr_first: "strstr s t = Some k \<Longrightarrow> occurs_at s t k \<and> (\<forall>j < k. \<not> occurs_at s t j)"
proof (induction s arbitrary: k)
  case Nil
  then show ?case by (auto simp: occurs_at_def split: if_splits)
next
  case (Cons c s)
  show ?case
  proof (cases "take (length t) (c # s) = t")
    case True
    then show ?thesis using Cons.prems by (auto simp: occurs_at_def)
  next
    case False
    then obtain i where i: "strstr s t = Some i" "k = Suc i" using Cons.prems by auto
    have "\<not> occurs_at (c # s) t j" if "j < k" for j
      using that Cons.IH [OF i(1)] i(2) False by (cases j) (auto simp: occurs_at_def)
    then show ?thesis using Cons.IH [OF i(1)] i(2) by (simp add: occurs_at_def)
  qed
qed

lemma strstr_unique:
  assumes "occurs_at s t k" "\<And>j. occurs_at s t j \<Longrightarrow> j = k"
  shows "strstr s t = Some k"
proof (cases "strstr s t")
  case None
  with strstr_None [OF None] assms(1) show ?thesis by blast
next
  case (Some i)
  with strstr_first [OF Some] assms(2) show ?thesis by blast
qed

lemma remove_unique:
  assumes "t \<noteq> []" "\<And>j. occurs_at (p @ t @ q) t j \<Longrightarrow> j = length p"
  shows "removeSubstring (p @ t @ q) t = Some (p @ q)"
proof -
  have "strstr (p @ t @ q) t = Some (length p)"
  proof (rule strstr_unique)
    show "occurs_at (p @ t @ q) t (length p)" by (simp add: occurs_at_def)
  qed (rule assms(2))
  moreover have "\<not> occurs_at q t j" for j
  proof
    assume "occurs_at q t j"
    then have "occurs_at (p @ t @ q) t (length p + length t + j)" by (simp add: occurs_at_def)
    from assms(2) [OF this] assms(1) show False by simp
  qed
  then have "strstr q t = None" by (metis not_None_eq strstr_first)
  then have "removeSubstring q t = Some q" using assms(1) by (simp add: removeSubstring.simps [of q])
  ultimately show ?thesis using assms(1) by (simp add: removeSubstring.simps [of "p @ t @ q"])
qed

lemma token_prefix:
  assumes "name_ok n" "name_ok t" "r = [] \<or> hd r = SLASH" "take (length (n @ SLASH # m)) (t @ r) = n @ SLASH # m"
  shows "n = t"
proof -
  have "t @ r = n @ (SLASH # m @ drop (length (n @ SLASH # m)) (t @ r))"
    by (metis append.assoc append_Cons append_take_drop_id assms(4))
  then have "takeWhile (\<lambda>c. c \<noteq> SLASH) (t @ r) = n"
    using takeWhile_token(1) [OF assms(1), of "SLASH # m @ drop (length (n @ SLASH # m)) (t @ r)"] by simp
  with takeWhile_token(1) [OF assms(2,3)] show ?thesis by simp
qed

text \<open>An entry occurs only where its name is a token of the text.\<close>

lemma entry_occurs:
  assumes "name_ok n" "\<forall>t \<in> set ts. name_ok t" "occurs_at (slashed ts) (SLASH # n @ SLASH # m) k"
  shows "\<exists>i < length ts. ts ! i = n \<and> k = length (slashed (take i ts))"
  using assms(2,3)
proof (induction ts arbitrary: k)
  case Nil
  then show ?case by (simp add: occurs_at_def)
next
  case (Cons t ts)
  show ?case
  proof (cases k)
    case 0
    then have "take (length (n @ SLASH # m)) (t @ slashed ts) = n @ SLASH # m"
      using Cons.prems(2) by (simp add: occurs_at_def)
    then have "n = t" using token_prefix [OF assms(1), of t "slashed ts" m] Cons.prems(1) slashed_start by auto
    then show ?thesis using 0 by (intro exI [of _ 0]) simp
  next
    case (Suc j)
    have o: "take (length (SLASH # n @ SLASH # m)) (drop j (t @ slashed ts)) = SLASH # n @ SLASH # m"
      using Cons.prems(2) Suc by (simp add: occurs_at_def)
    have "length t \<le> j"
    proof (rule ccontr)
      assume "\<not> length t \<le> j"
      then have "drop j (t @ slashed ts) = t ! j # drop (Suc j) (t @ slashed ts)"
        by (simp add: Cons_nth_drop_Suc [symmetric])
      then have "t ! j = SLASH" using o by simp
      moreover have "t ! j \<in> set t" using \<open>\<not> length t \<le> j\<close> by simp
      ultimately show False using Cons.prems(1) by (simp add: name_ok_def)
    qed
    then have "occurs_at (slashed ts) (SLASH # n @ SLASH # m) (j - length t)" using o by (simp add: occurs_at_def)
    from Cons.IH [OF _ this] Cons.prems(1) obtain i where
      "i < length ts" "ts ! i = n" "j - length t = length (slashed (take i ts))" by auto
    then show ?thesis using Suc \<open>length t \<le> j\<close> by (intro exI [of _ "Suc i"]) simp
  qed
qed

lemma dir_tokens_nth:
  assumes "j < length (dir_tokens es)" "dir_tokens es ! j = n" "\<forall>(m, i) \<in> set es. n \<noteq> print_int i"
  shows "\<exists>l < length es. fst (es ! l) = n \<and> j = 2 * l"
  using assms
proof (induction es arbitrary: j)
  case (Cons e es)
  consider "j = 0" | "j = 1" | i where "j = Suc (Suc i)" by (metis One_nat_def not0_implies_Suc)
  then show ?case
  proof cases
    case 1
    then show ?thesis using Cons.prems by (intro exI [of _ 0]) simp
  next
    case 2
    then show ?thesis using Cons.prems by (cases e) auto
  next
    case 3
    then obtain l where "l < length es" "fst (es ! l) = n" "i = 2 * l" using Cons.IH [of i] Cons.prems by auto
    then show ?thesis using 3 by (intro exI [of _ "Suc l"]) simp
  qed
qed simp

lemma dir_tokens_take: "dir_tokens (take l es) = take (2 * l) (dir_tokens es)"
proof (induction es arbitrary: l)
  case (Cons e es)
  then show ?case by (cases l) simp_all
qed simp

lemma remove_entry_law:
  assumes ok: "\<forall>(m, j) \<in> set (es @ (n, i) # fs). name_ok m \<and> 0 \<le> j" and es: "es \<noteq> []"
    and dist: "distinct (map fst (es @ (n, i) # fs))" and num: "\<forall>(m, j) \<in> set (es @ (n, i) # fs). n \<noteq> print_int j"
  shows "removeSubstring (dir_text (es @ (n, i) # fs)) (dir_entry n i) = Some (dir_text (es @ fs))"
proof -
  let ?all = "es @ (n, i) # fs"
  let ?t = "dir_entry n i"
  let ?p = "dir_text es" and ?q = "slashed (dir_tokens fs)"
  have t: "?t = SLASH # n @ SLASH # print_int i" by (simp add: dir_entry_def)
  obtain e es' where e: "es = e # es'" using es by (cases es) auto
  have tx: "dir_text ?all = ?p @ ?t @ ?q" "dir_text (es @ fs) = ?p @ ?q"
    by (simp_all add: dir_text_def e t)
  have uniq: "j = length ?p" if "occurs_at (?p @ ?t @ ?q) ?t j" for j
  proof -
    have "SLASH # ?p @ ?t @ ?q = slashed (dir_tokens ?all)" by (simp add: dir_text_def e t)
    then have "occurs_at (slashed (dir_tokens ?all)) ?t (Suc j)"
      using that unfolding occurs_at_def by (metis drop_Suc_Cons)
    moreover have "name_ok n" "\<forall>t \<in> set (dir_tokens ?all). name_ok t" using ok token_ok [OF ok] by auto
    ultimately obtain k where k: "k < length (dir_tokens ?all)" "dir_tokens ?all ! k = n"
        "Suc j = length (slashed (take k (dir_tokens ?all)))"
      using entry_occurs unfolding t by blast
    from dir_tokens_nth [OF k(1,2) num] obtain l where l: "l < length ?all" "fst (?all ! l) = n" "k = 2 * l" by blast
    have "map fst ?all ! l = n" using nth_map [OF l(1), of fst] l(2) by simp
    moreover have "map fst ?all ! length es = n" using nth_map [of "length es" ?all fst] by simp
    ultimately have "map fst ?all ! l = map fst ?all ! length es" by simp
    then have "l = length es" using dist l(1) nth_eq_iff_index_eq [OF dist, of l "length es"] by simp
    then have "take k (dir_tokens ?all) = dir_tokens es" using l(3) dir_tokens_take [of l ?all] by simp
    then show ?thesis using k(3) by (simp add: dir_text_def e)
  qed
  show ?thesis unfolding tx by (rule remove_unique [OF _ uniq]) (simp_all add: t)
qed

text \<open>
  Removing the entry of a name from the text of a directory removes exactly that entry,
  provided the names in the directory are different and the name is not written like one of the
  inode numbers in it.
\<close>

theorem remove_entry_exact:
  assumes ok: "\<forall>(m, j) \<in> set (es @ (n, i) # fs). name_ok m \<and> 0 \<le> j" and es: "es \<noteq> []"
    and dist: "distinct (map fst (es @ (n, i) # fs))" and num: "\<forall>(m, j) \<in> set (es @ (n, i) # fs). n \<noteq> print_int j"
  shows "removeSubstring (dir_text (es @ (n, i) # fs)) (dir_entry n i) = Some (dir_text (es @ fs))"
  by (rule remove_entry_law [OF assms])

theorem remove_entry_exact_witness:
  "removeSubstring ''./0/../0/a/1/b/2/c/3'' ''/b/2'' = Some ''./0/../0/a/1/c/3''"
  using remove_entry_exact [of "[(''.'', 0), (''..'', 0), (''a'', 1)]" "''b''" 2 "[(''c'', 3)]"]
  by (simp add: dir_text_def dir_entry_def name_ok_def print_int_def print_nat.simps char_of_def bit_Suc_0_iff)

text \<open>
  A name that is written like a number can match across two other entries: with file 3 in
  inode 4, file 5 in inode 6 and file 4 in inode 5, removing file 4 destroys the other two entries.
\<close>

lemma remove_entry_numeric:
  "removeSubstring (dir_text [(''.'', 0), (''..'', 0), (''3'', 4), (''5'', 6), (''4'', 5)]) (dir_entry ''4'' 5) =
     Some ''./0/../0/3/6''"
  by (simp add: dir_text_def dir_entry_def print_int_def print_nat.simps char_of_def bit_Suc_0_iff removeSubstring.simps)

end
