(* ===== verification/Sfs_Block_Map.thy ===== *)
theory Sfs_Block_Map
  imports Sfs_Ops
begin

text \<open>
  The block map of a file: \<open>get_block_index\<close> and \<open>set_block_index\<close> over the ten direct
  blocks, the single indirect and the double indirect table. \<open>file_ok\<close> says that a file of \<open>n\<close> blocks
  has exactly the tables it needs and that all its blocks are different and allocated;
  appending a block keeps it and changes nothing but the file's own tables.
\<close>

section \<open>Views of the state\<close>

definition fs_base :: "sfs \<Rightarrow> bool" where
  "fs_base s \<longleftrightarrow> disk_ok (sdisk s) \<and> length (junk s) = 512 \<and> length (disk_blocks s) = 32768"

abbreviation B :: "sfs \<Rightarrow> int \<Rightarrow> string" where "B s \<equiv> blk (sdisk s)"

definition nfree :: "sfs \<Rightarrow> nat" where
  "nfree s = length (filter (\<lambda>b. b = 0) (disk_blocks s))"

definition allocd :: "sfs \<Rightarrow> int \<Rightarrow> bool" where
  "allocd s b \<longleftrightarrow> 0 \<le> b \<and> b < 32768 \<and> disk_blocks s ! nat b \<noteq> 0"

lemma rd_blk_law: "fs_base s \<Longrightarrow> length buf = 512 \<Longrightarrow> rd_blk n buf s = B s n"
  by (simp add: rd_blk_def block_read_law fs_base_def)

lemma wr_blk_law:
  assumes "fs_base s" "0 \<le> n" "length b = 512"
  shows "\<exists>d. wr_blk n b s = s\<lparr>sdisk := d\<rparr> \<and> disk_ok d \<and> blk d = (B s)(n := b)"
  using block_write_law [of "sdisk s" n b] assms by (auto simp: wr_blk_def fs_base_def)

lemma nfree_update:
  assumes "i < length (disk_blocks s)" "disk_blocks s ! i = 0"
  shows "Suc (nfree (s\<lparr>disk_blocks := (disk_blocks s)[i := 1]\<rparr>)) = nfree s"
proof -
  let ?db = "disk_blocks s"
  have "?db = take i ?db @ ?db ! i # drop (Suc i) ?db" by (rule id_take_nth_drop [OF assms(1)])
  then have "filter (\<lambda>b. b = 0) ?db = filter (\<lambda>b. b = 0) (take i ?db) @ 0 # filter (\<lambda>b. b = 0) (drop (Suc i) ?db)"
    using assms(2) by (metis (mono_tags, lifting) filter.simps(2) filter_append)
  moreover have "filter (\<lambda>b. b = 0) (?db[i := 1]) =
      filter (\<lambda>b. b = 0) (take i ?db) @ filter (\<lambda>b. b = 0) (drop (Suc i) ?db)"
    using assms(1) by (simp add: upd_conv_take_nth_drop)
  ultimately show ?thesis by (simp add: nfree_def)
qed

lemma get_block_law:
  assumes "0 < nfree s" "fs_base s"
  shows "\<exists>c. get_block s = Some (c, s\<lparr>disk_blocks := (disk_blocks s)[nat c := 1]\<rparr>) \<and> 0 \<le> c \<and> c < 32768 \<and>
    \<not> allocd s c \<and> Suc (nfree (s\<lparr>disk_blocks := (disk_blocks s)[nat c := 1]\<rparr>)) = nfree s"
proof -
  have "\<exists>b \<in> set (disk_blocks s). b = 0" using assms(1) by (auto simp: nfree_def filter_empty_conv)
  then obtain i where i: "scan (\<lambda>b. b = 0) (disk_blocks s) = int i" "i < length (disk_blocks s)" "disk_blocks s ! i = 0"
    by (cases rule: scan_cases [of "\<lambda>b. b = 0" "disk_blocks s"]) auto
  with nfree_update [OF i(2,3)] assms(2) show ?thesis
    by (intro exI [of _ "int i"]) (simp add: get_block_def allocd_def fs_base_def)
qed

lemma allocd_upd: "0 \<le> c \<Longrightarrow> c < 32768 \<Longrightarrow> length (disk_blocks s) = 32768 \<Longrightarrow>
   allocd (s\<lparr>disk_blocks := (disk_blocks s)[nat c := 1]\<rparr>) b \<longleftrightarrow> allocd s b \<or> b = c"
  by (auto simp: allocd_def nth_list_update eq_nat_nat_iff)

lemma length_clear_shorts [simp]: "length (clear_shorts n b) = length b"
proof -
  have "length (fold (\<lambda>i b. put_short b i (-1)) is b) = length b" for "is"
    by (induction "is" arbitrary: b) simp_all
  then show ?thesis by (simp add: clear_shorts_def)
qed

lemma get_clear_shorts:
  "2 * n \<le> length b \<Longrightarrow> get_short (clear_shorts n b) j = (if j < n then -1 else get_short b j)"
proof (induction n)
  case (Suc n)
  have "clear_shorts (Suc n) b = put_short (clear_shorts n b) n (-1)" by (simp add: clear_shorts_def)
  with Suc show ?case by (auto simp: get_put_short to_short_id less_Suc_eq)
qed (simp add: clear_shorts_def)

section \<open>The block map\<close>

definition subs :: "(int \<Rightarrow> string) \<Rightarrow> int list \<Rightarrow> nat \<Rightarrow> int" where
  "subs m bs j = get_short (m (bs ! 11)) j"

definition bidx :: "(int \<Rightarrow> string) \<Rightarrow> int list \<Rightarrow> nat \<Rightarrow> int" where
  "bidx m bs n = (if n < 10 then bs ! n else if n < 110 then get_short (m (bs ! 10)) (n - 10)
     else get_short (m (subs m bs ((n - 110) div 100))) ((n - 110) mod 100))"

text \<open>How many second-level tables a file of \<open>n\<close> blocks needs.\<close>

definition nsubs :: "nat \<Rightarrow> nat" where
  "nsubs n = (n - 110 + 99) div 100"

definition meta :: "(int \<Rightarrow> string) \<Rightarrow> int list \<Rightarrow> nat \<Rightarrow> int list" where
  "meta m bs n = (if n > 10 then [bs ! 10] else []) @
     (if n > 110 then bs ! 11 # map (subs m bs) [0..<nsubs n] else [])"

definition data :: "(int \<Rightarrow> string) \<Rightarrow> int list \<Rightarrow> nat \<Rightarrow> int list" where
  "data m bs n = map (bidx m bs) [0..<n]"

text \<open>How many blocks the tables of a file of \<open>n\<close> blocks have room for.\<close>

definition nslots :: "nat \<Rightarrow> nat" where
  "nslots n = (if n \<le> 10 then 10 else if n \<le> 110 then 110 else 110 + 100 * nsubs n)"

definition map_ok :: "(int \<Rightarrow> string) \<Rightarrow> int list \<Rightarrow> nat \<Rightarrow> bool" where
  "map_ok m bs n \<longleftrightarrow> length bs = 12 \<and> n \<le> 1110 \<and> distinct (data m bs n @ meta m bs n) \<and>
     (\<forall>b \<in> set (data m bs n @ meta m bs n). 0 \<le> b \<and> b < 32768) \<and>
     (n \<le> 10 \<longrightarrow> bs ! 10 = -1) \<and> (n \<le> 110 \<longrightarrow> bs ! 11 = -1) \<and>
     (n > 110 \<longrightarrow> (\<forall>j. nsubs n \<le> j \<longrightarrow> j < 10 \<longrightarrow> subs m bs j = -1)) \<and>
     (\<forall>i. n \<le> i \<longrightarrow> i < nslots n \<longrightarrow> bidx m bs i = -1)"

lemma map_ok_rest: "map_ok m bs n \<Longrightarrow> n \<le> i \<Longrightarrow> i < nslots n \<Longrightarrow> bidx m bs i = -1"
  by (simp add: map_ok_def)

lemma get_block_index_law:
  assumes b: "fs_base s" and k: "0 \<le> k" "k < int (length (inode_table s))"
    and bs: "i_blocks (inode_table s ! nat k) = bs" "length bs = 12" and n: "n < 1110"
  shows "get_block_index k (int n) s = Some (bidx (B s) bs n)"
proof -
  have sh: "to_short (int n) = int n" using n by (simp add: to_short_id)
  have j: "length (junk s) = 512" using b by (simp add: fs_base_def)
  have nats: "nat (int n - 10) = n - 10" "nat ((int n - 110) div 100) = (n - 110) div 100"
    "nat ((int n - 110) mod 100) = (n - 110) mod 100" if "110 \<le> n"
  proof -
    have "int n - 110 = int (n - 110)" using that by simp
    then show "nat (int n - 10) = n - 10" "nat ((int n - 110) div 100) = (n - 110) div 100"
      "nat ((int n - 110) mod 100) = (n - 110) mod 100"
      by (simp_all add: nat_div_distrib nat_mod_distrib nat_diff_distrib' del: of_nat_diff)
  qed
  show ?thesis
    using k bs n nats
    by (auto simp: get_block_index_def sh arr_get_in rd_blk_law [OF b] j bidx_def subs_def Let_def
        nat_diff_distrib')
qed

section \<open>Appending a block\<close>

lemma map_ok_snoc:
  assumes ok: "map_ok m bs n" and n: "n < 1110" and len: "length bs' = 12"
    and old: "\<And>i. i < n \<Longrightarrow> bidx m' bs' i = bidx m bs i" and new: "bidx m' bs' n = b"
    and meta: "meta m' bs' (Suc n) = meta m bs n @ ms"
    and fresh: "distinct (b # ms)" "\<forall>x \<in> set (b # ms). 0 \<le> x \<and> x < 32768 \<and> x \<notin> set (data m bs n @ meta m bs n)"
    and last: "n < 10 \<Longrightarrow> bs' ! 10 = -1" "n < 110 \<Longrightarrow> bs' ! 11 = -1"
      "\<And>j. 110 \<le> n \<Longrightarrow> nsubs (Suc n) \<le> j \<Longrightarrow> j < 10 \<Longrightarrow> subs m' bs' j = -1"
    and rest: "\<And>i. n < i \<Longrightarrow> i < nslots (Suc n) \<Longrightarrow> bidx m' bs' i = -1"
  shows "map_ok m' bs' (Suc n) \<and> data m' bs' (Suc n) = data m bs n @ [b]"
proof -
  have d: "data m' bs' (Suc n) = data m bs n @ [b]" using old new by (simp add: data_def)
  have "distinct (data m' bs' (Suc n) @ meta m' bs' (Suc n))"
    using ok fresh unfolding d meta by (auto simp: map_ok_def)
  moreover have "\<forall>b \<in> set (data m' bs' (Suc n) @ meta m' bs' (Suc n)). 0 \<le> b \<and> b < 32768"
    using ok fresh unfolding d meta by (auto simp: map_ok_def)
  ultimately show ?thesis using d len n last rest by (auto simp: map_ok_def)
qed

lemma set_blocks_law:
  assumes "0 \<le> k" "k < int (length (inode_table s))" "length (i_blocks (inode_table s ! nat k)) = 12" "0 \<le> i" "i < 12"
  shows "set_blocks k i v s = Some (s\<lparr>inode_table := (inode_table s)[nat k :=
    (inode_table s ! nat k)\<lparr>i_blocks := (i_blocks (inode_table s ! nat k))[nat i := v]\<rparr>]\<rparr>)"
  using assms by (simp add: set_blocks_def upd_inode_def arr_get_in arr_set_in)

text \<open>
  What appending block number \<open>b\<close> to the map of inode \<open>k\<close> does: \<open>bs'\<close> are the new
  entries of the inode and \<open>ms\<close> the tables allocated for it.
\<close>

definition appended :: "sfs \<Rightarrow> int \<Rightarrow> nat \<Rightarrow> int \<Rightarrow> sfs \<Rightarrow> int list \<Rightarrow> int list \<Rightarrow> bool" where
  "appended s k n b s' bs' ms \<longleftrightarrow>
     (let bs = i_blocks (inode_table s ! nat k)
      in s' = s\<lparr>inode_table := (inode_table s)[nat k := (inode_table s ! nat k)\<lparr>i_blocks := bs'\<rparr>],
                disk_blocks := disk_blocks s', sdisk := sdisk s'\<rparr> \<and>
         fs_base s' \<and> map_ok (B s') bs' (Suc n) \<and> data (B s') bs' (Suc n) = data (B s) bs n @ [b] \<and>
         meta (B s') bs' (Suc n) = meta (B s) bs n @ ms \<and> distinct ms \<and> (\<forall>x \<in> set ms. \<not> allocd s x) \<and>
         (\<forall>x. allocd s' x \<longleftrightarrow> allocd s x \<or> x \<in> set ms) \<and> nfree s' + length ms = nfree s \<and>
         (\<forall>x. x \<notin> set (meta (B s') bs' (Suc n)) \<longrightarrow> B s' x = B s x))"

text \<open>The situation in which a block is appended.\<close>

definition can_append :: "sfs \<Rightarrow> int \<Rightarrow> nat \<Rightarrow> int \<Rightarrow> bool" where
  "can_append s k n b \<longleftrightarrow> fs_base s \<and> 0 \<le> k \<and> k < int (length (inode_table s)) \<and> n < 1110 \<and>
     (let bs = i_blocks (inode_table s ! nat k)
      in map_ok (B s) bs n \<and> (\<forall>x \<in> set (data (B s) bs n @ meta (B s) bs n). allocd s x) \<and>
         allocd s b \<and> b \<notin> set (data (B s) bs n @ meta (B s) bs n))"

lemma to_short_block: "n < 1110 \<Longrightarrow> to_short (int n) = int n"
  by (simp add: to_short_id)

lemma append_direct:
  assumes can: "can_append s k n b" and n: "n < 10"
  shows "\<exists>s' bs'. set_block_index k (int n) b s = Some s' \<and> appended s k n b s' bs' []"
proof -
  let ?nd = "inode_table s ! nat k"
  let ?bs = "i_blocks ?nd"
  have ok: "map_ok (B s) ?bs n" and k: "0 \<le> k" "k < int (length (inode_table s))" and base: "fs_base s"
    and b: "allocd s b" "b \<notin> set (data (B s) ?bs n @ meta (B s) ?bs n)"
    using can by (simp_all add: can_append_def Let_def)
  have len: "length ?bs = 12" using ok by (simp add: map_ok_def)
  let ?bs' = "?bs[n := b]"
  let ?s = "s\<lparr>inode_table := (inode_table s)[nat k := ?nd\<lparr>i_blocks := ?bs'\<rparr>]\<rparr>"
  have ev: "set_block_index k (int n) b s = Some ?s"
    using set_blocks_law [OF k len, of "int n" b] n k
    by (simp add: set_block_index_def to_short_block arr_get_in)
  have "map_ok (B ?s) ?bs' (Suc n) \<and> data (B ?s) ?bs' (Suc n) = data (B s) ?bs n @ [b]"
  proof (rule map_ok_snoc [where ms = "[]"])
    show "map_ok (B s) ?bs n" by (rule ok)
    show "meta (B ?s) ?bs' (Suc n) = meta (B s) ?bs n @ []" using n by (simp add: meta_def)
    show "\<forall>x \<in> set [b]. 0 \<le> x \<and> x < 32768 \<and> x \<notin> set (data (B s) ?bs n @ meta (B s) ?bs n)"
      using b by (auto simp: allocd_def)
    show "bidx (B ?s) ?bs' i = -1" if "n < i" "i < nslots (Suc n)" for i
      using map_ok_rest [OF ok, of i] that n by (simp add: bidx_def nslots_def)
  qed (use n len ok in \<open>auto simp: bidx_def map_ok_def\<close>)
  moreover have "meta (B ?s) ?bs' (Suc n) = meta (B s) ?bs n @ []" using n by (simp add: meta_def)
  ultimately have "appended s k n b ?s ?bs' []"
    using base by (simp add: appended_def fs_base_def allocd_def nfree_def)
  with ev show ?thesis by blast
qed

lemma can_appendD:
  assumes "can_append s k n b"
  defines "bs \<equiv> i_blocks (inode_table s ! nat k)"
  shows "fs_base s" "0 \<le> k" "k < int (length (inode_table s))" "map_ok (B s) bs n" "length bs = 12"
    "allocd s b" "b \<notin> set (data (B s) bs n @ meta (B s) bs n)" "n < 1110"
    "x \<in> set (data (B s) bs n @ meta (B s) bs n) \<Longrightarrow> allocd s x"
    "0 \<le> b" "b < 32768" "to_short b = b"
  using assms by (auto simp: can_append_def Let_def map_ok_def allocd_def to_short_id)

lemma short_range: "allocd s b \<Longrightarrow> to_short b = b" "allocd s b \<Longrightarrow> 0 \<le> b" "allocd s b \<Longrightarrow> b < 32768"
  by (simp_all add: allocd_def to_short_id)

lemma same_inode: "s\<lparr>inode_table := (inode_table s)[k := (inode_table s ! k)\<lparr>i_blocks := i_blocks (inode_table s ! k)\<rparr>]\<rparr> = s"
  by simp

lemma append_single_old:
  assumes can: "can_append s k n b" and n: "10 < n" "n < 110"
  shows "\<exists>s' bs'. set_block_index k (int n) b s = Some s' \<and> appended s k n b s' bs' []"
proof -
  let ?bs = "i_blocks (inode_table s ! nat k)"
  note D = can_appendD [OF can]
  let ?t = "?bs ! 10"
  have t: "?t \<in> set (meta (B s) ?bs n)" using n by (simp add: meta_def)
  then have ta: "allocd s ?t" "?t \<notin> set (data (B s) ?bs n)" using D(4,9) by (auto simp: map_ok_def)
  have j: "length (junk s) = 512" using D(1) by (simp add: fs_base_def)
  let ?buf = "put_short (B s ?t) (n - 10) b"
  from wr_blk_law [OF D(1), of ?t ?buf] obtain d where
    d: "wr_blk ?t ?buf s = s\<lparr>sdisk := d\<rparr>" "disk_ok d" "blk d = (B s)(?t := ?buf)"
    using short_range [OF ta(1)] by auto
  let ?s = "s\<lparr>sdisk := d\<rparr>"
  have ev: "set_block_index k (int n) b s = Some ?s"
    using n D(2,3,5) short_range(2) [OF ta(1)] d(1)
    by (simp add: set_block_index_def to_short_block arr_get_in rd_blk_law [OF D(1) j] nat_diff_distrib' Let_def)
  have get: "get_short ?buf j = (if j = n - 10 then b else get_short (B s ?t) j)" for j
    using n D(12) by (simp add: get_put_short)
  have me: "meta (B ?s) ?bs (Suc n) = meta (B s) ?bs n @ []" using n by (simp add: meta_def)
  have "map_ok (B ?s) ?bs (Suc n) \<and> data (B ?s) ?bs (Suc n) = data (B s) ?bs n @ [b]"
  proof (rule map_ok_snoc [OF D(4,8,5) _ _ me])
    show "\<forall>x \<in> set [b]. 0 \<le> x \<and> x < 32768 \<and> x \<notin> set (data (B s) ?bs n @ meta (B s) ?bs n)"
      using D(7,10,11) by simp
    show "bidx (B ?s) ?bs i = bidx (B s) ?bs i" if "i < n" for i
      using that n get by (auto simp: bidx_def d(3))
    show "bidx (B ?s) ?bs n = b" using n get by (simp add: bidx_def d(3))
    show "bidx (B ?s) ?bs i = -1" if "n < i" "i < nslots (Suc n)" for i
      using map_ok_rest [OF D(4), of i] that n get by (auto simp: bidx_def nslots_def d(3))
  qed (use n D(4) in \<open>auto simp: map_ok_def\<close>)
  then have "appended s k n b ?s ?bs []"
    using D(1) d(2,3) me n by (simp add: appended_def fs_base_def allocd_def nfree_def same_inode meta_def)
  with ev show ?thesis by blast
qed

lemma append_single_new:
  assumes can: "can_append s k 10 b" and mem: "1 \<le> nfree s"
  shows "\<exists>s' bs' c. set_block_index k 10 b s = Some s' \<and> appended s k 10 b s' bs' [c]"
proof -
  let ?nd = "inode_table s ! nat k"
  let ?bs = "i_blocks ?nd"
  note D = can_appendD [OF can]
  have b10: "?bs ! 10 = -1" "?bs ! 11 = -1" using D(4) by (auto simp: map_ok_def)
  from get_block_law [OF _ D(1)] mem obtain c where
    c: "get_block s = Some (c, s\<lparr>disk_blocks := (disk_blocks s)[nat c := 1]\<rparr>)" "0 \<le> c" "c < 32768" "\<not> allocd s c"
      "Suc (nfree (s\<lparr>disk_blocks := (disk_blocks s)[nat c := 1]\<rparr>)) = nfree s" by auto
  let ?bs' = "?bs[10 := c]"
  let ?s1 = "s\<lparr>disk_blocks := (disk_blocks s)[nat c := 1]\<rparr>"
  let ?s2 = "?s1\<lparr>inode_table := (inode_table s)[nat k := ?nd\<lparr>i_blocks := ?bs'\<rparr>]\<rparr>"
  have base: "fs_base ?s2" "length (junk ?s2) = 512" using D(1) by (simp_all add: fs_base_def)
  have sb: "set_blocks k 10 c ?s1 = Some ?s2" using set_blocks_law [of k ?s1 10 c] D(2,3,5) by simp
  let ?buf = "put_short (clear_shorts 100 (B s c)) 0 b"
  from wr_blk_law [OF base(1) c(2), of ?buf] obtain d where
    d: "wr_blk c ?buf ?s2 = ?s2\<lparr>sdisk := d\<rparr>" "disk_ok d" "blk d = (B s)(c := ?buf)" by auto
  let ?s = "?s2\<lparr>sdisk := d\<rparr>"
  have ev: "set_block_index k 10 b s = Some ?s"
    using D(2,3,5) b10 c(1) sb d(1) rd_blk_law [OF base, of c] to_short_block [of 10]
    by (simp add: set_block_index_def arr_get_in Let_def)
  have get: "get_short ?buf j = (if j = 0 then b else if j < 100 then -1 else get_short (B s c) j)" for j
    using D(12) by (simp add: get_put_short get_clear_shorts)
  have al: "allocd ?s x \<longleftrightarrow> allocd s x \<or> x = c" for x
    using allocd_upd [OF c(2,3), of s x] D(1) by (simp add: allocd_def fs_base_def)
  have me: "meta (B ?s) ?bs' (Suc 10) = meta (B s) ?bs 10 @ [c]" using D(5) by (simp add: meta_def)
  have "map_ok (B ?s) ?bs' (Suc 10) \<and> data (B ?s) ?bs' (Suc 10) = data (B s) ?bs 10 @ [b]"
  proof (rule map_ok_snoc [OF D(4,8) _ _ _ me])
    show "distinct [b, c]" using D(6) c(4) by auto
    show "\<forall>x \<in> set [b, c]. 0 \<le> x \<and> x < 32768 \<and> x \<notin> set (data (B s) ?bs 10 @ meta (B s) ?bs 10)"
      using D(7,9,10,11) c(2,3,4) by auto
    show "bidx (B ?s) ?bs' i = bidx (B s) ?bs i" if "i < 10" for i
      using that by (simp add: bidx_def)
    show "bidx (B ?s) ?bs' 10 = b" using D(5) get by (simp add: bidx_def d(3))
    show "bidx (B ?s) ?bs' i = -1" if "10 < i" "i < nslots (Suc 10)" for i
      using that D(5) get [of "i - 10"] by (auto simp: bidx_def nslots_def d(3) simp del: One_nat_def)
  qed (use D(5) b10 in auto)
  then have "appended s k 10 b ?s ?bs' [c]"
    using D(1,5) d(2,3) me al c(4,5) by (simp add: appended_def fs_base_def nfree_def meta_def)
  with ev show ?thesis by blast
qed

subsection \<open>The double indirect table\<close>

text \<open>The entry of block \<open>n\<close>: which second-level table, and where in it.\<close>

lemma nsubs_eq: "n - 110 = 100 * q + r \<Longrightarrow> r \<le> 100 \<Longrightarrow> nsubs n = (if r = 0 then q else Suc q)"
proof -
  assume a: "n - 110 = 100 * q + r" "r \<le> 100"
  show ?thesis
  proof (cases "r = 0")
    case True
    have "(100 * q + 99) div 100 = q" by (rule div_nat_eqI) simp_all
    then show ?thesis using a True by (simp add: nsubs_def)
  next
    case False
    have "(100 * q + r + 99) div 100 = Suc q" by (rule div_nat_eqI) (use a False in simp_all)
    then show ?thesis using a False by (simp add: nsubs_def)
  qed
qed

lemma nsubs_simps:
  "110 \<le> n \<Longrightarrow> (n - 110) mod 100 \<noteq> 0 \<Longrightarrow> nsubs (Suc n) = nsubs n \<and> (n - 110) div 100 < nsubs n"
  "110 \<le> n \<Longrightarrow> (n - 110) mod 100 = 0 \<Longrightarrow> nsubs n = (n - 110) div 100 \<and> nsubs (Suc n) = Suc (nsubs n)"
proof -
  let ?q = "(n - 110) div 100" and ?r = "(n - 110) mod 100"
  have qr: "n - 110 = 100 * ?q + ?r" by simp
  have r: "?r < 100" by simp
  assume n: "110 \<le> n"
  then have "Suc n - 110 = Suc (n - 110)" by (rule Suc_diff_le)
  also have "\<dots> = 100 * ?q + Suc ?r" using qr by linarith
  finally have s: "Suc n - 110 = 100 * ?q + Suc ?r" .
  have e: "nsubs n = (if ?r = 0 then ?q else Suc ?q)" by (rule nsubs_eq [OF qr less_imp_le [OF r]])
  have f: "nsubs (Suc n) = Suc ?q" using nsubs_eq [OF s Suc_leI [OF r]] by simp
  show "?r \<noteq> 0 \<Longrightarrow> nsubs (Suc n) = nsubs n \<and> ?q < nsubs n" using e f by simp
  show "?r = 0 \<Longrightarrow> nsubs n = ?q \<and> nsubs (Suc n) = Suc (nsubs n)" using e f by simp
qed

lemma nat_double:
  assumes "110 \<le> n"
  shows "nat ((int n - 110) div 100) = (n - 110) div 100" "nat ((int n - 110) mod 100) = (n - 110) mod 100"
proof -
  have "int n - 110 = int (n - 110)" using assms by simp
  then show "nat ((int n - 110) div 100) = (n - 110) div 100" "nat ((int n - 110) mod 100) = (n - 110) mod 100"
    by (simp_all add: nat_div_distrib nat_mod_distrib del: of_nat_diff)
qed

lemma block_split_eq: "110 \<le> i \<Longrightarrow> 110 \<le> n \<Longrightarrow> (i - 110) div 100 = (n - 110) div 100 \<Longrightarrow>
    (i - 110) mod 100 = (n - 110) mod 100 \<Longrightarrow> i = (n::nat)"
  using div_mult_mod_eq [of "i - 110" 100] div_mult_mod_eq [of "n - 110" 100] by arith

lemma sub_in_range: "i < n \<Longrightarrow> 110 \<le> i \<Longrightarrow> (i - 110) div 100 < nsubs n"
proof -
  assume i: "i < n" "110 \<le> i"
  have "(i - 110) div 100 * 100 \<le> i - 110" by (rule div_times_less_eq_dividend)
  then have "((i - 110) div 100 + 1) * 100 \<le> n - 110 + 99" using i by simp
  then have "(i - 110) div 100 + 1 \<le> (n - 110 + 99) div 100"
    using div_le_mono [of "((i - 110) div 100 + 1) * 100" "n - 110 + 99" 100] by simp
  then show ?thesis by (simp add: nsubs_def)
qed

lemma nslots_ge: "n \<le> nslots n"
proof -
  have "n - 110 + 99 < 100 * nsubs n + 100"
    using div_mult_mod_eq [of "n - 110 + 99" 100] mod_less_divisor [of 100 "n - 110 + 99"] unfolding nsubs_def by linarith
  then show ?thesis by (auto simp: nslots_def)
qed

lemma sub_in_nslots: "110 < n \<Longrightarrow> i < nslots n \<Longrightarrow> 110 \<le> i \<Longrightarrow> (i - 110) div 100 < nsubs n"
  by (simp add: nslots_def less_mult_imp_div_less mult.commute)

text \<open>The tables of a file that uses double indirection are pairwise different.\<close>

lemma meta_double:
  assumes "map_ok m bs n" "110 < n"
  shows "meta m bs n = bs ! 10 # bs ! 11 # map (subs m bs) [0..<nsubs n]" "bs ! 10 \<noteq> bs ! 11"
    "j < nsubs n \<Longrightarrow> subs m bs j \<noteq> bs ! 10" "j < nsubs n \<Longrightarrow> subs m bs j \<noteq> bs ! 11"
    "j < nsubs n \<Longrightarrow> i < nsubs n \<Longrightarrow> subs m bs j = subs m bs i \<longleftrightarrow> j = i"
proof -
  show meta: "meta m bs n = bs ! 10 # bs ! 11 # map (subs m bs) [0..<nsubs n]" using assms(2) by (simp add: meta_def)
  have "distinct (meta m bs n)" using assms(1) by (simp add: map_ok_def)
  then have d: "bs ! 10 \<noteq> bs ! 11" "bs ! 10 \<notin> subs m bs ` {0..<nsubs n}" "bs ! 11 \<notin> subs m bs ` {0..<nsubs n}"
      "inj_on (subs m bs) {0..<nsubs n}" unfolding meta by (simp_all add: distinct_map)
  show "bs ! 10 \<noteq> bs ! 11" by (rule d(1))
  show "j < nsubs n \<Longrightarrow> subs m bs j \<noteq> bs ! 10" using d(2) by (metis atLeastLessThan_iff imageI zero_le)
  show "j < nsubs n \<Longrightarrow> subs m bs j \<noteq> bs ! 11" using d(3) by (metis atLeastLessThan_iff imageI zero_le)
  show "j < nsubs n \<Longrightarrow> i < nsubs n \<Longrightarrow> subs m bs j = subs m bs i \<longleftrightarrow> j = i"
    using inj_on_eq_iff [OF d(4), of j i] by simp
qed

lemma bidx_double_upd:
  assumes ok: "map_ok m bs n" and n: "110 < n" "n < 1110" and i: "i < nslots n" and q: "q < nsubs n"
    and get: "\<And>j. (i - 110) div 100 = q \<Longrightarrow> j = (i - 110) mod 100 \<Longrightarrow> get_short buf j = get_short (m (subs m bs q)) j"
  shows "bidx (m(subs m bs q := buf)) bs i = bidx m bs i"
proof -
  note M = meta_double [OF ok n(1)]
  have su: "subs (m(subs m bs q := buf)) bs j = subs m bs j" for j
    using M(4) [OF q] by (simp add: subs_def)
  show ?thesis
  proof (cases "i < 110")
    case True
    then show ?thesis using M(3) [OF q] by (simp add: bidx_def)
  next
    case False
    then have "(i - 110) div 100 < nsubs n" using sub_in_nslots [OF n(1) i] by simp
    from M(5) [OF this q] show ?thesis
      using False get unfolding bidx_def su by (cases "(i - 110) div 100 = q") simp_all
  qed
qed

lemma append_double_old:
  assumes can: "can_append s k n b" and n: "110 < n" and r: "(n - 110) mod 100 \<noteq> 0"
  shows "\<exists>s' bs'. set_block_index k (int n) b s = Some s' \<and> appended s k n b s' bs' []"
proof -
  define bs where "bs = i_blocks (inode_table s ! nat k)"
  note D = can_appendD [OF can, folded bs_def]
  note M = meta_double [OF D(4) n]
  define q where "q = (n - 110) div 100"
  define r where "r = (n - 110) mod 100"
  have ns: "nsubs (Suc n) = nsubs n" "q < nsubs n" using nsubs_simps(1) [of n] n assms(3) by (auto simp: q_def)
  define t where "t = subs (B s) bs q"
  have al: "allocd s t" "allocd s (bs ! 11)" using D(9) ns(2) unfolding M(1) t_def by auto
  have j: "length (junk s) = 512" using D(1) by (simp add: fs_base_def)
  define buf where "buf = put_short (B s t) r b"
  from wr_blk_law [OF D(1), of t buf] obtain d where
    d: "wr_blk t buf s = s\<lparr>sdisk := d\<rparr>" "disk_ok d" "blk d = (B s)(t := buf)"
    using short_range [OF al(1)] by (auto simp: buf_def)
  have sub: "get_short (B s (bs ! 11)) q = t" by (simp add: t_def subs_def)
  have "\<not> t < 0" "\<not> bs ! 11 < 0" using short_range(2) al by (simp_all add: not_less)
  then have ev: "set_block_index k (int n) b s = Some (s\<lparr>sdisk := d\<rparr>)"
    using n D(2,3,5,8) d(1) unfolding bs_def [symmetric]
    by (simp add: set_block_index_def to_short_block arr_get_in rd_blk_law [OF D(1)] j nat_double sub Let_def
        bs_def [symmetric] q_def [symmetric] r_def [symmetric] buf_def [symmetric])
  have get: "get_short buf j = (if j = r then b else get_short (B s t) j)" for j
    using D(12) mod_less_divisor [of 100 "n - 110"] by (simp add: get_put_short buf_def r_def)
  have su: "subs (blk d) bs j = subs (B s) bs j" for j
    using M(4) [OF ns(2)] by (simp add: subs_def d(3) t_def)
  have me: "meta (blk d) bs (Suc n) = meta (B s) bs n @ []" using n ns(1) unfolding meta_def by (simp add: su)
  have keep: "bidx (blk d) bs i = bidx (B s) bs i" if i: "i < nslots n" "i \<noteq> n" for i
    unfolding d(3) t_def
  proof (rule bidx_double_upd [OF D(4) n D(8) i(1) ns(2)])
    fix j
    assume j: "(i - 110) div 100 = q" "j = (i - 110) mod 100"
    then have "110 \<le> i \<Longrightarrow> j \<noteq> r" using block_split_eq [of i n] i(2) n by (auto simp: q_def r_def)
    moreover have "r \<noteq> 0" using assms(3) by (simp add: r_def)
    ultimately have "j \<noteq> r" using j(2) by (cases "110 \<le> i") auto
    then show "get_short buf j = get_short (B s (subs (B s) bs q)) j" using get by (simp add: t_def)
  qed
  have "map_ok (blk d) bs (Suc n) \<and> data (blk d) bs (Suc n) = data (B s) bs n @ [b]"
  proof (rule map_ok_snoc [OF D(4,8,5) _ _ me])
    show "\<forall>x \<in> set [b]. 0 \<le> x \<and> x < 32768 \<and> x \<notin> set (data (B s) bs n @ meta (B s) bs n)"
      using D(7,10,11) by simp
    show "bidx (blk d) bs i = bidx (B s) bs i" if "i < n" for i using keep [of i] that nslots_ge [of n] by simp
    show "bidx (blk d) bs i = -1" if "n < i" "i < nslots (Suc n)" for i
      using keep [of i] map_ok_rest [OF D(4), of i] that n ns(1) by (simp add: nslots_def)
    show "bidx (blk d) bs n = b"
      using n get su by (simp add: bidx_def q_def [symmetric] r_def [symmetric] t_def [symmetric] d(3))
    show "subs (blk d) bs j = -1" if "nsubs (Suc n) \<le> j" "j < 10" for j
      using that D(4) n ns(1) su by (auto simp: map_ok_def)
  qed (use n in auto)
  moreover have "t \<in> set (meta (B s) bs n)" using ns(2) by (auto simp: M(1) t_def)
  ultimately have "appended s k n b (s\<lparr>sdisk := d\<rparr>) bs []"
    using D(1) d(2,3) me
    by (auto simp: appended_def fs_base_def allocd_def nfree_def bs_def [symmetric]) (simp add: bs_def)
  with ev show ?thesis by blast
qed

text \<open>Two block writes, one after the other.\<close>

lemma wr_blk_twice:
  assumes "fs_base s" "0 \<le> x" "length a = 512" "0 \<le> y" "length c = 512"
  shows "\<exists>d e. wr_blk x a s = s\<lparr>sdisk := d\<rparr> \<and> wr_blk y c (s\<lparr>sdisk := d\<rparr>) = s\<lparr>sdisk := e\<rparr> \<and>
    disk_ok d \<and> disk_ok e \<and> blk d = (B s)(x := a) \<and> blk e = (B s)(x := a, y := c)"
proof -
  from wr_blk_law [OF assms(1-3)] obtain d where
    d: "wr_blk x a s = s\<lparr>sdisk := d\<rparr>" "disk_ok d" "blk d = (B s)(x := a)" by blast
  have "fs_base (s\<lparr>sdisk := d\<rparr>)" using assms(1) d(2) by (simp add: fs_base_def)
  from wr_blk_law [OF this assms(4,5)] d show ?thesis by auto
qed

lemma get_fresh_table:
  assumes "to_short b = b" "length t = 512"
  shows "get_short (put_short (clear_shorts 100 t) 0 b) 0 = b"
    and "0 < j \<Longrightarrow> j < 100 \<Longrightarrow> get_short (put_short (clear_shorts 100 t) 0 b) j = -1"
  using assms by (simp_all add: get_put_short get_clear_shorts)

text \<open>The entries behind the first one of a new second-level table.\<close>

lemma new_sub_rest:
  assumes "110 \<le> n" "(n - 110) mod 100 = 0" "n < i" "i < nslots (Suc n)"
  shows "(i - 110) div 100 = (n - 110) div 100" "0 < (i - 110) mod 100" "110 \<le> i"
proof -
  define q where "q = (n - 110) div 100"
  have n: "n - 110 = 100 * q" using assms(2) div_mult_mod_eq [of "n - 110" 100] by (simp add: q_def)
  have "nslots (Suc n) = 110 + 100 * Suc q" using assms(1,2) nsubs_simps(2) [of n] by (simp add: nslots_def q_def)
  then have b: "100 * q < i - 110" "i - 110 < 100 * q + 100" using assms(1,3,4) n by auto
  show d: "(i - 110) div 100 = q" by (rule div_nat_eqI) (use b in simp_all)
  show "0 < (i - 110) mod 100" using b(1) d div_mult_mod_eq [of "i - 110" 100] by linarith
  show "110 \<le> i" using assms by linarith
qed

lemma append_double_sub:
  assumes can: "can_append s k n b" and n: "110 < n" and r: "(n - 110) mod 100 = 0" and mem: "1 \<le> nfree s"
  shows "\<exists>s' bs' c. set_block_index k (int n) b s = Some s' \<and> appended s k n b s' bs' [c]"
proof -
  define bs where "bs = i_blocks (inode_table s ! nat k)"
  note D = can_appendD [OF can, folded bs_def]
  note M = meta_double [OF D(4) n]
  define q where "q = (n - 110) div 100"
  have ns: "nsubs n = q" "nsubs (Suc n) = Suc q" using nsubs_simps(2) [of n] n r by (auto simp: q_def)
  have q10: "q < 10" using D(8) by (simp add: q_def less_mult_imp_div_less)
  have sq: "subs (B s) bs q = -1" using D(4) n ns(1) q10 by (auto simp: map_ok_def)
  define v where "v = bs ! 11"
  have al: "allocd s v" "allocd s (bs ! 10)" using D(9) unfolding M(1) v_def by auto
  have alj: "allocd s (subs (B s) bs j)" if "j < q" for j using D(9) ns(1) that unfolding M(1) by auto
  have j: "length (junk s) = 512" using D(1) by (simp add: fs_base_def)
  from get_block_law [OF _ D(1)] mem obtain e where
    e: "get_block s = Some (e, s\<lparr>disk_blocks := (disk_blocks s)[nat e := 1]\<rparr>)" "0 \<le> e" "e < 32768" "\<not> allocd s e"
      "Suc (nfree (s\<lparr>disk_blocks := (disk_blocks s)[nat e := 1]\<rparr>)) = nfree s" by auto
  define s1 where "s1 = s\<lparr>disk_blocks := (disk_blocks s)[nat e := 1]\<rparr>"
  have s1: "fs_base s1" "B s1 = B s" using D(1) by (simp_all add: s1_def fs_base_def)
  define buf1 where "buf1 = put_short (B s v) q e"
  define buf where "buf = put_short (clear_shorts 100 buf1) 0 b"
  have len: "length buf1 = 512" "length buf = 512" by (simp_all add: buf1_def buf_def)
  have v0: "0 \<le> v" by (rule short_range(2) [OF al(1)])
  from wr_blk_twice [OF s1(1) v0 len(1) e(2) len(2)] obtain d1 d where
    d: "wr_blk v buf1 s1 = s1\<lparr>sdisk := d1\<rparr>" "wr_blk e buf (s1\<lparr>sdisk := d1\<rparr>) = s1\<lparr>sdisk := d\<rparr>" "disk_ok d"
      "blk d = (B s)(v := buf1, e := buf)" unfolding s1(2) by blast
  have sub: "get_short (B s v) q = -1" using sq by (simp add: v_def subs_def)
  have ev: "set_block_index k (int n) b s = Some (s1\<lparr>sdisk := d\<rparr>)"
    using n D(2,3,5,8) d(1,2) v0 e(1) r unfolding bs_def [symmetric]
    by (simp add: set_block_index_def to_short_block arr_get_in rd_blk_law [OF D(1)] j nat_double sub Let_def
        bs_def [symmetric] v_def [symmetric] q_def [symmetric] buf1_def [symmetric] buf_def [symmetric] s1_def [symmetric])
  have ne: "e \<noteq> v" "bs ! 10 \<noteq> e" "bs ! 10 \<noteq> v" using e(4) al M(2) by (auto simp: v_def)
  have get1: "get_short buf1 i = (if i = q then e else get_short (B s v) i)" for i
    using q10 e(2,3) by (simp add: buf1_def get_put_short to_short_id)
  have su: "subs (blk d) bs i = (if i = q then e else subs (B s) bs i)" for i
    using ne(1) get1 by (simp add: subs_def d(4) v_def [symmetric])
  have me: "meta (blk d) bs (Suc n) = meta (B s) bs n @ [e]"
    using n ns by (simp add: meta_def su)
  have "map_ok (blk d) bs (Suc n) \<and> data (blk d) bs (Suc n) = data (B s) bs n @ [b]"
  proof (rule map_ok_snoc [OF D(4,8,5) _ _ me])
    show "distinct [b, e]" using D(6) e(4) by auto
    show "\<forall>x \<in> set [b, e]. 0 \<le> x \<and> x < 32768 \<and> x \<notin> set (data (B s) bs n @ meta (B s) bs n)"
      using D(7,9,10,11) e(2,3,4) by auto
    show "bidx (blk d) bs i = bidx (B s) bs i" if i: "i < n" for i
    proof (cases "i < 110")
      case True
      then show ?thesis using ne by (simp add: bidx_def d(4))
    next
      case False
      define p where "p = (i - 110) div 100"
      have p: "p < q" using sub_in_range [OF i] False ns(1) by (simp add: p_def)
      have "subs (B s) bs p \<noteq> v" "subs (B s) bs p \<noteq> e" using M(4) [of p] p ns(1) alj [OF p] e(4) by (auto simp: v_def)
      then show ?thesis using False p su by (simp add: bidx_def d(4) p_def [symmetric])
    qed
    show "bidx (blk d) bs n = b"
      using n su r get_fresh_table [OF D(12) len(1)] by (simp add: bidx_def q_def [symmetric] d(4) buf_def)
    show "bidx (blk d) bs i = -1" if "n < i" "i < nslots (Suc n)" for i
      using new_sub_rest [OF _ r that] n su get_fresh_table(2) [OF D(12) len(1)]
      by (simp add: bidx_def q_def [symmetric] d(4) buf_def)
    show "subs (blk d) bs i = -1" if "nsubs (Suc n) \<le> i" "i < 10" for i
      using that D(4) n ns su by (auto simp: map_ok_def)
  qed (use n in auto)
  moreover have "allocd (s1\<lparr>sdisk := d\<rparr>) x \<longleftrightarrow> allocd s x \<or> x = e" for x
    using allocd_upd [OF e(2,3), of s x] D(1) by (simp add: allocd_def fs_base_def s1_def)
  moreover have "v \<in> set (meta (B s) bs n)" by (simp add: M(1) v_def)
  ultimately have "appended s k n b (s1\<lparr>sdisk := d\<rparr>) bs [e]"
    using D(1) d(3,4) me e(4,5)
    by (auto simp: appended_def fs_base_def nfree_def bs_def [symmetric] s1_def) (simp add: bs_def)
  with ev show ?thesis by blast
qed

lemma append_double_first:
  assumes can: "can_append s k 110 b" and mem: "2 \<le> nfree s"
  shows "\<exists>s' bs' c e. set_block_index k 110 b s = Some s' \<and> appended s k 110 b s' bs' [c, e]"
proof -
  define nd where "nd = inode_table s ! nat k"
  define bs where "bs = i_blocks nd"
  note D = can_appendD [OF can, folded nd_def, folded bs_def]
  have b11: "bs ! 11 = -1" using D(4) by (auto simp: map_ok_def)
  have me0: "meta (B s) bs 110 = [bs ! 10]" by (simp add: meta_def)
  have al: "allocd s (bs ! 10)" using D(9) unfolding me0 by auto
  from get_block_law [OF _ D(1)] mem obtain c where
    c: "get_block s = Some (c, s\<lparr>disk_blocks := (disk_blocks s)[nat c := 1]\<rparr>)" "0 \<le> c" "c < 32768" "\<not> allocd s c"
      "Suc (nfree (s\<lparr>disk_blocks := (disk_blocks s)[nat c := 1]\<rparr>)) = nfree s" by auto
  define s1 where "s1 = s\<lparr>disk_blocks := (disk_blocks s)[nat c := 1]\<rparr>"
  define bs' where "bs' = bs[11 := c]"
  define s2 where "s2 = s1\<lparr>inode_table := (inode_table s)[nat k := nd\<lparr>i_blocks := bs'\<rparr>]\<rparr>"
  have s2: "fs_base s2" "B s2 = B s" "junk s2 = junk s" "length (junk s) = 512"
    using D(1) by (simp_all add: s2_def s1_def fs_base_def)
  have sb: "set_blocks k 11 c s1 = Some s2"
    using set_blocks_law [of k s1 11 c] D(2,3,5) by (simp add: s2_def s1_def bs'_def bs_def nd_def)
  define t0 where "t0 = clear_shorts 10 (junk s)"
  have lt0: "length t0 = 512" using s2(4) by (simp add: t0_def)
  from wr_blk_law [OF s2(1) c(2) lt0] obtain d0 where
    d0: "wr_blk c t0 s2 = s2\<lparr>sdisk := d0\<rparr>" "disk_ok d0" "blk d0 = (B s)(c := t0)" unfolding s2(2) by blast
  define s3 where "s3 = s2\<lparr>sdisk := d0\<rparr>"
  have s3: "fs_base s3" "B s3 = (B s)(c := t0)" "disk_blocks s3 = (disk_blocks s)[nat c := 1]"
    using s2(1) d0(2,3) by (simp_all add: s3_def s2_def s1_def fs_base_def)
  have al3: "allocd s3 x \<longleftrightarrow> allocd s x \<or> x = c" for x
    using allocd_upd [OF c(2,3), of s x] D(1) s3(3) by (simp add: allocd_def fs_base_def)
  have nf3: "Suc (nfree s3) = nfree s" using c(5) by (simp add: nfree_def s3(3))
  then have "0 < nfree s3" using mem by linarith
  from get_block_law [OF this s3(1)] obtain e where
    e: "get_block s3 = Some (e, s3\<lparr>disk_blocks := (disk_blocks s3)[nat e := 1]\<rparr>)" "0 \<le> e" "e < 32768" "\<not> allocd s3 e"
      "Suc (nfree (s3\<lparr>disk_blocks := (disk_blocks s3)[nat e := 1]\<rparr>)) = nfree s3" by auto
  define s4 where "s4 = s3\<lparr>disk_blocks := (disk_blocks s3)[nat e := 1]\<rparr>"
  have s4: "fs_base s4" "B s4 = (B s)(c := t0)" using s3 by (simp_all add: s4_def fs_base_def)
  define t1 where "t1 = put_short t0 0 e"
  define t2 where "t2 = put_short (clear_shorts 100 t1) 0 b"
  have len: "length t1 = 512" "length t2 = 512" using lt0 by (simp_all add: t1_def t2_def)
  from wr_blk_twice [OF s4(1) c(2) len(1) e(2) len(2)] obtain d1 d where
    d: "wr_blk c t1 s4 = s4\<lparr>sdisk := d1\<rparr>" "wr_blk e t2 (s4\<lparr>sdisk := d1\<rparr>) = s4\<lparr>sdisk := d\<rparr>" "disk_ok d"
      "blk d = (B s)(c := t1, e := t2)" unfolding s4(2) by auto
  have sub: "get_short t0 0 = -1" using s2(4) by (simp add: t0_def get_clear_shorts)
  have ev: "set_block_index k 110 b s = Some (s4\<lparr>sdisk := d\<rparr>)"
    using D(2,3,5) b11 c(1) sb d0(1) e(1) d(1,2) sub to_short_block [of 110]
    by (simp add: set_block_index_def arr_get_in s2(3) nd_def [symmetric] bs_def [symmetric] s1_def [symmetric]
        t0_def [symmetric] s3_def [symmetric] s4_def [symmetric] t1_def [symmetric] t2_def [symmetric] Let_def)
  have ne: "e \<noteq> c" "e \<noteq> bs ! 10" "c \<noteq> bs ! 10" "\<not> allocd s e" using e(4) al3 al c(4) by auto
  have get1: "get_short t1 i = (if i = 0 then e else if i < 10 then -1 else get_short (junk s) i)" for i
    using lt0 e(2,3) s2(4) by (simp add: t1_def t0_def get_put_short to_short_id get_clear_shorts)
  have su: "subs (blk d) bs' i = get_short t1 i" for i
    using ne(1) D(5) by (simp add: subs_def d(4) bs'_def)
  have ns: "nsubs (Suc 110) = 1" by (simp add: nsubs_def)
  have me: "meta (blk d) bs' (Suc 110) = meta (B s) bs 110 @ [c, e]"
    using D(5) su get1 unfolding meta_def ns by (simp add: bs'_def)
  have "map_ok (blk d) bs' (Suc 110) \<and> data (blk d) bs' (Suc 110) = data (B s) bs 110 @ [b]"
  proof (rule map_ok_snoc [OF D(4,8) _ _ _ me])
    show "distinct [b, c, e]" using D(6) c(4) ne by auto
    show "\<forall>x \<in> set [b, c, e]. 0 \<le> x \<and> x < 32768 \<and> x \<notin> set (data (B s) bs 110 @ meta (B s) bs 110)"
      using D(7,9,10,11) c(2,3,4) e(2,3) ne(4) by auto
    show "bidx (blk d) bs' i = bidx (B s) bs i" if "i < 110" for i
      using that ne D(5) by (simp add: bidx_def d(4) bs'_def)
    show "bidx (blk d) bs' 110 = b"
      using su get1 get_fresh_table [OF D(12) len(1)] by (simp add: bidx_def d(4) t2_def)
    show "bidx (blk d) bs' i = -1" if "110 < i" "i < nslots (Suc 110)" for i
      using new_sub_rest [OF _ _ that] su get1 get_fresh_table(2) [OF D(12) len(1)] by (simp add: bidx_def d(4) t2_def)
    show "subs (blk d) bs' i = -1" if "nsubs (Suc 110) \<le> i" "i < 10" for i
      using that su get1 unfolding ns by simp
  qed (use D(5) in \<open>simp_all add: bs'_def\<close>)
  moreover have "allocd (s4\<lparr>sdisk := d\<rparr>) x \<longleftrightarrow> allocd s x \<or> x = c \<or> x = e" for x
    using allocd_upd [OF e(2,3), of s3 x] s3(1) al3 [of x] by (auto simp: allocd_def fs_base_def s4_def)
  moreover have "Suc (Suc (nfree (s4\<lparr>sdisk := d\<rparr>))) = nfree s"
    using e(5) nf3 by (simp add: s4_def nfree_def)
  ultimately have "appended s k 110 b (s4\<lparr>sdisk := d\<rparr>) bs' [c, e]"
    using s4(1) d(3,4) me c(4) ne
    by (simp add: appended_def fs_base_def nd_def [symmetric] bs_def [symmetric])
      (simp add: s4_def s3_def s2_def s1_def)
  with ev show ?thesis by blast
qed

text \<open>At most two tables are needed for one block.\<close>

lemma append_ms_length:
  assumes can: "can_append s k n b" and ap: "appended s k n b s' bs' ms"
  shows "length ms \<le> 2"
proof -
  define bs where "bs = i_blocks (inode_table s ! nat k)"
  have "length (meta (B s') bs' (Suc n)) = length (meta (B s) bs n) + length ms"
    using ap by (simp add: appended_def Let_def bs_def)
  moreover have "length (meta (B s') bs' (Suc n)) \<le> length (meta (B s) bs n) + 2"
  proof (cases "110 \<le> n")
    case True
    then show ?thesis
      using nsubs_simps [of n] by (cases "(n - 110) mod 100 = 0") (auto simp: meta_def nsubs_def)
  qed (auto simp: meta_def)
  ultimately show ?thesis by simp
qed

lemma set_block_index_law:
  assumes "can_append s k n b" "2 \<le> nfree s"
  shows "\<exists>s' bs' ms. set_block_index k (int n) b s = Some s' \<and> appended s k n b s' bs' ms"
proof -
  consider "n < 10" | "n = 10" | "10 < n" "n < 110" | "n = 110" | "110 < n" by linarith
  then show ?thesis
  proof cases
    case 1
    then show ?thesis using append_direct [OF assms(1)] by blast
  next
    case 2
    then show ?thesis using append_single_new [of s k b] assms by auto
  next
    case 3
    then show ?thesis using append_single_old [OF assms(1)] by blast
  next
    case 4
    then show ?thesis using append_double_first [of s k b] assms by auto
  next
    case 5
    then show ?thesis
      using append_double_old [OF assms(1)] append_double_sub [OF assms(1)] assms(2)
      by (cases "(n - 110) mod 100 = 0") auto
  qed
qed

text \<open>
  Claim C3. Appending a block to a file's block map, at any size below 1110 blocks, with two free blocks for
  tables: the file's blocks are the old ones followed by the new one, its tables
  are different from each other and from all data blocks, every new table was free, and no block
  but the file's own tables is written.
\<close>

theorem set_block_index_appends:
  assumes "can_append s k n b" "2 \<le> nfree s"
  shows "\<exists>s' bs' ms. set_block_index k (int n) b s = Some s' \<and> appended s k n b s' bs' ms"
  by (rule set_block_index_law [OF assms])

end
