(* ===== verification/Sfs_File_Data.thy ===== *)
theory Sfs_File_Data
  imports Sfs_Block_Map
begin

text \<open>
  What reading and appending do to the contents of a file. The contents of a file are the bytes
  of its blocks in the order of its block map, cut at its size. \<open>sfs_read\<close> returns the requested part of
  them and \<open>sfs_write\<close> at the end of the file appends.
\<close>

section \<open>Block arithmetic\<close>

lemma to_int_wrap: "to_int (36028797018963968 + 1) = 1"
  by (simp add: to_int_def)

lemma u64_id: "0 \<le> i \<Longrightarrow> i < 18446744073709551616 \<Longrightarrow> u64 i = i"
  by (simp add: u64_def)

lemma ceil_512: "0 \<le> x \<Longrightarrow> x div 512 + (if x mod 512 \<noteq> 0 then 1 else 0) = (x + 511) div (512::int)"
proof -
  assume "0 \<le> x"
  have x: "x = 512 * (x div 512) + x mod 512" by simp
  have r: "0 \<le> x mod 512" "x mod 512 < 512" by simp_all
  show ?thesis
  proof (cases "x mod 512 = 0")
    case True
    have "(x + 511) div 512 = x div 512"
      by (rule int_div_pos_eq [of _ _ _ 511]) (use x True in auto)
    with True show ?thesis by simp
  next
    case False
    have "(x + 511) div 512 = x div 512 + 1"
      by (rule int_div_pos_eq [of _ _ _ "x mod 512 - 1"]) (use x r False in auto)
    with False show ?thesis by simp
  qed
qed

lemma xfer_blocks_law:
  assumes len: "0 \<le> len" and off: "0 \<le> offset" and small: "offset + len < 549755813888"
  shows "xfer_blocks len offset = (offset mod 512 + len + 511) div 512"
proof -
  define bo where "bo = offset mod 512"
  have bo: "c_mod offset 512 = bo" using off by (simp add: c_mod_nonneg bo_def)
  have r: "0 \<le> bo" "bo < 512" "bo \<le> offset" using off by (simp_all add: bo_def zmod_le_nonneg_dividend)
  have ol: "u64 (offset + len) = offset + len" using assms by (intro u64_id) auto
  have m: "(offset + len) mod 512 = (bo + len) mod 512" by (simp add: mod_add_left_eq bo_def)
  have bl: "0 \<le> bo + len" "bo + len < 549755813888" using r len small by linarith+
  define c where "c = (bo + len) div 512 + (if (bo + len) mod 512 \<noteq> 0 then 1 else 0)"
  have ce: "c = (bo + len + 511) div 512" unfolding c_def by (rule ceil_512 [OF bl(1)])
  have d: "0 \<le> c" "c < 2147483648"
    using bl zdiv_mono1 [of "bo + len + 511" "549755813888 + 511" 512] unfolding ce by simp_all
  have goal: "xfer_blocks len offset = c"
    if "(if bo \<noteq> 0 then 1 else 0) + u64 (len - (if bo \<noteq> 0 then 512 - bo else 0)) div 512 = (bo + len) div 512"
    using that d unfolding xfer_blocks_def bo ol m Let_def c_def by (simp add: u64_id to_int_id)
  consider "bo = 0" | "bo \<noteq> 0" "512 - bo \<le> len" | "bo \<noteq> 0" "len < 512 - bo" by linarith
  then have "xfer_blocks len offset = c"
  proof cases
    case 1
    have "u64 len = len" using assms by (intro u64_id) auto
    with 1 show ?thesis by (intro goal) simp
  next
    case 2
    have "u64 (len - (512 - bo)) = len - (512 - bo)" using 2 assms r by (intro u64_id) auto
    moreover have "bo + len = (len - (512 - bo)) + 512" by simp
    then have "(bo + len) div 512 = (len - (512 - bo)) div 512 + 1" by (metis div_add_self2 zero_neq_numeral)
    ultimately show ?thesis using 2 by (intro goal) simp
  next
    case 3
    define x where "x = 512 - bo - len"
    have x: "0 < x" "x < 512" "len - (512 - bo) = - x" using 3 r len by (auto simp: x_def)
    have "(- x) mod 18446744073709551616 = (18446744073709551616 - x) mod 18446744073709551616" by simp
    also have "\<dots> = 18446744073709551616 - x" using x by (intro mod_pos_pos_trivial) auto
    finally have "u64 (- x) = 18446744073709551616 - x" unfolding u64_def .
    moreover have "(18446744073709551616 - x) div 512 = 36028797018963967"
      by (rule int_div_pos_eq [of _ _ _ "512 - x"]) (use x in auto)
    moreover have "(bo + len) mod 512 = bo + len" "(bo + len) div 512 = 0" using 3 r len by auto
    moreover have "bo + len \<noteq> 0" using 3 r len by linarith
    ultimately show ?thesis using 3(1) to_int_wrap x(3)
      unfolding xfer_blocks_def bo ol m Let_def c_def by (simp add: u64_id)
  qed
  then show ?thesis unfolding ce bo_def .
qed

lemma length_blocks: "\<forall>x \<in> set xs. length x = 512 \<Longrightarrow> length (concat xs) = 512 * length xs"
  by (induction xs) auto

lemma drop_blocks: "\<forall>x \<in> set xs. length x = 512 \<Longrightarrow> drop (512 * a) (concat xs) = concat (drop a xs)"
proof (induction xs arbitrary: a)
  case (Cons x xs)
  then show ?case by (cases a) auto
qed simp

lemma take_blocks: "\<forall>x \<in> set xs. length x = 512 \<Longrightarrow> take (512 * a) (concat xs) = concat (take a xs)"
proof (induction xs arbitrary: a)
  case (Cons x xs)
  then show ?case by (cases a) auto
qed simp

lemma ceil_ge: "x \<le> 512 * ((x + 511) div (512::nat))"
  using mult_div_mod_eq [of 512 "x + 511"] mod_less_divisor [of 512 "x + 511"] by linarith

section \<open>Files\<close>

definition file_blocks :: "sfs \<Rightarrow> int \<Rightarrow> int list" where
  "file_blocks s k = (let n = inode_table s ! nat k in data (B s) (i_blocks n) (nat (st_blocks (i_stat n))))"

definition file_tables :: "sfs \<Rightarrow> int \<Rightarrow> int list" where
  "file_tables s k = (let n = inode_table s ! nat k in meta (B s) (i_blocks n) (nat (st_blocks (i_stat n))))"

definition file_size :: "sfs \<Rightarrow> int \<Rightarrow> nat" where
  "file_size s k = nat (st_size (i_stat (inode_table s ! nat k)))"

text \<open>The contents of a file: the abstract state that reading and writing refine.\<close>

definition file_data :: "sfs \<Rightarrow> int \<Rightarrow> string" where
  "file_data s k = take (file_size s k) (concat (map (B s) (file_blocks s k)))"

definition file_ok :: "sfs \<Rightarrow> int \<Rightarrow> bool" where
  "file_ok s k \<longleftrightarrow> fs_base s \<and> 0 \<le> k \<and> k < int (length (inode_table s)) \<and>
     (let n = inode_table s ! nat k; nb = (file_size s k + 511) div 512
      in 0 \<le> st_size (i_stat n) \<and> st_blocks (i_stat n) = int nb \<and> map_ok (B s) (i_blocks n) nb \<and>
         (\<forall>x \<in> set (file_blocks s k @ file_tables s k). allocd s x))"

definition opened :: "sfs \<Rightarrow> int \<Rightarrow> int \<Rightarrow> bool" where
  "opened s fh k \<longleftrightarrow> 0 \<le> fh \<and> fh \<le> 127 \<and> length (open_files s) = 128 \<and> f_ino (open_files s ! nat fh) = k \<and> 0 \<le> k"

lemma file_okD:
  assumes "file_ok s k"
  defines "n \<equiv> inode_table s ! nat k" and "nb \<equiv> (file_size s k + 511) div 512"
  shows "fs_base s" "0 \<le> k" "k < int (length (inode_table s))" "st_size (i_stat n) = int (file_size s k)"
    "st_blocks (i_stat n) = int nb" "map_ok (B s) (i_blocks n) nb" "length (i_blocks n) = 12" "nb \<le> 1110"
    "file_blocks s k = data (B s) (i_blocks n) nb" "file_tables s k = meta (B s) (i_blocks n) nb"
    "x \<in> set (file_blocks s k @ file_tables s k) \<Longrightarrow> allocd s x"
  using assms by (auto simp: file_ok_def file_size_def Let_def map_ok_def file_blocks_def file_tables_def)

lemma read_loop_law:
  assumes b: "fs_base s" "0 \<le> k" "k < int (length (inode_table s))" "length (i_blocks (inode_table s ! nat k)) = 12"
  shows "first + n \<le> 1110 \<Longrightarrow> read_loop k (int first) n s =
    Some (concat (map (\<lambda>i. B s (bidx (B s) (i_blocks (inode_table s ! nat k)) i)) [first..<first + n]))"
proof (induction n arbitrary: first)
  case (Suc n)
  have "get_block_index k (int first) s = Some (bidx (B s) (i_blocks (inode_table s ! nat k)) first)"
    using b Suc.prems by (intro get_block_index_law) auto
  moreover have "read_loop k (int first + 1) n s =
      Some (concat (map (\<lambda>i. B s (bidx (B s) (i_blocks (inode_table s ! nat k)) i)) [Suc first..<Suc first + n]))"
    using Suc.IH [of "Suc first"] Suc.prems by (simp add: add.commute)
  moreover have "[first..<first + Suc n] = first # [Suc first..<Suc first + n]" by (simp add: upt_conv_Cons)
  ultimately show ?case using b(1) by (simp add: rd_blk_law fs_base_def)
qed simp

lemma read_window:
  assumes xs: "\<forall>x \<in> set xs. length x = 512" and n: "bo + len \<le> 512 * n" and m: "a + n \<le> length xs"
    and sz: "512 * a + bo + len \<le> sz"
  shows "take len (drop bo (concat (take n (drop a xs)))) = take len (drop (512 * a + bo) (take sz (concat xs)))"
proof -
  have d: "\<forall>x \<in> set (drop a xs). length x = 512" using xs by (meson in_set_dropD)
  have "concat (take n (drop a xs)) = take (512 * n) (drop (512 * a) (concat xs))"
    using take_blocks [OF d] drop_blocks [OF xs] by metis
  then have "take len (drop bo (concat (take n (drop a xs)))) = take len (drop bo (drop (512 * a) (concat xs)))"
    using n by (simp add: drop_take min_def)
  then show ?thesis using sz by (simp add: drop_take min_def add.commute)
qed

lemma sfs_read_law:
  assumes ok: "file_ok s k" and fh: "opened s fh k" and len: "0 \<le> len" "len < 9223372036854775808"
    and off: "off < file_size s k"
  shows "sfs_read fh len (int off) s =
    (let d = take (nat len) (drop off (file_data s k)) in Some (int (length d), d))"
proof -
  note D = file_okD [OF ok]
  define bs where "bs = i_blocks (inode_table s ! nat k)"
  define sz where "sz = file_size s k"
  define nb where "nb = (sz + 511) div 512"
  define l where "l = min (nat len) (sz - off)"
  define a where "a = off div 512"
  define bo where "bo = off mod 512"
  define n where "n = (bo + l + 511) div 512"
  have ab: "off = 512 * a + bo" "bo < 512" by (simp_all add: a_def bo_def)
  have nb1: "nb \<le> 1110" using D(8) by (simp add: nb_def sz_def)
  have sz2: "sz \<le> 512 * nb" unfolding nb_def by (rule ceil_ge)
  have sz: "sz \<le> 512 * 1110" "sz \<le> 512 * nb" "off + l \<le> sz"
    using nb1 sz2 off by (simp_all add: l_def sz_def [symmetric])
  have nbl: "bo + l \<le> 512 * n" unfolding n_def by (rule ceil_ge)
  have anb: "a + n \<le> nb"
  proof -
    have "a + n = (512 * a + (bo + l + 511)) div 512" by (simp add: n_def)
    also have "\<dots> \<le> (sz + 511) div 512" using sz(3) ab(1) by (intro div_le_mono) simp
    finally show ?thesis by (simp add: nb_def)
  qed
  have xb: "xfer_blocks (int l) (int off) = int n"
    using xfer_blocks_law [of "int l" "int off"] sz by (simp add: n_def bo_def zdiv_int zmod_int)
  have u: "u64 (int off + len) = int off + len" "u64 (int sz) = int sz" "u64 (int sz - int off) = int (sz - off)"
    using len sz off by (auto simp: u64_id sz_def)
  have l: "(if u64 (int off + len) > u64 (int sz) then u64 (int sz - int off) else len) = int l"
    unfolding u using len off by (auto simp: l_def sz_def min_def)
  have rl: "read_loop k (int a) n s = Some (concat (map (\<lambda>i. B s (bidx (B s) bs i)) [a..<a + n]))"
    using read_loop_law [OF D(1,2,3,7), of a n] D(8) anb by (simp add: bs_def nb_def sz_def)
  let ?xs = "map (\<lambda>i. B s (bidx (B s) bs i)) [0..<nb]"
  have al: "map (\<lambda>i. B s (bidx (B s) bs i)) [a..<a + n] = take n (drop a ?xs)"
    using anb by (simp add: drop_map take_map)
  have fd: "file_data s k = take sz (concat ?xs)"
    using D(9) by (simp add: file_data_def data_def comp_def bs_def nb_def sz_def)
  have win: "take l (drop bo (concat (take n (drop a ?xs)))) = take (nat len) (drop off (file_data s k))"
  proof -
    have "length (concat ?xs) = 512 * nb" using length_blocks [of ?xs] by simp
    then have lf: "length (file_data s k) = sz" using sz(2) by (simp add: fd)
    have "take l (drop bo (concat (take n (drop a ?xs)))) = take l (drop off (file_data s k))"
      using read_window [of ?xs bo l n a sz] nbl anb sz(3) ab(1) by (simp add: fd)
    also have "\<dots> = take (nat len) (drop off (file_data s k))" using lf by (auto simp: l_def min_def)
    finally show ?thesis .
  qed
  have "\<forall>x \<in> set (take n (drop a ?xs)). length x = 512"
    unfolding al [symmetric] by simp
  from length_blocks [OF this] have ln: "length (concat (take n (drop a ?xs))) = 512 * n"
    using anb by simp
  have lw: "length (take l (drop bo (concat (take n (drop a ?xs))))) = l"
    unfolding length_take length_drop ln using nbl by linarith
  have st: "to_int (c_div (int off) 512) = int a" "c_mod (int off) 512 = int bo"
    using sz by (simp_all add: c_div_nonneg c_mod_nonneg a_def bo_def zdiv_int zmod_int to_int_id)
  have li: "to_int (int l) = int l" using sz by (intro to_int_id) auto
  have f: "arr_get (open_files s) fh = Some (open_files s ! nat fh)" "f_ino (open_files s ! nat fh) = k" "\<not> fh > 127"
    using fh by (auto simp: opened_def arr_get_in)
  have "sfs_read fh len (int off) s = Some (int l, take l (drop bo (concat (take n (drop a ?xs)))))"
  proof (cases "u64 (int sz) < u64 (int off + len)")
    case True
    with l have "u64 (int sz - int off) = int l" by simp
    with True f D(2,3) off nbl show ?thesis
      by (simp add: sfs_read_def arr_get_in D(4) sz_def [symmetric] st xb rl al ln li Let_def)
  next
    case False
    with l have "len = int l" by simp
    with False f D(2,3) off nbl show ?thesis
      by (simp add: sfs_read_def arr_get_in D(4) sz_def [symmetric] st xb rl al ln li Let_def)
  qed
  with win lw show ?thesis by (metis (no_types, lifting))
qed

section \<open>Growing a file\<close>

text \<open>Inode \<open>k\<close> has \<open>n\<close> blocks, all allocated.\<close>

definition has_blocks :: "sfs \<Rightarrow> int \<Rightarrow> nat \<Rightarrow> bool" where
  "has_blocks s k n \<longleftrightarrow> fs_base s \<and> 0 \<le> k \<and> k < int (length (inode_table s)) \<and>
     (let nd = inode_table s ! nat k
      in st_blocks (i_stat nd) = int n \<and> map_ok (B s) (i_blocks nd) n \<and>
         (\<forall>x \<in> set (data (B s) (i_blocks nd) n @ meta (B s) (i_blocks nd) n). allocd s x))"

text \<open>\<open>s'\<close> is \<open>s\<close> with the blocks \<open>new\<close> added to inode \<open>k\<close>, which had \<open>n\<close>.\<close>

definition grown :: "sfs \<Rightarrow> int \<Rightarrow> nat \<Rightarrow> int list \<Rightarrow> sfs \<Rightarrow> bool" where
  "grown s k n new s' \<longleftrightarrow>
     (let nd = inode_table s ! nat k; bs' = i_blocks (inode_table s' ! nat k); m = n + length new
      in s' = s\<lparr>inode_table := (inode_table s)[nat k := nd\<lparr>i_blocks := bs',
                  i_stat := (i_stat nd)\<lparr>st_blocks := int m\<rparr>\<rparr>],
                disk_blocks := disk_blocks s', sdisk := sdisk s'\<rparr> \<and>
         has_blocks s' k m \<and> data (B s') bs' m = data (B s) (i_blocks nd) n @ new \<and>
         set (meta (B s) (i_blocks nd) n) \<subseteq> set (meta (B s') bs' m) \<and>
         (\<forall>x \<in> set new \<union> set (meta (B s') bs' m). allocd s x \<longrightarrow> x \<in> set (meta (B s) (i_blocks nd) n)) \<and>
         (\<forall>x. allocd s' x \<longleftrightarrow> allocd s x \<or> x \<in> set new \<union> set (meta (B s') bs' m)) \<and>
         (\<forall>x. x \<notin> set (meta (B s') bs' m) \<longrightarrow> B s' x = B s x) \<and> nfree s \<le> nfree s' + 3 * length new)"

lemma grown_refl: "has_blocks s k n \<Longrightarrow> grown s k n [] s"
proof -
  assume h: "has_blocks s k n"
  let ?nd = "inode_table s ! nat k"
  have "int n = st_blocks (i_stat ?nd)" using h by (simp add: has_blocks_def Let_def)
  then have "?nd\<lparr>i_stat := (i_stat ?nd)\<lparr>st_blocks := int n\<rparr>\<rparr> = ?nd" by simp
  moreover have "allocd s x" if "x \<in> set (meta (B s) (i_blocks ?nd) n)" for x using h that by (simp add: has_blocks_def Let_def)
  ultimately show "grown s k n [] s" using h by (auto simp: grown_def Let_def)
qed

lemma grown_step:
  assumes h: "has_blocks s k n" and n: "n < 1110" and mem: "3 \<le> nfree s"
  shows "\<exists>b s1 s2 s3. get_block s = Some (b, s1) \<and> 0 \<le> b \<and> set_block_index k (int n) b s1 = Some s2 \<and>
    upd_stat k (\<lambda>t. t\<lparr>st_blocks := st_blocks t + 1\<rparr>) s2 = Some s3 \<and> grown s k n [b] s3"
proof -
  define nd where "nd = inode_table s ! nat k"
  define bs where "bs = i_blocks nd"
  have H: "fs_base s" "0 \<le> k" "k < int (length (inode_table s))" "st_blocks (i_stat nd) = int n" "map_ok (B s) bs n"
      "\<And>x. x \<in> set (data (B s) bs n @ meta (B s) bs n) \<Longrightarrow> allocd s x"
    using h by (simp_all add: has_blocks_def nd_def bs_def Let_def)
  from get_block_law [OF _ H(1)] mem obtain b where
    b: "get_block s = Some (b, s\<lparr>disk_blocks := (disk_blocks s)[nat b := 1]\<rparr>)" "0 \<le> b" "b < 32768" "\<not> allocd s b"
      "Suc (nfree (s\<lparr>disk_blocks := (disk_blocks s)[nat b := 1]\<rparr>)) = nfree s" by auto
  define s1 where "s1 = s\<lparr>disk_blocks := (disk_blocks s)[nat b := 1]\<rparr>"
  have s1: "fs_base s1" "B s1 = B s" "inode_table s1 = inode_table s" using H(1) by (simp_all add: s1_def fs_base_def)
  have al1: "allocd s1 x \<longleftrightarrow> allocd s x \<or> x = b" for x
    using allocd_upd [OF b(2,3), of s x] H(1) by (simp add: s1_def fs_base_def)
  have can: "can_append s1 k n b"
    using H n s1 al1 b(4) by (auto simp: can_append_def nd_def [symmetric] bs_def [symmetric])
  have "2 \<le> nfree s1" using b(5) mem by (simp add: s1_def)
  from set_block_index_law [OF can this] obtain s2 bs' ms where
    e2: "set_block_index k (int n) b s1 = Some s2" and a2: "appended s1 k n b s2 bs' ms" by blast
  have A: "s2 = s1\<lparr>inode_table := (inode_table s)[nat k := nd\<lparr>i_blocks := bs'\<rparr>],
        disk_blocks := disk_blocks s2, sdisk := sdisk s2\<rparr>" "fs_base s2" "map_ok (B s2) bs' (Suc n)"
      "data (B s2) bs' (Suc n) = data (B s) bs n @ [b]" "meta (B s2) bs' (Suc n) = meta (B s) bs n @ ms"
      "\<And>x. x \<in> set ms \<Longrightarrow> \<not> allocd s1 x" "\<And>x. allocd s2 x \<longleftrightarrow> allocd s1 x \<or> x \<in> set ms"
      "nfree s2 + length ms = nfree s1" "\<And>x. x \<notin> set (meta (B s2) bs' (Suc n)) \<Longrightarrow> B s2 x = B s x" "length ms \<le> 2"
    using a2 append_ms_length [OF can a2] by (simp_all add: appended_def s1 Let_def nd_def [symmetric] bs_def [symmetric])
  define nd' where "nd' = nd\<lparr>i_blocks := bs', i_stat := (i_stat nd)\<lparr>st_blocks := int (Suc n)\<rparr>\<rparr>"
  define s3 where "s3 = s2\<lparr>inode_table := (inode_table s)[nat k := nd']\<rparr>"
  have it: "inode_table s2 = (inode_table s)[nat k := nd\<lparr>i_blocks := bs'\<rparr>]" using arg_cong [OF A(1), of inode_table] by simp
  have kl: "nat k < length (inode_table s)" using H(2,3) by simp
  have e3: "upd_stat k (\<lambda>t. t\<lparr>st_blocks := st_blocks t + 1\<rparr>) s2 = Some s3"
    using H(2,3,4) kl by (simp add: upd_stat_def upd_inode_def it arr_get_in arr_set_in s3_def nd'_def add.commute)
  have s3: "inode_table s3 ! nat k = nd'" "B s3 = B s2" "fs_base s3" "disk_blocks s3 = disk_blocks s2" "sdisk s3 = sdisk s2"
    using kl A(2) by (simp_all add: s3_def fs_base_def)
  have al3: "allocd s3 x \<longleftrightarrow> allocd s x \<or> x = b \<or> x \<in> set ms" for x
    using A(7) al1 by (auto simp: allocd_def s3(4))
  have hb: "has_blocks s3 k (Suc n)"
    unfolding has_blocks_def Let_def s3(1,2)
    using H(2,3,6) s3(3) A(3-5) al3 by (auto simp: nd'_def s3_def)
  have eq: "s3 = s\<lparr>inode_table := (inode_table s)[nat k := nd'], disk_blocks := disk_blocks s3, sdisk := sdisk s3\<rparr>"
    unfolding s3_def by (subst A(1)) (simp add: s1_def)
  have "nfree s3 = nfree s2" by (simp add: nfree_def s3(4))
  then have nf: "nfree s \<le> nfree s3 + 3" using A(8,10) b(5) by (simp add: s1_def)
  have "grown s k n [b] s3"
    unfolding grown_def Let_def s3(1,2) nd_def [symmetric] bs_def [symmetric]
    using eq hb A(4,5,9) al3 nf A(6) al1 b(4) H(6) by (auto simp: nd'_def)
  with b(1,2) e2 e3 show ?thesis unfolding s1_def by blast
qed

lemma grownD:
  assumes "grown s k n new s'"
  defines "nd \<equiv> inode_table s ! nat k" and "bs' \<equiv> i_blocks (inode_table s' ! nat k)" and "m \<equiv> n + length new"
  shows "s' = s\<lparr>inode_table := (inode_table s)[nat k := nd\<lparr>i_blocks := bs', i_stat := (i_stat nd)\<lparr>st_blocks := int m\<rparr>\<rparr>],
      disk_blocks := disk_blocks s', sdisk := sdisk s'\<rparr>"
    "has_blocks s' k m" "data (B s') bs' m = data (B s) (i_blocks nd) n @ new"
    "set (meta (B s) (i_blocks nd) n) \<subseteq> set (meta (B s') bs' m)"
    "\<And>x. x \<in> set new \<union> set (meta (B s') bs' m) \<Longrightarrow> allocd s x \<Longrightarrow> x \<in> set (meta (B s) (i_blocks nd) n)"
    "\<And>x. allocd s x \<Longrightarrow> allocd s' x" "\<And>x. x \<notin> set (meta (B s') bs' m) \<Longrightarrow> B s' x = B s x"
    "nfree s \<le> nfree s' + 3 * length new"
    "\<And>x. allocd s' x \<Longrightarrow> x \<notin> set new \<union> set (meta (B s') bs' m) \<Longrightarrow> allocd s x"
    "\<And>x. x \<in> set new \<union> set (meta (B s') bs' m) \<Longrightarrow> allocd s' x"
  using assms unfolding grown_def Let_def by blast+

lemma grown_trans:
  assumes k: "0 \<le> k" "k < int (length (inode_table s))"
    and 1: "grown s k n xs s'" and 2: "grown s' k (n + length xs) ys s''"
  shows "grown s k n (xs @ ys) s''"
proof -
  define nd where "nd = inode_table s ! nat k"
  define nd' where "nd' = inode_table s' ! nat k"
  define nd'' where "nd'' = inode_table s'' ! nat k"
  note G = grownD [OF 1, folded nd_def nd'_def] and H = grownD [OF 2, folded nd'_def nd''_def]
  have kl: "nat k < length (inode_table s)" using k by simp
  have it: "inode_table s' = (inode_table s)[nat k := nd\<lparr>i_blocks := i_blocks nd',
      i_stat := (i_stat nd)\<lparr>st_blocks := int (n + length xs)\<rparr>\<rparr>]" using arg_cong [OF G(1), of inode_table] by simp
  have nd': "nd' = nd\<lparr>i_blocks := i_blocks nd', i_stat := (i_stat nd)\<lparr>st_blocks := int (n + length xs)\<rparr>\<rparr>"
  proof -
    have "inode_table s' ! nat k = nd\<lparr>i_blocks := i_blocks nd', i_stat := (i_stat nd)\<lparr>st_blocks := int (n + length xs)\<rparr>\<rparr>"
      using kl by (subst it) simp
    then show ?thesis unfolding nd'_def [symmetric] .
  qed
  have "s'' = s'\<lparr>inode_table := (inode_table s)[nat k := nd\<lparr>i_blocks := i_blocks nd'',
      i_stat := (i_stat nd)\<lparr>st_blocks := int (n + length xs + length ys)\<rparr>\<rparr>],
      disk_blocks := disk_blocks s'', sdisk := sdisk s''\<rparr>"
  proof -
    obtain bs0 where nd0: "nd' = nd\<lparr>i_blocks := bs0, i_stat := (i_stat nd)\<lparr>st_blocks := int (n + length xs)\<rparr>\<rparr>"
      using nd' by blast
    have "nd'\<lparr>i_blocks := x, i_stat := (i_stat nd')\<lparr>st_blocks := y\<rparr>\<rparr> = nd\<lparr>i_blocks := x, i_stat := (i_stat nd)\<lparr>st_blocks := y\<rparr>\<rparr>"
      for x y by (simp add: nd0)
    with H(1) show ?thesis unfolding it by simp
  qed
  then have eq: "s'' = s\<lparr>inode_table := (inode_table s)[nat k := nd\<lparr>i_blocks := i_blocks nd'',
      i_stat := (i_stat nd)\<lparr>st_blocks := int (n + length (xs @ ys))\<rparr>\<rparr>],
      disk_blocks := disk_blocks s'', sdisk := sdisk s''\<rparr>"
    by (subst (asm) G(1)) (simp add: add.assoc)
  have len: "n + length (xs @ ys) = n + length xs + length ys" by simp
  show ?thesis
    unfolding grown_def Let_def nd_def [symmetric] nd''_def [symmetric]
  proof (intro conjI)
    show "has_blocks s'' k (n + length (xs @ ys))" using H(2) unfolding len .
    show "data (B s'') (i_blocks nd'') (n + length (xs @ ys)) = data (B s) (i_blocks nd) n @ xs @ ys"
      using H(3) G(3) unfolding len by simp
    show "set (meta (B s) (i_blocks nd) n) \<subseteq> set (meta (B s'') (i_blocks nd'') (n + length (xs @ ys)))"
      using H(4) G(4) unfolding len by blast
    show "\<forall>x \<in> set (xs @ ys) \<union> set (meta (B s'') (i_blocks nd'') (n + length (xs @ ys))). allocd s x \<longrightarrow>
        x \<in> set (meta (B s) (i_blocks nd) n)"
    proof (intro ballI impI)
      fix x
      assume x: "x \<in> set (xs @ ys) \<union> set (meta (B s'') (i_blocks nd'') (n + length (xs @ ys)))" and a: "allocd s x"
      show "x \<in> set (meta (B s) (i_blocks nd) n)"
      proof (cases "x \<in> set xs")
        case True
        then show ?thesis using G(5) a by blast
      next
        case False
        then have "x \<in> set ys \<union> set (meta (B s'') (i_blocks nd'') (n + length xs + length ys))"
          using x unfolding len by auto
        from H(5) [OF this G(6) [OF a]] show ?thesis using G(5) a by blast
      qed
    qed
    show "\<forall>x. x \<notin> set (meta (B s'') (i_blocks nd'') (n + length (xs @ ys))) \<longrightarrow> B s'' x = B s x"
    proof (intro allI impI)
      fix x
      assume "x \<notin> set (meta (B s'') (i_blocks nd'') (n + length (xs @ ys)))"
      then have x: "x \<notin> set (meta (B s'') (i_blocks nd'') (n + length xs + length ys))" unfolding len .
      then have "x \<notin> set (meta (B s') (i_blocks nd') (n + length xs))" using H(4) by blast
      then show "B s'' x = B s x" using G(7) H(7) [OF x] by simp
    qed
    show "\<forall>x. allocd s'' x \<longleftrightarrow> allocd s x \<or> x \<in> set (xs @ ys) \<union> set (meta (B s'') (i_blocks nd'') (n + length (xs @ ys)))"
      unfolding len set_append using G(6,9,10) H(4,6,9,10) by blast
    show "nfree s \<le> nfree s'' + 3 * length (xs @ ys)" using G(8) H(8) by simp
  qed (rule eq)
qed

lemma grow_loop_law:
  assumes "has_blocks s k n" "n + left \<le> 1110" "3 * left \<le> nfree s"
  shows "\<exists>s' new. grow_loop k (int n) left s = Some (0, s') \<and> length new = left \<and> grown s k n new s'"
  using assms
proof (induction left arbitrary: s n)
  case 0
  then show ?case using grown_refl by (intro exI [of _ s] exI [of _ "[]"]) simp
next
  case (Suc left)
  have k: "0 \<le> k" "k < int (length (inode_table s))" using Suc.prems(1) by (simp_all add: has_blocks_def)
  obtain b s1 s2 s3 where st: "get_block s = Some (b, s1)" "0 \<le> b" "set_block_index k (int n) b s1 = Some s2"
      "upd_stat k (\<lambda>t. t\<lparr>st_blocks := st_blocks t + 1\<rparr>) s2 = Some s3" "grown s k n [b] s3"
    using grown_step [OF Suc.prems(1)] Suc.prems(2,3) by auto
  have h3: "has_blocks s3 k (Suc n)" using grownD(2) [OF st(5)] by simp
  have "3 * left \<le> nfree s3" using grownD(8) [OF st(5)] Suc.prems(3) by simp
  from Suc.IH [OF h3 _ this] Suc.prems(2) obtain s' new where
    r: "grow_loop k (int (Suc n)) left s3 = Some (0, s')" "length new = left" "grown s3 k (Suc n) new s'" by auto
  have "grown s k n ([b] @ new) s'" using r(3) by (intro grown_trans [OF k st(5)]) simp
  moreover have "grow_loop k (int n) (Suc left) s = Some (0, s')"
    using st r(1) Suc.prems(2) by (simp add: add.commute)
  ultimately show ?case using r(2) by (intro exI [of _ s'] exI [of _ "b # new"]) simp
qed

section \<open>Writing blocks\<close>

lemma wr_blk_fields: "wr_blk n b s = s\<lparr>sdisk := wr_block n b (sdisk s)\<rparr>"
  by (simp add: wr_blk_def wr_block_def)

lemma map_cong_meta:
  assumes ok: "map_ok m bs n" and eq: "\<And>x. x \<in> set (meta m bs n) \<Longrightarrow> m' x = m x"
  shows "meta m' bs n = meta m bs n" "i < n \<Longrightarrow> bidx m' bs i = bidx m bs i" "data m' bs n = data m bs n" "map_ok m' bs n"
proof -
  have e10: "m' (bs ! 10) = m (bs ! 10)" if "10 < n" using that eq by (auto simp: meta_def)
  have e11: "m' (bs ! 11) = m (bs ! 11)" if "110 < n" using that eq by (auto simp: meta_def)
  have su: "subs m' bs j = subs m bs j" if "110 < n" for j using e11 [OF that] by (simp add: subs_def)
  have es: "m' (subs m bs j) = m (subs m bs j)" if "110 < n" "j < nsubs n" for j
    using that eq by (auto simp: meta_def)
  show me: "meta m' bs n = meta m bs n" using su by (simp add: meta_def)
  have all: "bidx m' bs i = bidx m bs i" if i: "i < nslots n" for i
  proof (cases "i < 110")
    case True
    then show ?thesis using i e10 by (simp add: bidx_def nslots_def split: if_splits)
  next
    case False
    then have n: "110 < n" using i by (simp add: nslots_def split: if_splits)
    then have "(i - 110) div 100 < nsubs n" using False sub_in_nslots [OF n i] by simp
    then show ?thesis using False n su es by (simp add: bidx_def)
  qed
  then show bi: "bidx m' bs i = bidx m bs i" if "i < n" for i using that nslots_ge [of n] by simp
  show da: "data m' bs n = data m bs n" using bi by (simp add: data_def)
  show "map_ok m' bs n" using ok su all unfolding map_ok_def me da by auto
qed

text \<open>
  The write loop is a sequence of block writes to the file's blocks; it never touches the file's
  tables, so the block map stays what it was.
\<close>

lemma write_loop_law:
  assumes bs: "length (i_blocks (inode_table s ! nat k)) = 12" "i_blocks (inode_table s ! nat k) = bs"
    and k: "0 \<le> k" "k < int (length (inode_table s))"
    and b: "fs_base s" and ok: "map_ok (B s) bs m" and r: "first + n \<le> m" and buf: "length buf = 512 * n"
  shows "write_loop k (int first) n buf s = Some (s\<lparr>sdisk :=
    fold (\<lambda>(a, b). wr_block a b) (zip (map (bidx (B s) bs) [first..<first + n])
      (map (\<lambda>i. take 512 (drop (512 * i) buf)) [0..<n])) (sdisk s)\<rparr>)"
  using bs k b ok r buf
proof (induction n arbitrary: s first buf)
  case (Suc n)
  let ?b = "bidx (B s) bs first" and ?c = "take 512 buf"
  have fm: "first < m" using Suc.prems(7) by simp
  have m1: "m \<le> 1110" using Suc.prems(6) by (simp add: map_ok_def)
  have inb: "?b \<in> set (data (B s) bs m)" using fm by (auto simp: data_def)
  then have b0: "0 \<le> ?b" "?b \<notin> set (meta (B s) bs m)" using Suc.prems(6) by (auto simp: map_ok_def)
  have c: "length ?c = 512" using Suc.prems(8) by simp
  have g: "get_block_index k (int first) s = Some ?b"
    using Suc.prems fm m1 by (intro get_block_index_law) auto
  define s1 where "s1 = s\<lparr>sdisk := wr_block ?b ?c (sdisk s)\<rparr>"
  have ds: "disk_ok (sdisk s)" using Suc.prems(5) by (simp add: fs_base_def)
  have B1: "B s1 = (B s)(?b := ?c)" using store.rd_wr [OF ds b0(1) c] by (simp add: s1_def)
  have base1: "fs_base s1" using Suc.prems(5) store.wr_ok [OF ds c] by (simp add: fs_base_def s1_def)
  have inv: "\<And>x. x \<in> set (meta (B s) bs m) \<Longrightarrow> B s1 x = B s x" using b0(2) by (auto simp: B1)
  note M = map_cong_meta [OF Suc.prems(6) inv]
  have IH: "write_loop k (int (Suc first)) n (drop 512 buf) s1 = Some (s1\<lparr>sdisk :=
      fold (\<lambda>(a, b). wr_block a b) (zip (map (bidx (B s1) bs) [Suc first..<Suc first + n])
        (map (\<lambda>i. take 512 (drop (512 * i) (drop 512 buf))) [0..<n])) (sdisk s1)\<rparr>)"
    by (rule Suc.IH) (use Suc.prems base1 M(4) in \<open>simp_all add: s1_def\<close>)
  have f1: "map (bidx (B s1) bs) [Suc first..<Suc first + n] = map (bidx (B s) bs) [Suc first..<Suc first + n]"
    using M(2) Suc.prems(7) by auto
  have f2: "map (\<lambda>i. take 512 (drop (512 * i) buf)) [0..<Suc n] =
      ?c # map (\<lambda>i. take 512 (drop (512 * i) (drop 512 buf))) [0..<n]"
    unfolding upt_conv_Cons [OF zero_less_Suc] map_Suc_upt [symmetric] by (simp add: add.commute)
  have f3: "[first..<first + Suc n] = first # [Suc first..<Suc first + n]" by (simp add: upt_conv_Cons)
  have "write_loop k (int first) (Suc n) buf s = write_loop k (int (Suc first)) n (drop 512 buf) s1"
    using g by (simp add: wr_blk_fields s1_def add.commute)
  then show ?case unfolding IH f1 f2 f3 by (simp add: s1_def)
qed simp

section \<open>Appending to a file\<close>

lemma chunks_concat: "length buf = 512 * n \<Longrightarrow> concat (map (\<lambda>i. take 512 (drop (512 * i) buf)) [0..<n]) = buf"
proof (induction n arbitrary: buf)
  case (Suc n)
  have "map (\<lambda>i. take 512 (drop (512 * i) buf)) [0..<Suc n] =
      take 512 buf # map (\<lambda>i. take 512 (drop (512 * i) (drop 512 buf))) [0..<n]"
    unfolding upt_conv_Cons [OF zero_less_Suc] map_Suc_upt [symmetric] by (simp add: add.commute)
  with Suc.IH [of "drop 512 buf"] Suc.prems show ?case by simp
qed simp

lemma take_blocks_part:
  assumes "\<forall>x \<in> set xs. length x = 512"
  shows "take (512 * a + bo) (concat xs) = concat (take a xs) @ take bo (concat (drop a xs))"
  using take_blocks [OF assms, of a] drop_blocks [OF assms, of a] by (simp add: take_add)

lemma nat_ceil: "(int x + 511) div 512 = int ((x + 511) div 512)"
  by (simp add: zdiv_int)

lemma grow_counts:
  assumes "sz + len < 549755813888"
  defines "partial \<equiv> (if c_mod (int sz) 512 \<noteq> 0 then 1 else 0)"
  shows "c_div (int sz) 512 + partial = int ((sz + 511) div 512)"
    "u64 (int sz + int len) > u64 ((c_div (int sz) 512 + partial) * 512) \<longleftrightarrow> (sz + 511) div 512 < (sz + len + 511) div 512"
    "(sz + 511) div 512 \<le> (sz + len + 511) div 512"
    "to_int (u64 (u64 (int sz + int len) div 512 - c_div (int sz) 512 - partial +
       (if u64 (int sz + int len) mod 512 \<noteq> 0 then 1 else 0))) = int ((sz + len + 511) div 512 - (sz + 511) div 512)"
proof -
  define nb where "nb = (sz + 511) div 512"
  define nb' where "nb' = (sz + len + 511) div 512"
  have a: "c_div (int sz) 512 + partial = int nb"
    using ceil_512 [of "int sz"] nat_ceil [of sz] by (simp add: partial_def c_div_nonneg c_mod_nonneg nb_def)
  have u: "u64 (int sz + int len) = int (sz + len)" using assms(1) by (simp add: u64_id)
  have b: "int (sz + len) div 512 + (if int (sz + len) mod 512 \<noteq> 0 then 1 else 0) = int nb'"
    using ceil_512 [of "int (sz + len)"] nat_ceil [of "sz + len"] by (simp add: nb'_def)
  have le: "nb \<le> nb'" unfolding nb_def nb'_def by (intro div_le_mono) simp
  have small: "nb' < 2147483648"
    using div_le_mono [of "sz + len + 511" "549755813888 + 511" 512] assms(1) by (simp add: nb'_def)
  show "c_div (int sz) 512 + partial = int ((sz + 511) div 512)" using a by (simp add: nb_def)
  show "(sz + 511) div 512 \<le> (sz + len + 511) div 512" using le by (simp add: nb_def nb'_def)
  have "u64 (int nb * 512) = int nb * 512" using le small by (intro u64_id) auto
  moreover have "int nb * 512 < int (sz + len) \<longleftrightarrow> nb < nb'"
  proof
    assume "int nb * 512 < int (sz + len)"
    then have "nb * 512 + 512 \<le> sz + len + 511" by linarith
    then have "(nb * 512 + 512) div 512 \<le> (sz + len + 511) div 512" by (rule div_le_mono)
    then show "nb < nb'" by (simp add: nb'_def)
  next
    assume "nb < nb'"
    then have "512 * (nb + 1) \<le> 512 * nb'" by simp
    also have "\<dots> \<le> sz + len + 511" unfolding nb'_def by (rule times_div_less_eq_dividend)
    finally have "nb * 512 < sz + len" by simp
    then show "int nb * 512 < int (sz + len)" by (metis of_nat_less_iff of_nat_mult of_nat_numeral)
  qed
  ultimately show "u64 (int sz + int len) > u64 ((c_div (int sz) 512 + partial) * 512) \<longleftrightarrow>
      (sz + 511) div 512 < (sz + len + 511) div 512"
    unfolding a u nb_def [symmetric] nb'_def [symmetric] by simp
  have "u64 (int sz + int len) div 512 - c_div (int sz) 512 - partial +
      (if u64 (int sz + int len) mod 512 \<noteq> 0 then 1 else 0) = int nb' - int nb"
    using a b unfolding u by linarith
  then show "to_int (u64 (u64 (int sz + int len) div 512 - c_div (int sz) 512 - partial +
       (if u64 (int sz + int len) mod 512 \<noteq> 0 then 1 else 0))) = int ((sz + len + 511) div 512 - (sz + 511) div 512)"
    using le small unfolding nb_def [symmetric] nb'_def [symmetric] by (simp add: u64_id to_int_id)
qed

lemma start_counts:
  fixes sz len :: nat
  assumes "0 < len"
  defines "a \<equiv> sz div 512" and "bo \<equiv> sz mod 512"
  shows "a + (bo + len + 511) div 512 = (sz + len + 511) div 512" "0 < (bo + len + 511) div 512"
    "a \<le> (sz + 511) div 512" "bo \<noteq> 0 \<Longrightarrow> a < (sz + 511) div 512" "sz = 512 * a + bo"
proof -
  show sz: "sz = 512 * a + bo" by (simp add: a_def bo_def)
  have "sz + len + 511 = (bo + len + 511) + 512 * a" using sz by simp
  then show "a + (bo + len + 511) div 512 = (sz + len + 511) div 512" by (metis add.commute div_mult_self2 zero_neq_numeral)
  have "512 \<le> bo + len + 511" using assms(1) by simp
  then show "0 < (bo + len + 511) div 512" by (simp add: div_greater_zero_iff)
  show "a \<le> (sz + 511) div 512" unfolding a_def by (intro div_le_mono) simp
  show "a < (sz + 511) div 512" if "bo \<noteq> 0"
  proof -
    have "512 * a + 512 \<le> sz + 511" using sz that by linarith
    then have "(512 * a + 512) div 512 \<le> (sz + 511) div 512" by (rule div_le_mono)
    then show ?thesis by simp
  qed
qed

text \<open>
  The blocks \<open>a\<close> to \<open>a + n\<close> of a file with \<open>m\<close> blocks are overwritten with \<open>cont\<close>.
\<close>

lemma write_window_law:
  assumes h: "has_blocks s k m" and an: "a + n \<le> m" and cont: "length cont = 512 * n"
  defines "bs \<equiv> i_blocks (inode_table s ! nat k)"
  shows "\<exists>d. write_loop k (int a) n cont s = Some (s\<lparr>sdisk := d\<rparr>) \<and> disk_ok d \<and>
    (\<forall>x. x \<notin> set (take n (drop a (data (B s) bs m))) \<longrightarrow> blk d x = B s x) \<and>
    concat (map (blk d) (take n (drop a (data (B s) bs m)))) = cont"
proof -
  have H: "fs_base s" "0 \<le> k" "k < int (length (inode_table s))" "map_ok (B s) bs m"
    using h by (simp_all add: has_blocks_def bs_def Let_def)
  let ?ns = "map (bidx (B s) bs) [a..<a + n]"
  let ?cs = "map (\<lambda>i. take 512 (drop (512 * i) cont)) [0..<n]"
  have ns: "take n (drop a (data (B s) bs m)) = ?ns" using an by (simp add: data_def drop_map take_map)
  let ?d = "fold (\<lambda>(a, b). wr_block a b) (zip ?ns ?cs) (sdisk s)"
  have ev: "write_loop k (int a) n cont s = Some (s\<lparr>sdisk := ?d\<rparr>)"
    by (rule write_loop_law [where m = m]) (use H an cont in \<open>auto simp: bs_def map_ok_def\<close>)
  have ds: "disk_ok (sdisk s)" using H(1) by (simp add: fs_base_def)
  have cs: "\<forall>c \<in> set ?cs. length c = 512"
  proof
    fix c
    assume "c \<in> set ?cs"
    then obtain i where i: "i < n" "c = take 512 (drop (512 * i) cont)" by auto
    then have "512 * (i + 1) \<le> length cont" unfolding cont by (intro mult_le_mono2) simp
    then show "length c = 512" using i(2) by simp
  qed
  have dm: "distinct (data (B s) bs m)" "\<forall>x \<in> set (data (B s) bs m). 0 \<le> x" using H(4) by (auto simp: map_ok_def)
  have "distinct ?ns" "\<forall>x \<in> set ?ns. 0 \<le> x"
    using dm unfolding ns [symmetric] by (auto dest: in_set_dropD in_set_takeD)
  from store.rd_wr_all [OF ds cs this] have "map (blk ?d) ?ns = ?cs" by simp
  then have "concat (map (blk ?d) ?ns) = cont" using chunks_concat [OF cont] by simp
  moreover have "blk ?d x = B s x" if "x \<notin> set ?ns" for x
    by (rule store.rd_wr_all_other [OF ds cs that])
  moreover have "disk_ok ?d" by (rule store.wr_all_ok [OF ds cs])
  ultimately show ?thesis using ev unfolding ns by blast
qed

lemma write_blocks_law:
  assumes h: "has_blocks s k m" and an: "a + n = m" and cont: "length cont = 512 * n"
  defines "bs \<equiv> i_blocks (inode_table s ! nat k)"
  shows "\<exists>d. write_loop k (int a) n cont s = Some (s\<lparr>sdisk := d\<rparr>) \<and> disk_ok d \<and>
    (\<forall>x. x \<notin> set (drop a (data (B s) bs m)) \<longrightarrow> blk d x = B s x) \<and>
    concat (map (blk d) (drop a (data (B s) bs m))) = cont"
proof -
  have e: "take n (drop a (data (B s) bs m)) = drop a (data (B s) bs m)" using an by (simp add: data_def)
  show ?thesis by (rule write_window_law [OF h eq_refl [OF an] cont, folded bs_def, unfolded e])
qed

text \<open>\<open>s'\<close> is \<open>s\<close> with \<open>buf\<close> appended to file \<open>k\<close>.\<close>

definition file_appended :: "sfs \<Rightarrow> int \<Rightarrow> string \<Rightarrow> sfs \<Rightarrow> bool" where
  "file_appended s k buf s' \<longleftrightarrow> file_ok s' k \<and> file_data s' k = file_data s k @ buf \<and>
     name_table s' = name_table s \<and> open_files s' = open_files s \<and> cwd_inode s' = cwd_inode s \<and>
     length (inode_table s') = length (inode_table s) \<and>
     (\<forall>j. j \<noteq> nat k \<longrightarrow> inode_table s' ! j = inode_table s ! j) \<and>
     st_nlink (i_stat (inode_table s' ! nat k)) = st_nlink (i_stat (inode_table s ! nat k)) \<and>
     (\<forall>x. allocd s' x \<longleftrightarrow> allocd s x \<or> x \<in> set (file_blocks s' k @ file_tables s' k)) \<and>
     (\<forall>x \<in> set (file_blocks s' k @ file_tables s' k). allocd s x \<longrightarrow> x \<in> set (file_blocks s k @ file_tables s k)) \<and>
     (\<forall>x. allocd s x \<longrightarrow> x \<notin> set (file_blocks s k @ file_tables s k) \<longrightarrow> B s' x = B s x)"

lemma append_content:
  assumes len: "\<forall>x. length (f x) = 512" "\<forall>x. length (g x) = 512"
    and a: "a \<le> length xs" "bo \<noteq> 0 \<Longrightarrow> a < length xs" "bo < 512"
    and same: "\<forall>x \<in> set (take a xs). g x = f x"
    and cont: "concat (map g (drop a (xs @ ys))) = overwrite (f ((xs @ ys) ! a) @ z) bo buf"
  shows "take (512 * a + bo + length buf) (concat (map g (xs @ ys))) = take (512 * a + bo) (concat (map f xs)) @ buf"
proof -
  let ?b = "(xs @ ys) ! a"
  have lt: "length (concat (map g (take a xs))) = 512 * a" using length_blocks [of "map g (take a xs)"] len a(1) by simp
  have e: "concat (map g (take a xs)) = concat (map f (take a xs))" using same by (metis map_cong)
  have "xs @ ys = take a xs @ drop a (xs @ ys)" using a(1) by (metis append_take_drop_id append_eq_append_conv2 take_append diff_is_0_eq take_0 append_Nil2)
  then have "concat (map g (xs @ ys)) = concat (map g (take a xs)) @ overwrite (f ?b @ z) bo buf"
    using cont by (metis concat_append map_append)
  moreover have "take (bo + length buf) (overwrite (f ?b @ z) bo buf) = take bo (f ?b) @ buf"
    using len(1) a(3) by (simp add: overwrite_def)
  ultimately have l: "take (512 * a + bo + length buf) (concat (map g (xs @ ys))) =
      concat (map f (take a xs)) @ take bo (f ?b) @ buf"
    using lt e by (simp add: add.assoc)
  have "take (512 * a + bo) (concat (map f xs)) = concat (map f (take a xs)) @ take bo (concat (map f (drop a xs)))"
    using take_blocks_part [of "map f xs" a bo] len by (simp add: take_map drop_map)
  moreover have "take bo (concat (map f (drop a xs))) = take bo (f ?b)"
  proof (cases "bo = 0")
    case False
    then have "drop a xs = ?b # drop (Suc a) xs" using a(2) by (simp add: Cons_nth_drop_Suc nth_append)
    then show ?thesis using len(1) a(3) by simp
  qed simp
  ultimately show ?thesis using l by simp
qed

text \<open>The last part of \<open>sfs_write\<close> for a write at the end of the file: fill the blocks, add to the size.\<close>

lemma append_grown:
  assumes ok: "file_ok s k" and g: "grown s k nb new s1" and nb: "nb = (file_size s k + 511) div 512"
    and l: "0 < length buf" and m: "nb + length new = (file_size s k + length buf + 511) div 512"
  defines "a \<equiv> file_size s k div 512" and "bo \<equiv> file_size s k mod 512"
    and "n \<equiv> (file_size s k mod 512 + length buf + 511) div 512" and "b \<equiv> file_blocks s1 k ! (file_size s k div 512)"
  shows "\<exists>s' s2. get_block_index k (int a) s1 = Some b \<and>
    write_loop k (int a) n (overwrite (B s1 b @ zeros (512 * n - 512)) bo buf) s1 = Some s2 \<and>
    upd_stat k (\<lambda>t. t\<lparr>st_size := st_size t + int (length buf)\<rparr>) s2 = Some s' \<and> file_appended s k buf s'"
proof -
  define nd where "nd = inode_table s ! nat k"
  define nd1 where "nd1 = inode_table s1 ! nat k"
  define sz where "sz = file_size s k"
  define m where "m = nb + length new"
  define D where "D = data (B s) (i_blocks nd) nb"
  note F = file_okD [OF ok, folded nd_def, folded nb] and G = grownD [OF g, folded nd_def nd1_def, folded m_def, folded D_def]
  note C = start_counts [OF l, of "file_size s k", folded n_def, folded a_def bo_def]
  have H1: "fs_base s1" "0 \<le> k" "k < int (length (inode_table s1))" "map_ok (B s1) (i_blocks nd1) m"
      "length (i_blocks nd1) = 12" "\<And>x. x \<in> set (data (B s1) (i_blocks nd1) m @ meta (B s1) (i_blocks nd1) m) \<Longrightarrow> allocd s1 x"
    using G(2) by (simp_all add: has_blocks_def nd1_def Let_def map_ok_def)
  have it1: "inode_table s1 = (inode_table s)[nat k := nd\<lparr>i_blocks := i_blocks nd1, i_stat := (i_stat nd)\<lparr>st_blocks := int m\<rparr>\<rparr>]"
    using arg_cong [OF G(1), of inode_table] by simp
  have "i_stat (inode_table s1 ! nat k) = (i_stat nd)\<lparr>st_blocks := int m\<rparr>"
    by (subst it1) (use F(2,3) in simp)
  moreover have "inode_table s1 ! j = inode_table s ! j \<or> j = nat k" for j
    by (cases "j = nat k") (simp_all add: it1)
  ultimately have st1: "i_stat nd1 = (i_stat nd)\<lparr>st_blocks := int m\<rparr>" "inode_table s1 ! j = inode_table s ! j \<or> j = nat k" for j
    by (simp_all add: nd1_def)
  have data1: "data (B s1) (i_blocks nd1) m = D @ new" using G(3) .
  have fb1: "file_blocks s1 k = D @ new"
    using st1(1) data1 by (simp add: file_blocks_def Let_def nd1_def [symmetric])
  have dis: "distinct (D @ new)" "set (D @ new) \<inter> set (meta (B s1) (i_blocks nd1) m) = {}"
    using H1(4) unfolding map_ok_def data1 by auto
  have lenD: "length D = nb" "m = a + n" "a < m"
    using C(1,2) assms(5) by (simp_all add: D_def data_def m_def sz_def nb)
  have m1: "m \<le> 1110" using H1(4) by (simp add: map_ok_def)
  have b1: "b = (D @ new) ! a" by (simp add: b_def fb1 a_def)
  have "a < length (D @ new)" using lenD by (simp add: m_def)
  then have b: "b = (D @ new) ! a" "b \<in> set (D @ new)" unfolding b1 by (simp_all only: nth_mem)
  have gb: "get_block_index k (int a) s1 = Some b"
  proof -
    have "bidx (B s1) (i_blocks nd1) a = data (B s1) (i_blocks nd1) m ! a" using lenD(3) by (simp add: data_def)
    then show ?thesis using get_block_index_law [OF H1(1,2,3), of "i_blocks nd1" a] H1(5) lenD(3) m1 b(1) data1
      by (simp add: nd1_def)
  qed
  have off: "x \<in> set (D @ new) \<Longrightarrow> B s1 x = B s x" for x using G(7) dis(2) by blast
  define cont where "cont = overwrite (B s1 b @ zeros (512 * n - 512)) bo buf"
  have bon: "bo + length buf \<le> 512 * n" unfolding n_def bo_def by (rule ceil_ge)
  have lcont: "length cont = 512 * n"
    using bon C(2) by (simp add: cont_def overwrite_def)
  have an: "a + n = m" using lenD(2) by simp
  from write_blocks_law [OF G(2) an lcont, folded nd1_def, unfolded data1] obtain d where
    d: "write_loop k (int a) n cont s1 = Some (s1\<lparr>sdisk := d\<rparr>)" "disk_ok d"
      "\<And>x. x \<notin> set (drop a (D @ new)) \<Longrightarrow> blk d x = B s1 x" "concat (map (blk d) (drop a (D @ new))) = cont" by blast
  define nd' where "nd' = nd1\<lparr>i_stat := (i_stat nd1)\<lparr>st_size := st_size (i_stat nd1) + int (length buf)\<rparr>\<rparr>"
  define s' where "s' = s1\<lparr>sdisk := d, inode_table := (inode_table s1)[nat k := nd']\<rparr>"
  have kl: "nat k < length (inode_table s1)" using H1(2,3) by simp
  have us: "upd_stat k (\<lambda>t. t\<lparr>st_size := st_size t + int (length buf)\<rparr>) (s1\<lparr>sdisk := d\<rparr>) = Some s'"
    using H1(2,3) by (simp add: upd_stat_def upd_inode_def arr_get_in arr_set_in s'_def nd'_def nd1_def)
  have s': "inode_table s' ! nat k = nd'" "B s' = blk d" "fs_base s'" "allocd s' = allocd s1"
    using kl H1(1) d(2) by (simp_all add: s'_def fs_base_def allocd_def fun_eq_iff)
  have inv: "\<And>x. x \<in> set (meta (B s1) (i_blocks nd1) m) \<Longrightarrow> blk d x = B s1 x"
    using d(3) dis(2) by (meson disjoint_iff in_set_dropD)
  note M = map_cong_meta [OF H1(4) inv]
  have fs': "file_size s' k = sz + length buf"
    using F(4) by (simp add: file_size_def s'(1) nd'_def st1(1) sz_def nat_add_distrib)
  have m': "m = (file_size s' k + 511) div 512" using assms(5) unfolding fs' by (simp add: m_def sz_def)
  have nd': "st_blocks (i_stat nd') = int m" "i_blocks nd' = i_blocks nd1" "0 \<le> st_size (i_stat nd')"
    using F(4) by (simp_all add: nd'_def st1(1))
  have fb': "file_blocks s' k = D @ new" "file_tables s' k = meta (B s1) (i_blocks nd1) m"
    using M(1,3) data1 by (simp_all add: file_blocks_def file_tables_def s'(1,2) nd' Let_def)
  have ok': "file_ok s' k"
    unfolding file_ok_def Let_def s'(1,2) m' [symmetric] fb'
    using s'(3) H1(2,3,6) nd' M(4) unfolding s'(4) data1 by (simp add: s'_def)
  have "file_data s' k = file_data s k @ buf"
  proof -
    have "take (512 * a + bo + length buf) (concat (map (blk d) (D @ new))) = take (512 * a + bo) (concat (map (B s) D)) @ buf"
    proof (rule append_content [where z = "zeros (512 * n - 512)"])
      show "a \<le> length D" "bo \<noteq> 0 \<Longrightarrow> a < length D" using C(3,4) by (simp_all add: lenD(1) nb sz_def)
      show "bo < 512" by (simp add: bo_def)
      have "set (take a D) \<inter> set (drop a (D @ new)) = {}"
        using set_take_disj_set_drop_if_distinct [OF dis(1) order_refl, of a] \<open>a \<le> length D\<close> by simp
      then show "\<forall>x \<in> set (take a D). blk d x = B s x"
        using d(3) off by (metis Un_iff disjoint_iff in_set_takeD set_append)
      show "concat (map (blk d) (drop a (D @ new))) = overwrite (B s ((D @ new) ! a) @ zeros (512 * n - 512)) bo buf"
        using d(4) off [OF b(2)] b(1) by (simp add: cont_def)
    qed simp_all
    then show ?thesis
      using C(5) F(9) by (simp add: file_data_def fb' s'(2) fs' sz_def D_def)
  qed
  moreover have "B s' x = B s x" if "allocd s x" "x \<notin> set (file_blocks s k @ file_tables s k)" for x
  proof -
    have x: "x \<notin> set D" "x \<notin> set (meta (B s) (i_blocks nd) nb)" using that(2) F(9,10) by (simp_all add: D_def)
    then have "x \<notin> set new" "x \<notin> set (meta (B s1) (i_blocks nd1) m)" using G(5) that(1) by blast+
    then show ?thesis using d(3) G(7) x(1) s'(2) by (metis Un_iff in_set_dropD set_append)
  qed
  moreover have "allocd s' x \<longleftrightarrow> allocd s x \<or> x \<in> set (file_blocks s' k @ file_tables s' k)" for x
  proof -
    have "x \<in> set D \<Longrightarrow> allocd s x" using F(9,11) by (simp add: D_def)
    then show ?thesis unfolding s'(4) fb' set_append using G(6,9,10) [of x] by blast
  qed
  moreover have "x \<in> set (file_blocks s k @ file_tables s k)" if "x \<in> set (file_blocks s' k @ file_tables s' k)" "allocd s x" for x
    using that G(5) [of x] F(9,10) unfolding fb' by (auto simp: D_def)
  moreover have "st_nlink (i_stat (inode_table s' ! nat k)) = st_nlink (i_stat (inode_table s ! nat k))"
    unfolding s'(1) nd'_def st1(1) by (simp add: nd_def)
  moreover have "j \<noteq> nat k \<Longrightarrow> inode_table s' ! j = inode_table s ! j" for j
    using st1(2) [of j] by (simp add: s'_def)
  moreover have "name_table s1 = name_table s" "open_files s1 = open_files s" "cwd_inode s1 = cwd_inode s"
      "length (inode_table s1) = length (inode_table s)"
    using arg_cong [OF G(1), of name_table] arg_cong [OF G(1), of open_files] arg_cong [OF G(1), of cwd_inode]
      arg_cong [OF G(1), of "\<lambda>s. length (inode_table s)"] by simp_all
  ultimately have "file_appended s k buf s'" using ok' by (simp add: file_appended_def) (simp add: s'_def)
  with gb d(1) us show ?thesis unfolding cont_def by blast
qed

lemma sfs_write_law:
  assumes ok: "file_ok s k" and fh: "opened s fh k" and buf: "buf \<noteq> []"
    and fit: "(file_size s k + length buf + 511) div 512 \<le> 1110"
    and mem: "3 * ((file_size s k + length buf + 511) div 512 - (file_size s k + 511) div 512) \<le> nfree s"
  shows "\<exists>s'. sfs_write fh buf (int (file_size s k)) s = Some (int (length buf), s') \<and> file_appended s k buf s'"
proof -
  note D = file_okD [OF ok]
  define sz where "sz = file_size s k"
  define nb where "nb = (sz + 511) div 512"
  define nb' where "nb' = (sz + length buf + 511) div 512"
  define n where "n = (sz mod 512 + length buf + 511) div 512"
  have l: "0 < length buf" using buf by simp
  have "sz + length buf \<le> 512 * nb'" unfolding nb'_def by (rule ceil_ge)
  then have small: "sz + length buf < 549755813888" "sz + length buf \<le> 568320" using fit by (simp_all add: nb'_def sz_def)
  note C = grow_counts [OF small(1), folded nb_def nb'_def]
  have h: "has_blocks s k nb"
    using D unfolding has_blocks_def Let_def by (simp add: nb_def sz_def [symmetric])
  obtain s1 new where g: "grow_loop k (int nb) (nb' - nb) s = Some (0, s1)" "length new = nb' - nb" "grown s k nb new s1"
    using grow_loop_law [OF h, of "nb' - nb"] fit mem C(3) by (auto simp: nb_def nb'_def sz_def)
  have "nb + length new = nb'" using g(2) C(3) by simp
  from append_grown [OF ok g(3) _ l, folded sz_def, folded nb_def nb'_def, folded n_def, OF refl this]
  obtain s2 s' where a: "get_block_index k (int (sz div 512)) s1 = Some (file_blocks s1 k ! (sz div 512))"
      "write_loop k (int (sz div 512)) n (overwrite (B s1 (file_blocks s1 k ! (sz div 512)) @ zeros (512 * n - 512)) (sz mod 512) buf) s1 = Some s2"
      "upd_stat k (\<lambda>t. t\<lparr>st_size := st_size t + int (length buf)\<rparr>) s2 = Some s'" "file_appended s k buf s'" by blast
  have base1: "fs_base s1" using grownD(2) [OF g(3)] by (simp add: has_blocks_def)
  have n0: "0 < n" "n * 512 = 512 * n" "sz mod 512 + length buf \<le> 512 * n"
    using start_counts(2) [OF l, of sz] unfolding n_def by (simp_all add: ceil_ge)
  have xb: "xfer_blocks (int (length buf)) (int sz) = int n"
    using xfer_blocks_law [of "int (length buf)" "int sz"] small(1) by (simp add: n_def zdiv_int zmod_int)
  have st: "to_int (c_div (int sz) 512) = int (sz div 512)" "c_mod (int sz) 512 = int (sz mod 512)"
      "to_int (int nb) = int nb" "to_int (int (length buf)) = int (length buf)"
    using small(2) fit C(3) by (simp_all add: c_div_nonneg c_mod_nonneg zdiv_int zmod_int to_int_id nb'_def sz_def)
  have f: "arr_get (open_files s) fh = Some (open_files s ! nat fh)" "f_ino (open_files s ! nat fh) = k" "\<not> fh > 127" "\<not> k < 0"
    using fh by (auto simp: opened_def arr_get_in)
  have grow: "(if u64 (int sz + int (length buf)) > u64 ((c_div (int sz) 512 + (if c_mod (int sz) 512 \<noteq> 0 then 1 else 0)) * 512)
      then grow_loop k (to_int (int nb)) (nat (to_int (u64 (u64 (int sz + int (length buf)) div 512 - c_div (int sz) 512 -
        (if c_mod (int sz) 512 \<noteq> 0 then 1 else 0) + (if u64 (int sz + int (length buf)) mod 512 \<noteq> 0 then 1 else 0))))) s
      else Some (0, s)) = Some (0, s1)"
    using g(1) C(2,3) unfolding C(4) st(3) nat_int by (cases "nb < nb'") auto
  have wr: "\<not> int n \<le> 0" "nat (int n * 512) - 512 = 512 * n - 512" "\<not> int (sz mod 512) + int (length buf) > int n * 512"
      "nat (int n) = n" "nat (int (sz mod 512)) = sz mod 512"
    using n0 by (simp_all add: nat_mult_distrib zmod_int [symmetric])
  have "sfs_write fh buf (int sz) s = Some (int (length buf), s')"
    unfolding sfs_write_def Let_def
    using f D(2,3) a(1,2,3) grow wr xb rd_blk_law [OF base1, of "zeros 512"]
    by (simp only: arr_get_in D(4,5) sz_def [symmetric] nb_def [symmetric] st if_False bind.bind_lunit prod.case
        less_irrefl length_replicate simp_thms)
  with a(4) show ?thesis unfolding sz_def by blast
qed

section \<open>Reading and writing as operations on the contents\<close>

text \<open>
  Claim C13. Reading refines the abstract file: for every offset inside the file and every count,
  \<open>sfs_read\<close> returns exactly the bytes of the contents from the offset on, at most the
  requested number, and their number as the result, through direct and indirect blocks alike.
\<close>

theorem sfs_read_refines:
  assumes "file_ok s k" "opened s fh k" "0 \<le> len" "len < 9223372036854775808" "off < file_size s k"
  shows "sfs_read fh len (int off) s =
    (let d = take (nat len) (drop off (file_data s k)) in Some (int (length d), d))"
  by (rule sfs_read_law [OF assms])

text \<open>
  Claim C12. Writing at the end of a file refines appending: the call returns the number of bytes, the contents
  of the file are the old ones followed by the buffer, the file is well-formed again, and no
  other inode, name, handle or allocated block changes.
\<close>

theorem sfs_write_refines:
  assumes "file_ok s k" "opened s fh k" "buf \<noteq> []" "(file_size s k + length buf + 511) div 512 \<le> 1110"
    and "3 * ((file_size s k + length buf + 511) div 512 - (file_size s k + 511) div 512) \<le> nfree s"
  shows "\<exists>s'. sfs_write fh buf (int (file_size s k)) s = Some (int (length buf), s') \<and> file_appended s k buf s'"
  by (rule sfs_write_law [OF assms])

lemma file_data_length:
  assumes "file_ok s k"
  shows "length (file_data s k) = file_size s k"
proof -
  note D = file_okD [OF assms]
  have "length (concat (map (B s) (file_blocks s k))) = 512 * ((file_size s k + 511) div 512)"
    using length_blocks [of "map (B s) (file_blocks s k)"] D(9) by (simp add: data_def)
  then show ?thesis using ceil_ge [of "file_size s k"] by (simp add: file_data_def)
qed

text \<open>
  Claim C2. What was appended reads back: after a write of \<open>buf\<close> at the end of the file, reading
  that many bytes at the old end returns \<open>buf\<close>, and every earlier byte reads as before.
\<close>

theorem sfs_append_read_roundtrip:
  assumes ok: "file_ok s k" and fh: "opened s fh k" and buf: "buf \<noteq> []"
    and fit: "(file_size s k + length buf + 511) div 512 \<le> 1110"
    and mem: "3 * ((file_size s k + length buf + 511) div 512 - (file_size s k + 511) div 512) \<le> nfree s"
  shows "\<exists>s'. sfs_write fh buf (int (file_size s k)) s = Some (int (length buf), s') \<and>
    sfs_read fh (int (length buf)) (int (file_size s k)) s' = Some (int (length buf), buf) \<and>
    (\<forall>off len. off + len \<le> file_size s k \<longrightarrow> 0 < len \<longrightarrow> sfs_read fh (int len) (int off) s' = sfs_read fh (int len) (int off) s)"
proof -
  from sfs_write_law [OF assms] obtain s' where
    s': "sfs_write fh buf (int (file_size s k)) s = Some (int (length buf), s')" "file_appended s k buf s'" by blast
  have ok': "file_ok s' k" and fd: "file_data s' k = file_data s k @ buf" and fh': "opened s' fh k"
    using s'(2) fh by (simp_all add: file_appended_def opened_def)
  note lf = file_data_length
  have sz: "file_size s' k = file_size s k + length buf" using lf [OF ok'] lf [OF ok] fd by simp
  have l: "length buf < 9223372036854775808" "file_size s k < 9223372036854775808"
    using fit ceil_ge [of "file_size s k + length buf"] by linarith+
  have "sfs_read fh (int (length buf)) (int (file_size s k)) s' = Some (int (length buf), buf)"
    using sfs_read_law [OF ok' fh', of "int (length buf)" "file_size s k"] l buf lf [OF ok] by (simp add: sz fd)
  moreover have "sfs_read fh (int n) (int off) s' = sfs_read fh (int n) (int off) s"
    if "off + n \<le> file_size s k" "0 < n" for off n
    using sfs_read_law [OF ok' fh', of "int n" off] sfs_read_law [OF ok fh, of "int n" off] that l lf [OF ok]
    by (simp add: sz fd)
  ultimately show ?thesis using s'(1) by blast
qed

text \<open>
  Claim C40. The number of blocks \<open>sfs_read\<close> and \<open>sfs_write\<close> compute is the number of blocks the transfer
  touches, although the unsigned subtraction in it wraps around for a transfer that ends in the block
  it starts in: the conversion to \<open>int\<close> cuts the excess off.
\<close>

theorem xfer_blocks_exact:
  assumes "0 \<le> len" "0 \<le> offset" "offset + len < 549755813888"
  shows "xfer_blocks len offset = (offset mod 512 + len + 511) div 512"
  by (rule xfer_blocks_law [OF assms])

section \<open>A concrete file system\<close>

text \<open>Inode 0 is the file of handle 0; block 0 of the disk holds \<^verbatim>\<open>hello\<close>.\<close>

definition demo_fs :: "int \<Rightarrow> int \<Rightarrow> int list \<Rightarrow> sfs" where
  "demo_fs sz nb bs = \<lparr>sdisk = \<lparr>diskfile = 3, fd_open = True, dfile = ''hello'' @ zeros 507\<rparr>,
     inode_table = [\<lparr>i_avail = 1, i_stat = zero_stat\<lparr>st_size := sz, st_blocks := nb\<rparr>, i_blocks = bs\<rparr>],
     name_table = [], open_files = \<lparr>refcnt = 1, f_ino = 0, f_pos = 0\<rparr> # replicate 127 \<lparr>refcnt = 0, f_ino = -1, f_pos = 0\<rparr>,
     disk_blocks = 1 # replicate 32767 0, root_inode = 0, root_block = 0, system_block = 0, cwd_inode = 0,
     key_val = 0, stray = [], junk = zeros 512\<rparr>"

lemma demo_fs_base: "fs_base (demo_fs sz nb bs)"
  by (simp add: fs_base_def demo_fs_def disk_ok_def)

lemma demo_opened: "opened (demo_fs sz nb bs) 0 0"
  by (simp add: opened_def demo_fs_def)

lemma demo_nfree: "nfree (demo_fs sz nb bs) = 32767"
  by (simp add: nfree_def demo_fs_def)

lemma demo_empty_ok: "file_ok (demo_fs 0 0 (replicate 12 (-1))) 0"
proof -
  have "file_size (demo_fs 0 0 (replicate 12 (-1))) 0 = 0" by (simp add: file_size_def demo_fs_def)
  moreover have "file_blocks (demo_fs 0 0 (replicate 12 (-1))) 0 = []" "file_tables (demo_fs 0 0 (replicate 12 (-1))) 0 = []"
    by (simp_all add: file_blocks_def file_tables_def data_def meta_def demo_fs_def)
  ultimately show ?thesis
    using demo_fs_base by (simp add: file_ok_def map_ok_def data_def meta_def nslots_def bidx_def) (simp add: demo_fs_def)
qed

lemma demo_hello_ok:
  "file_ok (demo_fs 5 1 (0 # replicate 11 (-1))) 0" "file_size (demo_fs 5 1 (0 # replicate 11 (-1))) 0 = 5"
  "file_data (demo_fs 5 1 (0 # replicate 11 (-1))) 0 = ''hello''"
proof -
  let ?s = "demo_fs 5 1 (0 # replicate 11 (-1))"
  show sz: "file_size ?s 0 = 5" by (simp add: file_size_def demo_fs_def)
  have bl: "file_blocks ?s 0 = [0]" "file_tables ?s 0 = []"
    by (simp_all add: file_blocks_def file_tables_def data_def meta_def bidx_def demo_fs_def)
  have B0: "B ?s 0 = ''hello'' @ zeros 507" by (simp add: blk_def demo_fs_def)
  show "file_data ?s 0 = ''hello''" unfolding file_data_def sz bl using B0 by simp
  have "map_ok (B ?s) (0 # replicate 11 (-1)) 1" by (simp add: map_ok_def data_def meta_def bidx_def nslots_def nth_Cons')
  moreover have "allocd ?s 0" by (simp add: allocd_def demo_fs_def)
  ultimately show "file_ok ?s 0"
    using demo_fs_base [of 5 1 "0 # replicate 11 (-1)"] unfolding file_ok_def Let_def sz bl by (simp add: demo_fs_def)
qed

theorem sfs_read_refines_witness:
  "sfs_read 0 100 1 (demo_fs 5 1 (0 # replicate 11 (-1))) = Some (4, ''ello'')"
  using sfs_read_refines [OF demo_hello_ok(1) demo_opened, of 100 1] by (simp add: demo_hello_ok)

theorem sfs_write_refines_witness:
  "\<exists>s'. sfs_write 0 '' world'' 5 (demo_fs 5 1 (0 # replicate 11 (-1))) = Some (6, s') \<and> file_data s' 0 = ''hello world''"
  using sfs_write_refines [OF demo_hello_ok(1) demo_opened, of "'' world''"]
  by (auto simp: demo_hello_ok demo_nfree file_appended_def)

theorem sfs_append_read_roundtrip_witness:
  "\<exists>s'. sfs_write 0 ''abc'' 0 (demo_fs 0 0 (replicate 12 (-1))) = Some (3, s') \<and> sfs_read 0 3 0 s' = Some (3, ''abc'')"
proof -
  have "file_size (demo_fs 0 0 (replicate 12 (-1))) 0 = 0" by (simp add: file_size_def demo_fs_def)
  then show ?thesis using sfs_append_read_roundtrip [OF demo_empty_ok demo_opened, of "''abc''"]
    by (auto simp: demo_nfree)
qed

theorem xfer_blocks_exact_witness: "xfer_blocks 100 300 = 1"
  using xfer_blocks_exact [of 100 300] by simp

theorem set_block_index_appends_witness:
  "\<exists>s' bs' ms. set_block_index 0 0 0 (demo_fs 0 0 (replicate 12 (-1))) = Some s' \<and>
     appended (demo_fs 0 0 (replicate 12 (-1))) 0 0 0 s' bs' ms"
proof -
  have "can_append (demo_fs 0 0 (replicate 12 (-1))) 0 0 0"
    using demo_fs_base by (simp add: can_append_def map_ok_def data_def meta_def allocd_def nslots_def bidx_def) (simp add: demo_fs_def)
  then show ?thesis using set_block_index_appends [of "demo_fs 0 0 (replicate 12 (-1))" 0 0 0] by (simp add: demo_nfree)
qed

end
