(* ===== verification/Sfs_Free.thy ===== *)
theory Sfs_Free
  imports Sfs_File_Data
begin

text \<open>
  What \<open>free_inode\<close> gives back: the list of the blocks it stores \<open>FREE\<close> for, and that for a well-formed file
  these are its data blocks and its tables, and the number -1 for every direct block the file does not have.
\<close>

section \<open>Stores to the bitmap\<close>

abbreviation free_all :: "int list \<Rightarrow> sfs \<Rightarrow> sfs" where
  "free_all bs s \<equiv> fold (\<lambda>b. put_disk_block b 0) bs s"

lemma put_disk_block_cases:
  "put_disk_block b v s = (if 0 \<le> b \<and> b < int (length (disk_blocks s)) then s\<lparr>disk_blocks := (disk_blocks s)[nat b := v]\<rparr>
     else s\<lparr>stray := b # stray s\<rparr>)"
  by (auto simp: put_disk_block_def arr_set_def split: option.splits)

lemma put_disk_block_fields:
  "\<exists>db st. put_disk_block b v s = s\<lparr>disk_blocks := db, stray := st\<rparr> \<and> length db = length (disk_blocks s)"
proof (cases "0 \<le> b \<and> b < int (length (disk_blocks s))")
  case True
  then show ?thesis by (intro exI [of _ "(disk_blocks s)[nat b := v]"] exI [of _ "stray s"]) (simp add: put_disk_block_cases)
next
  case False
  then show ?thesis by (intro exI [of _ "disk_blocks s"] exI [of _ "b # stray s"]) (auto simp: put_disk_block_cases)
qed

lemma free_all_fields:
  "\<exists>db st. free_all bs s = s\<lparr>disk_blocks := db, stray := st\<rparr> \<and> length db = length (disk_blocks s)"
proof (induction bs arbitrary: s)
  case Nil
  then show ?case by (intro exI [of _ "disk_blocks s"] exI [of _ "stray s"]) simp
next
  case (Cons b bs)
  obtain db st where p: "put_disk_block b 0 s = s\<lparr>disk_blocks := db, stray := st\<rparr>" "length db = length (disk_blocks s)"
    using put_disk_block_fields by blast
  then show ?case using Cons [of "put_disk_block b 0 s"] by auto
qed

lemma free_all_frame [simp]:
  "sdisk (free_all bs s) = sdisk s" "junk (free_all bs s) = junk s" "inode_table (free_all bs s) = inode_table s"
  "length (disk_blocks (free_all bs s)) = length (disk_blocks s)"
  using free_all_fields [of bs s] by auto

lemma free_all_base: "fs_base s \<Longrightarrow> fs_base (free_all bs s)"
  by (simp add: fs_base_def)

lemma put_disk_block_effect:
  assumes "length (disk_blocks s) = 32768"
  shows "allocd (put_disk_block b 0 s) x \<longleftrightarrow> allocd s x \<and> x \<noteq> b" "length (disk_blocks (put_disk_block b 0 s)) = 32768"
    "stray (put_disk_block b 0 s) = (if b < 0 \<or> 32768 \<le> b then b # stray s else stray s)"
  using assms by (auto simp: put_disk_block_cases allocd_def nth_list_update eq_nat_nat_iff split: if_splits)

lemma free_all_allocd:
  "length (disk_blocks s) = 32768 \<Longrightarrow> allocd (free_all bs s) x \<longleftrightarrow> allocd s x \<and> x \<notin> set bs"
  by (induction bs arbitrary: s) (auto simp: put_disk_block_effect)

lemma free_all_stray:
  "length (disk_blocks s) = 32768 \<Longrightarrow> stray (free_all bs s) = rev (filter (\<lambda>b. b < 0 \<or> 32768 \<le> b) bs) @ stray s"
  by (induction bs arbitrary: s) (auto simp: put_disk_block_effect)

section \<open>The blocks that are given back\<close>

text \<open>The numbers at the start of a table up to the first that is not positive.\<close>

definition listed :: "string \<Rightarrow> nat \<Rightarrow> int list" where
  "listed buf n = takeWhile (\<lambda>b. 0 < b) (shorts buf n)"

definition freed :: "(int \<Rightarrow> string) \<Rightarrow> int list \<Rightarrow> int list" where
  "freed m bs = (if 0 < bs ! 11 then concat (map (\<lambda>b. listed (m b) 100 @ [b]) (listed (m (bs ! 11)) 10)) @ [bs ! 11] else []) @
     (if 0 < bs ! 10 then listed (m (bs ! 10)) 100 @ [bs ! 10] else []) @ take 10 bs"

lemma free_listed_all: "free_listed bs s = free_all (takeWhile (\<lambda>b. 0 < b) bs) s"
  by (induction bs s rule: free_listed.induct) simp_all

lemma free_sub_listed_all:
  "fs_base s \<Longrightarrow> free_sub_listed bs s = free_all (concat (map (\<lambda>b. listed (B s b) 100 @ [b]) (takeWhile (\<lambda>b. 0 < b) bs))) s"
proof (induction bs s rule: free_sub_listed.induct)
  case (2 b bs s)
  show ?case
  proof (cases "0 < b")
    case True
    have "length (junk s) = 512" using 2(2) by (simp add: fs_base_def)
    then have rd: "rd_blk b (junk s) s = B s b" using rd_blk_law [OF 2(2)] by simp
    let ?s = "put_disk_block b 0 (free_listed (shorts (rd_blk b (junk s) s) 100) s)"
    have e: "?s = free_all (listed (B s b) 100 @ [b]) s" by (simp add: free_listed_all listed_def rd)
    have "fs_base ?s" "B ?s = B s" unfolding e using free_all_base [OF 2(2)] free_all_frame(1) by metis+
    with 2(1) [OF True] show ?thesis using True e by simp
  qed simp
qed simp

lemma free_inode_law:
  assumes b: "fs_base s" and k: "k < length (inode_table s)" "length (i_blocks (inode_table s ! k)) = 12"
    and l: "st_nlink (i_stat (inode_table s ! k)) = 1"
  defines "nd \<equiv> inode_table s ! k"
  defines "f \<equiv> free_all (freed (B s) (i_blocks nd)) s"
  shows "free_inode (int k) s = Some (s\<lparr>inode_table := (inode_table s)[k := nd\<lparr>i_stat := zero_stat,
    i_blocks := replicate 10 (-1) @ drop 10 (i_blocks nd), i_avail := 0\<rparr>], disk_blocks := disk_blocks f, stray := stray f\<rparr>)"
proof -
  define bs where "bs = i_blocks nd"
  define s1 where "s1 = s\<lparr>inode_table := (inode_table s)[k := nd\<lparr>i_stat := zero_stat\<rparr>]\<rparr>"
  have b1: "fs_base s1" "B s1 = B s" using b by (simp_all add: s1_def fs_base_def)
  define L11 where "L11 = (if 0 < bs ! 11 then concat (map (\<lambda>b. listed (B s b) 100 @ [b]) (listed (B s (bs ! 11)) 10)) @ [bs ! 11] else [])"
  define L10 where "L10 = (if 0 < bs ! 10 then listed (B s (bs ! 10)) 100 @ [bs ! 10] else [])"
  have rd: "rd_blk x (junk s') s' = B s x" if "fs_base s'" "B s' = B s" for s' x
    using rd_blk_law [OF that(1), of "junk s'" x] that by (simp add: fs_base_def)
  define f11 where "f11 = (\<lambda>s. if bs ! 11 > 0 then put_disk_block (bs ! 11) 0 (free_sub_listed (shorts (rd_blk (bs ! 11) (junk s) s) 10) s) else s)"
  define f10 where "f10 = (\<lambda>s. if bs ! 10 > 0 then put_disk_block (bs ! 10) 0 (free_listed (shorts (rd_blk (bs ! 10) (junk s) s) 100) s) else s)"
  have s2: "f11 s1 = free_all L11 s1"
    using free_sub_listed_all [OF b1(1)] rd [OF b1] b1(2) by (simp add: f11_def L11_def listed_def)
  have b2: "fs_base (f11 s1)" "B (f11 s1) = B s" using free_all_base [OF b1(1)] b1(2) by (simp_all add: s2)
  have s3: "f10 (f11 s1) = free_all L10 (f11 s1)"
    using rd [OF b2] by (simp add: f10_def L10_def listed_def free_listed_all)
  have "freed (B s) bs = L11 @ L10 @ take 10 bs" by (simp add: freed_def L11_def L10_def)
  then have s4: "free_all (take 10 bs) (f10 (f11 s1)) = free_all (freed (B s) bs) s1" by (simp add: s3 [unfolded s2] s2)
  have "free_all bs s1 = (free_all bs s)\<lparr>inode_table := inode_table s1\<rparr>" for bs
  proof (induction bs rule: rev_induct)
    case (snoc b bs)
    then show ?case by (simp add: put_disk_block_cases)
  qed (simp add: s1_def)
  moreover obtain db st where "f = s\<lparr>disk_blocks := db, stray := st\<rparr>" using free_all_fields unfolding f_def by blast
  ultimately have s5: "free_all (freed (B s) bs) s1 = s1\<lparr>disk_blocks := disk_blocks f, stray := stray f\<rparr>"
    by (simp add: f_def bs_def s1_def)
  have "free_inode (int k) s = upd_inode (int k) (\<lambda>n. n\<lparr>i_blocks := replicate 10 (-1) @ drop 10 (i_blocks n), i_avail := 0\<rparr>)
      (free_all (take 10 bs) (f10 (f11 s1)))"
    using k l by (simp add: free_inode_def upd_stat_def upd_inode_def arr_get_in arr_set_in Let_def f11_def f10_def s1_def nd_def bs_def)
  then have "free_inode (int k) s = upd_inode (int k) (\<lambda>n. n\<lparr>i_blocks := replicate 10 (-1) @ drop 10 (i_blocks n), i_avail := 0\<rparr>)
      (free_all (freed (B s) bs) s1)" unfolding s4 .
  then show ?thesis unfolding s5 using k by (simp add: upd_inode_def s1_def bs_def)
qed

section \<open>The blocks of a file\<close>

lemma take_listed:
  fixes f :: "nat \<Rightarrow> int"
  assumes "\<And>i. a \<le> i \<Longrightarrow> i < b \<Longrightarrow> i < n \<Longrightarrow> 0 < f i" "\<And>i. a \<le> i \<Longrightarrow> i < b \<Longrightarrow> n \<le> i \<Longrightarrow> f i = -1"
  shows "takeWhile (\<lambda>x. 0 < x) (map f [a..<b]) = map f [a..<min n b]"
proof (cases "a < b")
  case True
  define c where "c = max a (min n b)"
  have "[a..<b] = [a..<c] @ [c..<b]" using True upt_add_eq_append [of a c "b - c"] by (simp add: c_def)
  moreover have "[a..<c] = [a..<min n b]" by (auto simp: c_def max_def)
  moreover have "takeWhile (\<lambda>x. 0 < x) (map f [a..<c] @ ys) = map f [a..<c] @ takeWhile (\<lambda>x. 0 < x) ys" for ys
    by (rule takeWhile_append2) (use assms(1) in \<open>auto simp: c_def\<close>)
  moreover have "takeWhile (\<lambda>x. 0 < x) (map f [c..<b]) = []"
    using assms(2) [of c] by (cases "c < b") (auto simp: c_def upt_conv_Cons)
  ultimately show ?thesis by (metis append_Nil2 map_append)
qed simp

lemma shorts_map: "shorts buf n = map (\<lambda>i. get_short buf (i - a)) [a..<a + n]"
  by (simp add: shorts_def list_eq_iff_nth_eq)

lemma sub_slot: "j < (100::nat) \<Longrightarrow> (100 * q + j) div 100 = q \<and> (100 * q + j) mod 100 = j"
  by simp

lemma listed_tables:
  assumes ok: "map_ok m bs n" and pos: "\<forall>x \<in> set (data m bs n @ meta m bs n). 0 < x"
  shows "10 < n \<Longrightarrow> listed (m (bs ! 10)) 100 = map (bidx m bs) [10..<min n 110]"
    and "110 < n \<Longrightarrow> listed (m (bs ! 11)) 10 = map (subs m bs) [0..<nsubs n]"
    and "110 < n \<Longrightarrow> j < nsubs n \<Longrightarrow> listed (m (subs m bs j)) 100 = map (bidx m bs) [110 + 100 * j..<min n (110 + 100 * j + 100)]"
proof -
  have p: "0 < bidx m bs i" if "i < n" for i using pos that by (auto simp: data_def)
  note r = map_ok_rest [OF ok]
  show "listed (m (bs ! 10)) 100 = map (bidx m bs) [10..<min n 110]" if n: "10 < n"
  proof -
    have "shorts (m (bs ! 10)) 100 = map (bidx m bs) [10..<110]" unfolding shorts_map [of _ _ 10] by (simp add: bidx_def)
    then show ?thesis unfolding listed_def using take_listed [of 10 110 n "bidx m bs"] p r n by (simp add: nslots_def)
  qed
  assume n: "110 < n"
  have "n \<le> 1110" using ok by (simp add: map_ok_def)
  then have ns: "nsubs n \<le> 10" using div_le_mono [of "n - 110 + 99" 1099 100] by (simp add: nsubs_def)
  have "0 < subs m bs j" if "j < nsubs n" for j using pos n that by (auto simp: meta_def)
  moreover have "subs m bs j = -1" if "nsubs n \<le> j" "j < 10" for j using ok n that by (auto simp: map_ok_def)
  moreover have "shorts (m (bs ! 11)) 10 = map (subs m bs) [0..<10]" by (simp add: shorts_def subs_def)
  ultimately show "listed (m (bs ! 11)) 10 = map (subs m bs) [0..<nsubs n]"
    using take_listed [of 0 10 "nsubs n" "subs m bs"] ns by (simp add: listed_def)
  assume j: "j < nsubs n"
  have "shorts (m (subs m bs j)) 100 = map (bidx m bs) [110 + 100 * j..<110 + 100 * j + 100]"
    unfolding shorts_map [of _ _ "110 + 100 * j"]
  proof (intro map_cong refl)
    fix i
    assume "i \<in> set [110 + 100 * j..<110 + 100 * j + 100]"
    then obtain t where t: "t < 100" "i = 110 + 100 * j + t" by (auto simp: le_iff_add)
    then show "get_short (m (subs m bs j)) (i - (110 + 100 * j)) = bidx m bs i" using sub_slot [of t j] by (simp add: bidx_def)
  qed
  moreover have "110 + 100 * j + 100 \<le> nslots n" using n j by (simp add: nslots_def)
  ultimately show "listed (m (subs m bs j)) 100 = map (bidx m bs) [110 + 100 * j..<min n (110 + 100 * j + 100)]"
    unfolding listed_def using take_listed [of "110 + 100 * j" "110 + 100 * j + 100" n "bidx m bs"] p r by simp
qed

lemma direct_blocks:
  assumes ok: "map_ok m bs n"
  shows "take 10 bs = map (bidx m bs) [0..<min n 10] @ replicate (10 - n) (-1)"
proof (rule nth_equalityI)
  show "length (take 10 bs) = length (map (bidx m bs) [0..<min n 10] @ replicate (10 - n) (-1))"
    using ok by (simp add: map_ok_def)
  fix i
  assume "i < length (take 10 bs)"
  then have i: "i < 10" by simp
  show "take 10 bs ! i = (map (bidx m bs) [0..<min n 10] @ replicate (10 - n) (-1)) ! i"
  proof (cases "i < n")
    case True
    then show ?thesis using i by (simp add: nth_append bidx_def)
  next
    case False
    then have "bidx m bs i = -1" using i map_ok_rest [OF ok, of i] by (simp add: nslots_def)
    then show ?thesis using False i by (simp add: nth_append bidx_def)
  qed
qed

text \<open>The blocks in the second-level tables.\<close>

lemma sub_blocks:
  assumes "110 < n"
  shows "(\<Union>j < nsubs n. f ` {110 + 100 * j..<min n (110 + 100 * j + 100)}) = f ` {110..<n}"
proof (intro set_eqI iffI)
  fix x
  assume "x \<in> f ` {110..<n}"
  then obtain i where i: "110 \<le> i" "i < n" "x = f i" by auto
  define j where "j = (i - 110) div 100"
  have "j < nsubs n" using sub_in_range [of i n] i by (simp add: j_def)
  moreover have "100 * j \<le> i - 110" "i - 110 < 100 * j + 100"
    using div_mult_mod_eq [of "i - 110" 100] mod_less_divisor [of 100 "i - 110"] unfolding j_def by linarith+
  ultimately show "x \<in> (\<Union>j < nsubs n. f ` {110 + 100 * j..<min n (110 + 100 * j + 100)})" using i by force
qed auto

lemma freed_set:
  assumes ok: "map_ok m bs n" and pos: "\<forall>x \<in> set (data m bs n @ meta m bs n). 0 < x"
  shows "\<exists>xs. freed m bs = xs @ replicate (10 - n) (-1) \<and> set xs = set (data m bs n @ meta m bs n)"
proof -
  note T = listed_tables [OF ok pos] and D = direct_blocks [OF ok]
  have dt: "set (data m bs n) = bidx m bs ` {0..<n}" by (auto simp: data_def)
  consider (direct) "n \<le> 10" | (single) "10 < n" "n \<le> 110" | (double) "110 < n" by linarith
  then show ?thesis
  proof cases
    case direct
    then have "freed m bs = map (bidx m bs) [0..<n] @ replicate (10 - n) (-1)"
      using ok D by (simp add: freed_def map_ok_def min_absorb1)
    then show ?thesis using direct by (intro exI [of _ "map (bidx m bs) [0..<n]"]) (simp add: dt meta_def)
  next
    case single
    have "0 < bs ! 10" "bs ! 11 = -1" using ok pos single by (simp_all add: map_ok_def meta_def)
    then have e: "freed m bs = map (bidx m bs) [10..<n] @ [bs ! 10] @ map (bidx m bs) [0..<10]"
      using T(1) D single by (simp add: freed_def min_absorb1 min_absorb2)
    have "{0..<n} = {10..<n} \<union> {0..<10}" using single by auto
    then show ?thesis using e single by (intro exI [of _ "freed m bs"]) (auto simp: dt meta_def)
  next
    case double
    have p: "0 < bs ! 10" "0 < bs ! 11" using pos double by (simp_all add: meta_def)
    let ?subs = "map (subs m bs) [0..<nsubs n]"
    have e: "freed m bs = concat (map (\<lambda>b. listed (m b) 100 @ [b]) ?subs) @ [bs ! 11] @ map (bidx m bs) [10..<110] @ [bs ! 10] @ map (bidx m bs) [0..<10]"
      using T(1,2) D double p by (simp add: freed_def min_absorb2)
    have "set (concat (map (\<lambda>b. listed (m b) 100 @ [b]) ?subs)) =
        (\<Union>j < nsubs n. bidx m bs ` {110 + 100 * j..<min n (110 + 100 * j + 100)}) \<union> subs m bs ` {0..<nsubs n}"
      using T(3) [OF double] by (auto simp: atLeast0LessThan)
    then have c: "set (concat (map (\<lambda>b. listed (m b) 100 @ [b]) ?subs)) = bidx m bs ` {110..<n} \<union> subs m bs ` {0..<nsubs n}"
      unfolding sub_blocks [OF double] .
    have se: "set (freed m bs) = bidx m bs ` {110..<n} \<union> subs m bs ` {0..<nsubs n} \<union> {bs ! 11} \<union> bidx m bs ` {10..<110} \<union> {bs ! 10} \<union> bidx m bs ` {0..<10}"
      unfolding e set_append c by (simp only: list.set set_map set_upt Un_assoc)
    have "{0..<n} = {110..<n} \<union> {10..<110} \<union> {0..<10}" using double by auto
    then have "set (data m bs n) = bidx m bs ` {110..<n} \<union> bidx m bs ` {10..<110} \<union> bidx m bs ` {0..<10}"
      by (simp add: dt image_Un)
    moreover have "set (meta m bs n) = {bs ! 10} \<union> {bs ! 11} \<union> subs m bs ` {0..<nsubs n}" using double by (auto simp: meta_def)
    ultimately have "set (freed m bs) = set (data m bs n @ meta m bs n)" unfolding se set_append by (simp only: Un_ac)
    then show ?thesis using double by (intro exI [of _ "freed m bs"]) simp
  qed
qed

section \<open>Exactness\<close>

lemma free_inode_exact_law:
  assumes f: "file_ok s (int k)" and l: "st_nlink (i_stat (inode_table s ! k)) = 1"
    and pos: "\<forall>x \<in> set (file_blocks s (int k) @ file_tables s (int k)). 0 < x"
  shows "\<exists>s'. free_inode (int k) s = Some s' \<and>
    (\<forall>x. allocd s' x \<longleftrightarrow> allocd s x \<and> x \<notin> set (file_blocks s (int k) @ file_tables s (int k))) \<and>
    stray s' = replicate (10 - length (file_blocks s (int k))) (-1) @ stray s \<and>
    i_avail (inode_table s' ! k) = 0 \<and> i_stat (inode_table s' ! k) = zero_stat \<and>
    (\<forall>j. j \<noteq> k \<longrightarrow> inode_table s' ! j = inode_table s ! j) \<and> sdisk s' = sdisk s \<and>
    name_table s' = name_table s \<and> open_files s' = open_files s"
proof -
  note F = file_okD [OF f]
  define bs where "bs = i_blocks (inode_table s ! k)"
  define n where "n = (file_size s (int k) + 511) div 512"
  have ok: "map_ok (B s) bs n" using F(6) by (simp add: bs_def n_def)
  have bl: "file_blocks s (int k) = data (B s) bs n" "file_tables s (int k) = meta (B s) bs n"
    using F(9,10) by (simp_all add: bs_def n_def)
  have kl: "k < length (inode_table s)" "length (i_blocks (inode_table s ! k)) = 12" using F(3,7) by simp_all
  have db: "length (disk_blocks s) = 32768" using F(1) by (simp add: fs_base_def)
  obtain xs where xs: "freed (B s) bs = xs @ replicate (10 - n) (-1)" "set xs = set (data (B s) bs n @ meta (B s) bs n)"
    using freed_set [OF ok] pos bl by auto
  have "\<forall>x \<in> set xs. 0 \<le> x \<and> x < 32768" using ok unfolding xs(2) map_ok_def by blast
  then have "filter (\<lambda>b. b < 0 \<or> 32768 \<le> b) xs = []" by (auto simp: filter_empty_conv)
  then have st: "stray (free_all (freed (B s) bs) s) = replicate (10 - n) (-1) @ stray s"
    unfolding free_all_stray [OF db] xs(1) by simp
  have al: "allocd (free_all (freed (B s) bs) s) x \<longleftrightarrow> allocd s x \<and> x \<notin> set (data (B s) bs n @ meta (B s) bs n)" for x
    unfolding free_all_allocd [OF db] xs(1) using xs(2) by (auto simp: allocd_def)
  show ?thesis
    using free_inode_law [OF F(1) kl l] kl st al unfolding bl bs_def [symmetric]
    by (simp add: allocd_def bs_def [symmetric] data_def)
qed

text \<open>
  Claim C30. Removing the last link of a well-formed file whose blocks are not block 0: exactly its data blocks and its tables
  become free, the inode is free, and nothing else of the file system changes. For each of the ten direct blocks that
  the file does not have, the code also stores to \<open>disk_blocks[-1]\<close>, outside the array.
\<close>

theorem free_inode_exact:
  assumes f: "file_ok s (int k)" and l: "st_nlink (i_stat (inode_table s ! k)) = 1"
    and pos: "\<forall>x \<in> set (file_blocks s (int k) @ file_tables s (int k)). 0 < x"
  shows "\<exists>s'. free_inode (int k) s = Some s' \<and>
    (\<forall>x. allocd s' x \<longleftrightarrow> allocd s x \<and> x \<notin> set (file_blocks s (int k) @ file_tables s (int k))) \<and>
    stray s' = replicate (10 - length (file_blocks s (int k))) (-1) @ stray s \<and>
    i_avail (inode_table s' ! k) = 0 \<and> i_stat (inode_table s' ! k) = zero_stat \<and>
    (\<forall>j. j \<noteq> k \<longrightarrow> inode_table s' ! j = inode_table s ! j) \<and> sdisk s' = sdisk s \<and>
    name_table s' = name_table s \<and> open_files s' = open_files s"
  by (rule free_inode_exact_law [OF assms])

text \<open>A file does not depend on anything but its inode, its own blocks and their entries of the bitmap.\<close>

lemma file_ok_frame:
  assumes f: "file_ok s k" and b: "fs_base s'" "length (inode_table s') = length (inode_table s)" "disk_blocks s' = disk_blocks s"
    and n: "inode_table s' ! nat k = inode_table s ! nat k"
    and m: "\<And>x. x \<in> set (file_blocks s k @ file_tables s k) \<Longrightarrow> B s' x = B s x"
  shows "file_ok s' k" "file_blocks s' k = file_blocks s k" "file_tables s' k = file_tables s k" "file_data s' k = file_data s k"
proof -
  note F = file_okD [OF f]
  let ?bs = "i_blocks (inode_table s ! nat k)" and ?n = "(file_size s k + 511) div 512"
  have c: "meta (B s') ?bs ?n = meta (B s) ?bs ?n" "data (B s') ?bs ?n = data (B s) ?bs ?n" "map_ok (B s') ?bs ?n"
    using map_cong_meta [OF F(6), of "B s'"] m F(10) by auto
  have sz: "file_size s' k = file_size s k" using n by (simp add: file_size_def)
  have nb: "nat (st_blocks (i_stat (inode_table s ! nat k))) = ?n" using F(5) by simp
  show bl: "file_blocks s' k = file_blocks s k" "file_tables s' k = file_tables s k"
    using c n nb by (simp_all add: file_blocks_def file_tables_def Let_def)
  show "file_data s' k = file_data s k" using m by (simp add: file_data_def bl sz cong: map_cong)
  show "file_ok s' k" using f b n c(3) sz bl by (simp add: file_ok_def Let_def allocd_def)
qed

section \<open>The theorem applied\<close>

text \<open>A file of five bytes in block 1.\<close>

definition demo_linked :: sfs where
  "demo_linked = (demo_fs 5 1 [])\<lparr>disk_blocks := 1 # 1 # replicate 32766 0, inode_table := [\<lparr>i_avail = 1,
     i_stat = zero_stat\<lparr>st_size := 5, st_blocks := 1, st_nlink := 1\<rparr>, i_blocks = 1 # replicate 11 (-1)\<rparr>]\<rparr>"

lemma demo_linked_ok:
  "file_ok demo_linked (int 0)" "file_blocks demo_linked (int 0) = [1]" "file_tables demo_linked (int 0) = []"
proof -
  have sz: "file_size demo_linked (int 0) = 5" by (simp add: file_size_def demo_linked_def)
  show bl: "file_blocks demo_linked (int 0) = [1]" "file_tables demo_linked (int 0) = []"
    by (simp_all add: file_blocks_def file_tables_def data_def meta_def bidx_def demo_linked_def)
  have "map_ok (B demo_linked) (1 # replicate 11 (-1)) 1" by (simp add: map_ok_def data_def meta_def bidx_def nslots_def nth_Cons')
  moreover have "allocd demo_linked 1" by (simp add: allocd_def demo_linked_def)
  moreover have "fs_base demo_linked" using demo_fs_base [of 5 1 "[]"] by (simp add: fs_base_def demo_linked_def)
  ultimately show "file_ok demo_linked (int 0)"
    unfolding file_ok_def Let_def sz bl by (simp add: demo_linked_def)
qed

theorem free_inode_exact_witness:
  "\<exists>s'. free_inode 0 demo_linked = Some s' \<and> \<not> allocd s' 1 \<and> allocd s' 0 \<and> stray s' = replicate 9 (-1)"
proof -
  have l: "st_nlink (i_stat (inode_table demo_linked ! 0)) = 1" "allocd demo_linked 0" "stray demo_linked = []"
    by (simp_all add: demo_linked_def demo_fs_def allocd_def)
  show ?thesis using free_inode_exact [OF demo_linked_ok(1) l(1)] l(2,3) unfolding demo_linked_ok(2,3) by auto
qed

end
