(* ===== verification/Sfs_Dirs.thy ===== *)
theory Sfs_Dirs
  imports Sfs_Dir_Text Sfs_Free
begin

text \<open>
  The directory operations of the file system of asst3: entering a file in its parent directory,
  removing it, listing a directory, opening and releasing files.
\<close>

section \<open>Directories\<close>

text \<open>
  Inode \<open>k\<close> is a directory with the entries \<open>es\<close>: its first block holds their text, ended by a null
  character.
\<close>

definition dir_at :: "sfs \<Rightarrow> int \<Rightarrow> (string \<times> int) list \<Rightarrow> bool" where
  "dir_at s k es \<longleftrightarrow> fs_base s \<and> 0 \<le> k \<and> k < int (length (inode_table s)) \<and>
     (let nd = inode_table s ! nat k; b = i_blocks nd ! 0
      in length (i_blocks nd) = 12 \<and> 0 \<le> b \<and> b < 32768 \<and> dir_blocks (st_size (i_stat nd)) \<noteq> 0 \<and>
         (\<exists>rest. B s b = dir_text es @ NUL # rest)) \<and>
     es \<noteq> [] \<and> (\<forall>(n, i) \<in> set es. name_ok n \<and> NUL \<notin> set n \<and> 0 \<le> i)"

definition dir_block :: "sfs \<Rightarrow> int \<Rightarrow> int" where
  "dir_block s k = i_blocks (inode_table s ! nat k) ! 0"

lemma dir_atD:
  assumes "dir_at s k es"
  defines "nd \<equiv> inode_table s ! nat k"
  shows "fs_base s" "0 \<le> k" "k < int (length (inode_table s))" "length (i_blocks nd) = 12"
    "0 \<le> i_blocks nd ! 0" "i_blocks nd ! 0 < 32768" "dir_blocks (st_size (i_stat nd)) \<noteq> 0"
    "\<exists>rest. B s (i_blocks nd ! 0) = dir_text es @ NUL # rest" "es \<noteq> []"
    "\<forall>(n, i) \<in> set es. name_ok n \<and> NUL \<notin> set n \<and> 0 \<le> i" "length (junk s) = 512"
  using assms by (auto simp: dir_at_def Let_def fs_base_def)

lemma no_null_text: "\<forall>(n, i) \<in> set es. name_ok n \<and> NUL \<notin> set n \<and> 0 \<le> i \<Longrightarrow> NUL \<notin> set (dir_text es)"
proof -
  assume a: "\<forall>(n, i) \<in> set es. name_ok n \<and> NUL \<notin> set n \<and> 0 \<le> i"
  have "\<not> digit NUL" by (simp add: digit_def)
  then have "NUL \<notin> set (print_int i)" if "0 \<le> i" for i using print_int_digits [OF that] by blast
  with a have "NUL \<notin> set (slashed (dir_tokens es))" by (induction es) auto
  then show ?thesis unfolding dir_text_def by (meson in_set_dropD)
qed

lemma takeWhile_text: "NUL \<notin> set t \<Longrightarrow> takeWhile (\<lambda>c. c \<noteq> NUL) (t @ NUL # r) = t"
proof -
  assume "NUL \<notin> set t"
  then have "\<forall>c \<in> set t. c \<noteq> NUL" by auto
  then show ?thesis by (simp add: takeWhile_append2)
qed

lemma get_block_index_0: "dir_at s k es \<Longrightarrow> get_block_index k 0 s = Some (dir_block s k)"
  using get_block_index_law [of s k "i_blocks (inode_table s ! nat k)" 0] dir_atD [of s k es]
  by (simp add: bidx_def dir_block_def)

lemma readdir_law:
  assumes m: "path_lookup path s = int m" "m < length (name_table s)" and k: "p_ino (name_table s ! m) = k"
    and d: "dir_at s k es"
  shows "sfs_readdir path s = Some (0, map fst es)"
proof -
  note D = dir_atD [OF d]
  obtain rest where r: "B s (i_blocks (inode_table s ! nat k) ! 0) = dir_text es @ NUL # rest" using D(8) by blast
  have nn: "NUL \<notin> set (dir_text es)" by (rule no_null_text [OF D(10)])
  have "cstr (dir_text es @ NUL # rest) = Some (dir_text es)"
    using takeWhile_text [OF nn] by (simp add: cstr_def)
  moreover have "fill_loop (dir_text es) = map fst es" using D(10) by (intro fill_loop_dir_text) auto
  ultimately show ?thesis
    using m k D(2,3,4,7) r by (simp add: sfs_readdir_def arr_get_in rd_blk_law [OF D(1) D(11)] Let_def)
qed

text \<open>
  Listing a directory gives the names of its entries, in order.
\<close>

theorem readdir_lists:
  assumes m: "path_lookup path s = int m" "m < length (name_table s)" and k: "p_ino (name_table s ! m) = k"
    and d: "dir_at s k es"
  shows "sfs_readdir path s = Some (0, map fst es)"
  by (rule readdir_law [OF assms])

section \<open>Entering a file\<close>

lemma find_end_here:
  "NUL \<in> set buf \<Longrightarrow> find_end dir i buf s = Some (i, buf, length (takeWhile (\<lambda>c. c \<noteq> NUL) buf))"
  by (subst find_end.simps) simp

text \<open>The search for the end of a directory always ends: after block 1109 it reads zeros.\<close>

lemma find_end_stops:
  assumes b: "fs_base s" and k: "0 \<le> k" "k < int (length (inode_table s))" "length (i_blocks (inode_table s ! nat k)) = 12"
  shows "i \<le> 1110 \<Longrightarrow> length buf = 512 \<Longrightarrow> \<exists>r. find_end k (int i) buf s = Some r"
proof (induction "1110 - i" arbitrary: i buf)
  case 0
  then have i: "i = 1110" by simp
  have "to_short 1111 = 1111" by (simp add: to_short_id)
  then have "get_block_index k (int i + 1) s = Some (-1)" using k i by (simp add: get_block_index_def arr_get_in)
  moreover have "rd_blk (-1) buf s = zeros 512" using rd_blk_law [OF b 0(3)] by (simp add: blk_neg)
  ultimately have "NUL \<notin> set buf \<Longrightarrow> find_end k (int i) buf s = find_end k (int i + 1) (zeros 512) s"
    by (subst find_end.simps) simp
  then show ?case using find_end_here [of "zeros 512"] find_end_here [of buf] by (cases "NUL \<in> set buf") auto
next
  case (Suc n)
  show ?case
  proof (cases "NUL \<in> set buf")
    case True
    then show ?thesis using find_end_here by blast
  next
    case False
    obtain c where c: "get_block_index k (int i + 1) s = Some c"
    proof (cases "Suc i < 1110")
      case True
      then show thesis using get_block_index_law [OF b k(1,2) refl k(3), of "Suc i"] that by (simp add: add.commute)
    next
      case False
      then have "i = 1109" using Suc(2) by simp
      moreover have "to_short 1110 = 1110" by (simp add: to_short_id)
      ultimately show thesis using that k by (simp add: get_block_index_def arr_get_in)
    qed
    have "\<exists>r. find_end k (int (Suc i)) (rd_blk c buf s) s = Some r"
      by (rule Suc(1)) (use Suc(2,4) rd_blk_law [OF b Suc(4)] in simp_all)
    then show ?thesis using False c by (subst find_end.simps) (simp add: add.commute)
  qed
qed

text \<open>
  Claim C37. The loop that looks for the end of a directory's text terminates in every state: it leaves
  with a block number and a position, at the latest behind the last block a file can have.
\<close>

theorem find_end_terminates:
  assumes "fs_base s" "0 \<le> k" "k < int (length (inode_table s))" "length (i_blocks (inode_table s ! nat k)) = 12"
    and "length buf = 512"
  shows "\<exists>i buf' ptr. find_end k 0 buf s = Some (i, buf', ptr)"
  using find_end_stops [OF assms(1-4), of 0 buf] assms(5) by auto

theorem find_end_terminates_witness:
  "\<exists>i buf' ptr. find_end 0 0 (replicate 512 CHR ''x'') (demo_fs 5 1 (0 # replicate 11 (-1))) = Some (i, buf', ptr)"
  using find_end_terminates [OF demo_fs_base [of 5 1 "0 # replicate 11 (-1)"], of 0 "replicate 512 CHR ''x''"]
  by (simp add: demo_fs_def)

lemma overwrite_text:
  assumes "length t < 512" "length (t @ NUL # rest) = 512" "length t + length e < 512"
  shows "\<exists>rest'. take 512 (overwrite ((t @ NUL # rest) @ z) (length t) (e @ [NUL])) = (t @ e) @ NUL # rest'"
proof -
  have "overwrite ((t @ NUL # rest) @ z) (length t) (e @ [NUL]) =
      (t @ e) @ NUL # drop (length t + length (e @ [NUL])) ((t @ NUL # rest) @ z)"
    by (simp add: overwrite_def)
  moreover obtain m where "512 - length (t @ e) = Suc m"
    using assms(3) by (cases "512 - length (t @ e)") auto
  then have "take 512 ((t @ e) @ NUL # y) = (t @ e) @ NUL # take m y" for y :: string
    unfolding take_append using assms(3) by simp
  ultimately show ?thesis by metis
qed

text \<open>\<open>s'\<close> is \<open>s\<close> with the entry \<open>(n, ino)\<close> added to directory \<open>k\<close>.\<close>

lemma add_entry_law:
  assumes d: "dir_at s (cwd_inode s) es" and n: "get_name path = Some n" "name_ok n" "NUL \<notin> set n" "0 \<le> ino"
    and fit: "length (dir_text es) + length (dir_entry n ino) < 512" and cap: "512 \<le> cap"
    and room: "c_mod (st_size (i_stat (inode_table s ! nat (cwd_inode s)))) 512 + int (length (dir_entry n ino)) + 1 \<le> 512"
    and big: "dir_blocks (st_size (i_stat (inode_table s ! nat (cwd_inode s))) + int (length (dir_entry n ino)) + 1) \<noteq> 0"
  defines "nd \<equiv> inode_table s ! nat (cwd_inode s)"
  shows "\<exists>d. let nd' = nd\<lparr>i_stat := (i_stat nd)\<lparr>st_size := st_size (i_stat nd) + (int (length (dir_entry n ino)) + 1),
        st_nlink := st_nlink (i_stat nd) + 1\<rparr>\<rparr>;
      s' = s\<lparr>sdisk := d, inode_table := (inode_table s)[nat (cwd_inode s) := nd']\<rparr>
    in add_entry cap path ino s = Some s' \<and> dir_at s' (cwd_inode s) (es @ [(n, ino)]) \<and>
       (\<forall>x. x \<noteq> dir_block s (cwd_inode s) \<longrightarrow> B s' x = B s x)"
proof -
  define k where "k = cwd_inode s"
  note D = dir_atD [OF d, folded k_def] and I = get_block_index_0 [OF d, folded k_def]
  have nd: "nd = inode_table s ! nat k" by (simp add: nd_def k_def)
  define b where "b = dir_block s k"
  have b: "0 \<le> b" "b = i_blocks nd ! 0" using D(5) by (simp_all add: b_def dir_block_def nd)
  obtain rest where r: "B s b = dir_text es @ NUL # rest" using D(8) b(2) by (auto simp: nd)
  have lr: "length (dir_text es @ NUL # rest) = 512" using length_blk [of "sdisk s" b] r by simp
  have nn: "NUL \<notin> set (dir_text es)" by (rule no_null_text [OF D(10)])
  have fe: "find_end k 0 (B s b) s = Some (0, B s b, length (dir_text es))"
    using find_end_here [of "B s b" k 0 s] takeWhile_text [OF nn] r by simp
  define e where "e = dir_entry n ino"
  have le: "length (dir_text es) + length e < 512" "length (dir_text es) < 512" using fit by (simp_all add: e_def)
  let ?buf = "overwrite (B s b @ take (cap - 512) (junk s)) (length (dir_text es)) (e @ [NUL])"
  obtain rest' where r': "take 512 ?buf = (dir_text es @ e) @ NUL # rest'"
    using overwrite_text [OF le(2) lr le(1), of "take (cap - 512) (junk s)"] r by auto
  have lb: "length (take 512 ?buf) = 512" using le lr r by (simp add: overwrite_def)
  from wr_blk_law [OF D(1) b(1) lb] obtain dd where
    w: "wr_blk b (take 512 ?buf) s = s\<lparr>sdisk := dd\<rparr>" "disk_ok dd" "blk dd = (B s)(b := take 512 ?buf)" by blast
  let ?nd' = "nd\<lparr>i_stat := (i_stat nd)\<lparr>st_size := st_size (i_stat nd) + (int (length e) + 1), st_nlink := st_nlink (i_stat nd) + 1\<rparr>\<rparr>"
  let ?s' = "s\<lparr>sdisk := dd, inode_table := (inode_table s)[nat k := ?nd']\<rparr>"
  have kl: "nat k < length (inode_table s)" using D(2,3) by simp
  have rm: "\<not> c_mod (st_size (i_stat nd)) 512 + (int (length e) + 1) > 512" using room by (simp add: nd_def e_def)
  have ev: "add_entry cap path ino s = Some ?s'"
    using I fe n(1) le cap w(1) D(2,3) rm
    by (simp add: add_entry_def Let_def k_def [symmetric] b_def [symmetric] rd_blk_law [OF D(1)] e_def [symmetric]
        arr_get_in arr_set_in nd [symmetric] upd_stat_def upd_inode_def)
  have es': "\<forall>(m, i) \<in> set (es @ [(n, ino)]). name_ok m \<and> NUL \<notin> set m \<and> 0 \<le> i" using D(10) n by auto
  have "dir_text (es @ [(n, ino)]) = dir_text es @ e" by (simp add: dir_text_snoc [OF D(9)] e_def)
  then have "B ?s' b = dir_text (es @ [(n, ino)]) @ NUL # rest'" using r' w(3) by simp
  moreover have "inode_table ?s' ! nat k = ?nd'" using kl by simp
  moreover have "dir_blocks (st_size (i_stat ?nd')) \<noteq> 0" using big by (simp add: nd_def e_def add.assoc)
  moreover have "fs_base ?s'" using D(1) w(2) by (simp add: fs_base_def)
  ultimately have "dir_at ?s' k (es @ [(n, ino)])"
    using D(2,3,4,5,6) es' b(2) unfolding dir_at_def Let_def by (auto simp: nd)
  moreover have "\<forall>x. x \<noteq> dir_block s k \<longrightarrow> B ?s' x = B s x" using w(3) by (simp add: b_def)
  ultimately show ?thesis using ev unfolding k_def e_def Let_def by blast
qed

section \<open>The tables\<close>

lemma scan_update:
  assumes "scan P xs = int i" "j \<noteq> i" "\<not> P v"
  shows "scan P (xs[j := v]) = int i"
proof -
  have i: "i < length xs" "P (xs ! i)" "\<forall>j < i. \<not> P (xs ! j)" using assms(1) by (simp_all add: scan_eq_int)
  have "\<not> P (xs[j := v] ! l)" if "l < i" for l using that i(1,3) assms(3) by (cases "l = j") auto
  then show ?thesis using i assms(2) by (simp add: scan_eq_int)
qed

lemma scan_new:
  assumes "scan P xs = -1" "j < length xs" "P v"
  shows "scan P (xs[j := v]) = int j"
  using assms by (auto simp: scan_eq_int scan_none nth_list_update)

lemma sprintf_plain: "CHR ''%'' \<notin> set p \<Longrightarrow> sprintf_path p = Some p"
  by (induction p rule: sprintf_path.induct) auto

lemma get_inode_law:
  assumes "scan (\<lambda>n. i_avail n = 0) (inode_table s) = int i"
  shows "get_inode s = (int i, s\<lparr>inode_table := (inode_table s)[i :=
    (inode_table s ! i)\<lparr>i_avail := 1, i_blocks := replicate 12 (-1)\<rparr>]\<rparr>)"
  using assms by (simp add: get_inode_def)

lemma get_mapping_law:
  assumes "scan (\<lambda>m. p_avail m = 0) (name_table s) = int m"
  shows "get_mapping s = (int m, s\<lparr>name_table := (name_table s)[m := (name_table s ! m)\<lparr>p_avail := 1\<rparr>]\<rparr>)"
  using assms by (simp add: get_mapping_def)

text \<open>
  The situation in which the entry \<open>n\<close> can be made in the directory with the path \<open>d\<close>: \<open>i\<close> and \<open>m\<close>
  are the first free inode and mapping, \<open>pm\<close> is the mapping of the directory \<open>k\<close> with the
  entries \<open>es\<close>, and the new entry fits in the directory's first block. \<open>sfs_create\<close> succeeds when
  there is a handle \<open>h\<close>, too.
\<close>

definition can_enter :: "sfs \<Rightarrow> string \<Rightarrow> string \<Rightarrow> nat \<Rightarrow> nat \<Rightarrow> nat \<Rightarrow> int \<Rightarrow> (string \<times> int) list \<Rightarrow> bool" where
  "can_enter s d n i m pm k es \<longleftrightarrow>
     name_ok n \<and> NUL \<notin> set n \<and> CHR ''%'' \<notin> set (d @ SLASH # n) \<and> length (d @ SLASH # n) < 128 \<and>
     path_lookup (d @ SLASH # n) s = -1 \<and>
     scan (\<lambda>x. i_avail x = 0) (inode_table s) = int i \<and>
     scan (\<lambda>x. p_avail x = 0) (name_table s) = int m \<and>
     path_lookup (if d = [] then ''/'' else d) s = int pm \<and> pm \<noteq> m \<and> p_ino (name_table s ! pm) = k \<and>
     dir_at s k es \<and> nat k \<noteq> i \<and>
     (let t = st_size (i_stat (inode_table s ! nat k)); l = int (length (dir_entry n (int i))) + 1
      in int (length (dir_text es)) + l \<le> 512 \<and> c_mod t 512 + l \<le> 512 \<and> dir_blocks (t + l) \<noteq> 0)"

definition can_create :: "sfs \<Rightarrow> string \<Rightarrow> string \<Rightarrow> nat \<Rightarrow> nat \<Rightarrow> nat \<Rightarrow> nat \<Rightarrow> int \<Rightarrow> (string \<times> int) list \<Rightarrow> bool" where
  "can_create s d n i h m pm k es \<longleftrightarrow>
     can_enter s d n i m pm k es \<and> get_fh s = int h \<and> h < 128 \<and> length (open_files s) = 128"

lemma dir_at_frame:
  assumes "dir_at s k es" "fs_base s'" "length (inode_table s') = length (inode_table s)"
    "inode_table s' ! nat k = inode_table s ! nat k" "B s' = B s"
  shows "dir_at s' k es"
  using assms by (simp add: dir_at_def)

lemma empty_file_ok:
  assumes "fs_base s" "i < length (inode_table s)" "i_blocks (inode_table s ! i) = replicate 12 (-1)"
    "st_size (i_stat (inode_table s ! i)) = 0" "st_blocks (i_stat (inode_table s ! i)) = 0"
  shows "file_ok s (int i) \<and> file_data s (int i) = []"
  using assms by (simp add: file_ok_def file_size_def file_data_def file_blocks_def file_tables_def
      map_ok_def data_def meta_def nslots_def bidx_def Let_def)

lemma create_file_law:
  assumes c: "can_create s d n i h m pm k es"
  shows "\<exists>s'. sfs_create e (d @ SLASH # n) mode s = Some (0, Some (int h), s') \<and>
    path_lookup (d @ SLASH # n) s' = int m \<and> p_ino (name_table s' ! m) = int i \<and>
    file_ok s' (int i) \<and> file_data s' (int i) = [] \<and> opened s' (int h) (int i) \<and>
    st_mode (i_stat (inode_table s' ! i)) = mode \<and> st_nlink (i_stat (inode_table s' ! i)) = 1 \<and>
    dir_at s' k (es @ [(n, int i)]) \<and> sfs_readdir (if d = [] then ''/'' else d) s' = Some (0, map fst es @ [n]) \<and>
    (\<forall>x. x \<noteq> dir_block s k \<longrightarrow> B s' x = B s x) \<and>
    (\<forall>j. j \<noteq> i \<longrightarrow> j \<noteq> nat k \<longrightarrow> inode_table s' ! j = inode_table s ! j) \<and>
    (\<forall>j. j \<noteq> m \<longrightarrow> name_table s' ! j = name_table s ! j) \<and> disk_blocks s' = disk_blocks s \<and>
    dir_block s' k = dir_block s k \<and> length (inode_table s') = length (inode_table s) \<and> length (name_table s') = length (name_table s) \<and>
    st_size (i_stat (inode_table s' ! nat k)) = st_size (i_stat (inode_table s ! nat k)) + int (length (dir_entry n (int i))) + 1 \<and>
    st_nlink (i_stat (inode_table s' ! nat k)) = st_nlink (i_stat (inode_table s ! nat k)) + 1"
proof -
  define path where "path = d @ SLASH # n"
  define dp where "dp = (if d = [] then ''/'' else d)"
  define ent where "ent = dir_entry n (int i)"
  define nt1 where "nt1 = (name_table s)[m := \<lparr>p_avail = 1, p_ino = int i, p_path = path\<rparr>]"
  define nd where "nd = (inode_table s ! i)\<lparr>i_avail := 1, i_blocks := replicate 12 (-1), i_stat := new_stat e mode 1 0 0\<rparr>"
  define fs1 where "fs1 = (open_files s)[h := \<lparr>refcnt = 1, f_ino = int i, f_pos = 0\<rparr>]"
  define s1 where "s1 = s\<lparr>open_files := fs1, inode_table := (inode_table s)[i := nd], name_table := nt1, cwd_inode := k\<rparr>"
  have C: "name_ok n" "NUL \<notin> set n" "CHR ''%'' \<notin> set path" "length path < 128" "path_lookup path s = -1"
      "scan (\<lambda>x. i_avail x = 0) (inode_table s) = int i" "get_fh s = int h" "h < 128" "length (open_files s) = 128"
      "scan (\<lambda>x. p_avail x = 0) (name_table s) = int m" "path_lookup dp s = int pm" "pm \<noteq> m"
      "p_ino (name_table s ! pm) = k" "dir_at s k es" "nat k \<noteq> i"
    using c by (simp_all add: can_create_def can_enter_def Let_def path_def dp_def)
  have fit: "length (dir_text es) + length ent < 512"
      "c_mod (st_size (i_stat (inode_table s ! nat k))) 512 + int (length ent) + 1 \<le> 512"
      "dir_blocks (st_size (i_stat (inode_table s ! nat k)) + int (length ent) + 1) \<noteq> 0"
    using c by (simp_all add: can_create_def can_enter_def Let_def ent_def add.assoc)
  have sp: "get_cwd_path path = Some (0, dp)" "get_name path = Some n"
    using path_splits_law [of n d] C(1,4) by (auto simp: path_def dp_def name_ok_def)
  note D = dir_atD [OF C(14)]
  have i: "i < length (inode_table s)" "m < length (name_table s)" "pm < length (name_table s)"
    using C(6,10,11) by (simp_all add: scan_eq_int path_lookup_def)
  have "dp \<noteq> path" using C(1) by (auto simp: dp_def path_def name_ok_def)
  have lk: "path_lookup dp (s\<lparr>name_table := nt1\<rparr>) = int pm" "path_lookup path (s\<lparr>name_table := nt1\<rparr>) = int m"
    using C(5,11,12) i(2) \<open>dp \<noteq> path\<close> scan_update [of "\<lambda>m. p_path m = dp" "name_table s" pm m] scan_new [of "\<lambda>m. p_path m = path" "name_table s" m]
    by (simp_all add: path_lookup_def nt1_def)
  have d1: "dir_at s1 k es"
    by (rule dir_at_frame [OF C(14)]) (use D(1) C(15) in \<open>simp_all add: s1_def fs_base_def\<close>)
  have st: "inode_table s1 ! nat k = inode_table s ! nat k" "cwd_inode s1 = k" using C(15) by (simp_all add: s1_def)
  obtain dd s' where a: "add_entry 1024 path (int i) s1 = Some s'" "dir_at s' k (es @ [(n, int i)])"
      "\<forall>x. x \<noteq> dir_block s1 k \<longrightarrow> B s' x = B s1 x"
      "s' = s1\<lparr>sdisk := dd, inode_table := (inode_table s1)[nat k := (inode_table s ! nat k)\<lparr>i_stat := (i_stat (inode_table s ! nat k))
        \<lparr>st_size := st_size (i_stat (inode_table s ! nat k)) + (int (length ent) + 1), st_nlink := st_nlink (i_stat (inode_table s ! nat k)) + 1\<rparr>\<rparr>]\<rparr>"
    using add_entry_law [of s1 es path n "int i" 1024, unfolded st] d1 sp(2) C(1,2) fit by (auto simp: Let_def ent_def)
  have ev: "sfs_create e path mode s = Some (0, Some (int h), s')"
  proof -
    have "sprintf_path path = Some path" by (rule sprintf_plain [OF C(3)])
    then show ?thesis
      using C(4,5,7,8,9,12) get_inode_law [OF C(6)] i sp(1) lk(1) a(1) C(10,13)
      by (simp add: sfs_create_def Let_def arr_set_in arr_get_in upd_stat_def upd_inode_def get_mapping_def enter_path_def enter_cwd_def
          s1_def nd_def fs1_def nt1_def path_lookup_def)
  qed
  have tabs: "name_table s' = nt1" "open_files s' = fs1" "inode_table s' ! i = nd" "length (inode_table s') = length (inode_table s)"
      "\<And>j. j \<noteq> i \<Longrightarrow> j \<noteq> nat k \<Longrightarrow> inode_table s' ! j = inode_table s ! j"
    using a(4) C(15) i(1) by (simp_all add: s1_def)
  have ino: "p_ino (name_table s' ! m) = int i" "p_ino (name_table s' ! pm) = k"
    using i C(12,13) by (simp_all add: tabs(1) nt1_def)
  have lk': "path_lookup path s' = int m" "path_lookup dp s' = int pm"
    using lk by (simp_all add: path_lookup_def tabs(1))
  have fo: "file_ok s' (int i) \<and> file_data s' (int i) = []"
    by (rule empty_file_ok) (use dir_atD(1) [OF a(2)] tabs i(1) in \<open>simp_all add: nd_def new_stat_def\<close>)
  have op: "opened s' (int h) (int i)" using C(8,9) by (simp add: opened_def tabs(2) fs1_def)
  have rd: "sfs_readdir dp s' = Some (0, map fst es @ [n])"
    using readdir_law [OF lk'(2) _ ino(2) a(2)] i(3) by (simp add: tabs(1) nt1_def)
  have Bs: "x \<noteq> dir_block s k \<Longrightarrow> B s' x = B s x" for x using a(3) st(1) by (simp add: dir_block_def s1_def)
  have nt: "j \<noteq> m \<Longrightarrow> name_table s' ! j = name_table s ! j" for j by (simp add: tabs(1) nt1_def)
  have md: "st_mode (i_stat (inode_table s' ! i)) = mode" "st_nlink (i_stat (inode_table s' ! i)) = 1"
    by (simp_all add: tabs(3) nd_def new_stat_def)
  have db: "disk_blocks s' = disk_blocks s" "dir_block s' k = dir_block s k"
    using nat_less_iff [of k "length (inode_table s)"] D(2,3) C(15) by (simp_all add: a(4) s1_def dir_block_def)
  have ln: "length (name_table s') = length (name_table s)"
      "st_size (i_stat (inode_table s' ! nat k)) = st_size (i_stat (inode_table s ! nat k)) + int (length (dir_entry n (int i))) + 1"
      "st_nlink (i_stat (inode_table s' ! nat k)) = st_nlink (i_stat (inode_table s ! nat k)) + 1"
    using D(2,3) C(15) by (simp_all add: tabs(1) nt1_def a(4) s1_def ent_def)
  show ?thesis
    unfolding path_def [symmetric] dp_def [symmetric]
    using ev lk'(1) ino(1) fo op md a(2) rd Bs tabs(4,5) nt db ln by blast
qed


section \<open>Removing a file\<close>

text \<open>
  The situation in which the entry \<open>n\<close> of the directory with the path \<open>d\<close> can be removed: mapping \<open>m\<close>
  leads to inode \<open>i\<close>, \<open>pm\<close> to the directory \<open>k\<close>, whose names are different and not written
  like inode numbers, and the directory gives no block back. \<open>sfs_unlink\<close> removes the file when it
  has one link.
\<close>

definition can_remove :: "sfs \<Rightarrow> string \<Rightarrow> string \<Rightarrow> nat \<Rightarrow> nat \<Rightarrow> nat \<Rightarrow> int \<Rightarrow> (string \<times> int) list \<Rightarrow>
    (string \<times> int) list \<Rightarrow> bool" where
  "can_remove s d n i m pm k es fs \<longleftrightarrow>
     name_ok n \<and> length (d @ SLASH # n) < 128 \<and> length (dir_entry n (int i)) < 128 \<and>
     path_lookup (d @ SLASH # n) s = int m \<and> (\<forall>j < length (name_table s). j \<noteq> m \<longrightarrow> p_path (name_table s ! j) \<noteq> d @ SLASH # n) \<and>
     p_ino (name_table s ! m) = int i \<and> i < length (inode_table s) \<and>
     path_lookup (if d = [] then ''/'' else d) s = int pm \<and> p_ino (name_table s ! pm) = k \<and> nat k \<noteq> i \<and> pm \<noteq> m \<and>
     dir_at s k (es @ (n, int i) # fs) \<and> es \<noteq> [] \<and> distinct (map fst (es @ (n, int i) # fs)) \<and>
     (\<forall>(x, j) \<in> set (es @ (n, int i) # fs). n \<noteq> print_int j) \<and>
     (let t = st_size (i_stat (inode_table s ! nat k)); r = 512 - int (length (dir_text (es @ fs)))
      in to_int t = t \<and> c_div t 512 \<le> c_div (t - r) 512 \<and> dir_blocks (t - r) \<noteq> 0)"

definition can_unlink :: "sfs \<Rightarrow> string \<Rightarrow> string \<Rightarrow> nat \<Rightarrow> nat \<Rightarrow> nat \<Rightarrow> int \<Rightarrow> (string \<times> int) list \<Rightarrow>
    (string \<times> int) list \<Rightarrow> bool" where
  "can_unlink s d n i m pm k es fs \<longleftrightarrow>
     can_remove s d n i m pm k es fs \<and> length (i_blocks (inode_table s ! i)) = 12 \<and> st_nlink (i_stat (inode_table s ! i)) = 1"

lemma load_dir_law:
  assumes c: "can_remove s d n i m pm k es fs"
  shows "load_dir (int m) (d @ SLASH # n) s = Some (dir_entry n (int i), st_size (i_stat (inode_table s ! nat k)),
    dir_text (es @ (n, int i) # fs), s\<lparr>cwd_inode := k\<rparr>)"
proof -
  have C: "name_ok n" "length (d @ SLASH # n) < 128" "length (dir_entry n (int i)) < 128" "path_lookup (d @ SLASH # n) s = int m"
      "p_ino (name_table s ! m) = int i" "path_lookup (if d = [] then ''/'' else d) s = int pm" "p_ino (name_table s ! pm) = k"
      "dir_at s k (es @ (n, int i) # fs)" "to_int (st_size (i_stat (inode_table s ! nat k))) = st_size (i_stat (inode_table s ! nat k))"
    using c by (simp_all add: can_remove_def Let_def)
  note D = dir_atD [OF C(8)]
  have sp: "get_cwd_path (d @ SLASH # n) = Some (0, if d = [] then ''/'' else d)" "get_name (d @ SLASH # n) = Some n"
    using path_splits_law [of n d] C(1,2) by (auto simp: name_ok_def)
  have m: "m < length (name_table s)" "pm < length (name_table s)" using C(4,6) by (simp_all add: path_lookup_def scan_eq_int)
  have ec: "enter_cwd (d @ SLASH # n) s = Some (s\<lparr>cwd_inode := k\<rparr>)"
    using sp(1) C(6,7) m(2) by (simp add: enter_cwd_def)
  have "dir_at (s\<lparr>cwd_inode := k\<rparr>) k (es @ (n, int i) # fs)"
    by (rule dir_at_frame [OF C(8)]) (use D(1) in \<open>simp_all add: fs_base_def\<close>)
  from get_block_index_0 [OF this] have gb: "get_block_index k 0 (s\<lparr>cwd_inode := k\<rparr>) = Some (dir_block s k)"
    by (simp add: dir_block_def)
  obtain rest where r: "B s (dir_block s k) = dir_text (es @ (n, int i) # fs) @ NUL # rest"
    using D(8) by (auto simp: dir_block_def)
  have "fs_base (s\<lparr>cwd_inode := k\<rparr>)" using D(1) by (simp add: fs_base_def)
  then have rb: "rd_blk (dir_block s k) (zeros 512) (s\<lparr>cwd_inode := k\<rparr>) = dir_text (es @ (n, int i) # fs) @ NUL # rest"
    using rd_blk_law [of "s\<lparr>cwd_inode := k\<rparr>" "zeros 512"] r by simp
  have "cstr (dir_text (es @ (n, int i) # fs) @ NUL # rest) = Some (dir_text (es @ (n, int i) # fs))"
    using takeWhile_text [OF no_null_text [OF D(10)]] by (simp add: cstr_def)
  then show ?thesis
    using sp(2) m(1) C(3,5,9) ec gb rb D(2,3,7) by (simp add: load_dir_def arr_get_in Let_def)
qed

lemma store_dir_law:
  assumes c: "can_remove s d n i m pm k es fs"
  defines "nd \<equiv> inode_table s ! nat k" and "r \<equiv> 512 - int (length (dir_text (es @ fs)))"
  shows "\<exists>dd. let s' = s\<lparr>cwd_inode := k, sdisk := dd, inode_table := (inode_table s)[nat k := nd\<lparr>i_stat := (i_stat nd)
          \<lparr>st_size := st_size (i_stat nd) - r, st_nlink := st_nlink (i_stat nd) - 1\<rparr>\<rparr>]\<rparr>
    in store_dir (dir_entry n (int i)) (st_size (i_stat nd)) (dir_text (es @ (n, int i) # fs)) (s\<lparr>cwd_inode := k\<rparr>) = Some s' \<and>
       dir_at s' k (es @ fs) \<and> (\<forall>x. x \<noteq> dir_block s k \<longrightarrow> B s' x = B s x)"
proof -
  let ?t = "dir_text (es @ fs)" and ?k = "s\<lparr>cwd_inode := k\<rparr>"
  have d: "dir_at s k (es @ (n, int i) # fs)" using c by (simp add: can_remove_def)
  note D = dir_atD [OF d]
  have rm: "removeSubstring (dir_text (es @ (n, int i) # fs)) (dir_entry n (int i)) = Some ?t"
    by (rule remove_entry_law) (use c D(10) in \<open>auto simp: can_remove_def\<close>)
  have lt: "length ?t < 512"
  proof -
    obtain rest where "B s (dir_block s k) = dir_text (es @ (n, int i) # fs) @ NUL # rest" using D(8) by (auto simp: dir_block_def)
    then have "length (dir_text (es @ (n, int i) # fs)) < 512"
      using length_blk [of "sdisk s" "dir_block s k"] by simp
    moreover have "length ?t \<le> length (dir_text (es @ (n, int i) # fs))" by (simp add: dir_text_def)
    ultimately show ?thesis by linarith
  qed
  have base: "fs_base ?k" using D(1) by (simp add: fs_base_def)
  have dk: "dir_at ?k k (es @ (n, int i) # fs)" by (rule dir_at_frame [OF d base]) simp_all
  have gb: "get_block_index k 0 ?k = Some (dir_block s k)" using get_block_index_0 [OF dk] by (simp add: dir_block_def)
  let ?buf = "?t @ zeros (512 - length ?t)"
  have b0: "0 \<le> dir_block s k" "length ?buf = 512" using D(5) lt by (simp_all add: dir_block_def)
  from wr_blk_law [OF base b0] obtain dd where
    w: "wr_blk (dir_block s k) ?buf ?k = ?k\<lparr>sdisk := dd\<rparr>" "disk_ok dd" "blk dd = (B s)(dir_block s k := ?buf)" by auto
  let ?nd = "nd\<lparr>i_stat := (i_stat nd)\<lparr>st_size := st_size (i_stat nd) - r, st_nlink := st_nlink (i_stat nd) - 1\<rparr>\<rparr>"
  let ?s' = "?k\<lparr>sdisk := dd, inode_table := (inode_table s)[nat k := ?nd]\<rparr>"
  have nc: "\<not> c_div (st_size (i_stat nd)) 512 > c_div (st_size (i_stat nd) - r) 512" "dir_blocks (st_size (i_stat nd) - r) \<noteq> 0"
    using c by (simp_all add: can_remove_def Let_def nd_def r_def)
  have ev: "store_dir (dir_entry n (int i)) (st_size (i_stat nd)) (dir_text (es @ (n, int i) # fs)) ?k = Some ?s'"
    using rm gb w(1) nc(1) D(2,3)
    by (simp add: store_dir_def Let_def r_def nd_def upd_stat_def upd_inode_def arr_get_in arr_set_in)
  have kl: "nat k < length (inode_table s)" using D(2,3) by simp
  obtain z where "zeros (512 - length ?t) = NUL # z" using lt by (cases "512 - length ?t") auto
  then have "B ?s' (dir_block s k) = ?t @ NUL # z" using w(3) by simp
  moreover have "inode_table ?s' ! nat k = ?nd" using kl by simp
  moreover have "fs_base ?s'" using D(1) w(2) by (simp add: fs_base_def)
  moreover have "es @ fs \<noteq> []" using c by (simp add: can_remove_def)
  ultimately have "dir_at ?s' k (es @ fs)"
    using D(2-6,10) nc(2) unfolding dir_at_def Let_def by (auto simp: nd_def dir_block_def)
  then show ?thesis using ev w(3) by (intro exI [of _ dd]) (simp add: Let_def)
qed

lemma unlink_law:
  assumes c: "can_unlink s d n i m pm k es fs"
  shows "\<exists>s'. sfs_unlink (d @ SLASH # n) s = Some (0, s') \<and> path_lookup (d @ SLASH # n) s' = -1 \<and>
    i_avail (inode_table s' ! i) = 0 \<and> i_stat (inode_table s' ! i) = zero_stat \<and>
    dir_at s' k (es @ fs) \<and> sfs_readdir (if d = [] then ''/'' else d) s' = Some (0, map fst (es @ fs)) \<and>
    st_size (i_stat (inode_table s' ! nat k)) = st_size (i_stat (inode_table s ! nat k)) - (512 - int (length (dir_text (es @ fs)))) \<and>
    (\<forall>x. x \<noteq> dir_block s k \<longrightarrow> B s' x = B s x) \<and>
    (\<forall>j. j \<noteq> i \<longrightarrow> j \<noteq> nat k \<longrightarrow> inode_table s' ! j = inode_table s ! j) \<and>
    (\<forall>j. j \<noteq> m \<longrightarrow> name_table s' ! j = name_table s ! j) \<and>
    (let bs = set (file_blocks s (int i) @ file_tables s (int i))
     in file_ok s (int i) \<longrightarrow> dir_block s k \<notin> bs \<longrightarrow> (\<forall>x \<in> bs. 0 < x) \<longrightarrow> (\<forall>x. allocd s' x \<longleftrightarrow> allocd s x \<and> x \<notin> bs))"
proof -
  have cr: "can_remove s d n i m pm k es fs" using c by (simp add: can_unlink_def)
  define path where "path = d @ SLASH # n"
  define dp where "dp = (if d = [] then ''/'' else d)"
  have C: "path_lookup path s = int m" "\<And>j. j < length (name_table s) \<Longrightarrow> j \<noteq> m \<Longrightarrow> p_path (name_table s ! j) \<noteq> path"
      "p_ino (name_table s ! m) = int i" "i < length (inode_table s)" "length (i_blocks (inode_table s ! i)) = 12"
      "st_nlink (i_stat (inode_table s ! i)) = 1" "path_lookup dp s = int pm" "p_ino (name_table s ! pm) = k"
      "nat k \<noteq> i" "pm \<noteq> m" "path \<noteq> []" "dp \<noteq> []"
    using c by (simp_all add: can_unlink_def can_remove_def Let_def path_def dp_def)
  have m: "m < length (name_table s)" "pm < length (name_table s)" using C(1,7) by (simp_all add: path_lookup_def scan_eq_int)
  have "dir_at s k (es @ (n, int i) # fs)" using c by (simp add: can_unlink_def can_remove_def)
  then have dk: "nat k < length (inode_table s)" using dir_atD(2,3) [of s k] by fastforce
  obtain s1 where s1: "store_dir (dir_entry n (int i)) (st_size (i_stat (inode_table s ! nat k)))
        (dir_text (es @ (n, int i) # fs)) (s\<lparr>cwd_inode := k\<rparr>) = Some s1" "dir_at s1 k (es @ fs)"
      "\<And>x. x \<noteq> dir_block s k \<Longrightarrow> B s1 x = B s x" "name_table s1 = name_table s" "inode_table s1 ! i = inode_table s ! i"
      "\<And>j. j \<noteq> nat k \<Longrightarrow> inode_table s1 ! j = inode_table s ! j" "length (inode_table s1) = length (inode_table s)"
      "disk_blocks s1 = disk_blocks s" "st_size (i_stat (inode_table s1 ! nat k)) = st_size (i_stat (inode_table s ! nat k)) - (512 - int (length (dir_text (es @ fs))))"
    using store_dir_law [OF cr] C(9) dk by (auto simp: Let_def)
  have b1: "fs_base s1" by (rule dir_atD(1) [OF s1(2)])
  obtain db st nd where f: "free_inode (int i) s1 = Some (s1\<lparr>inode_table := (inode_table s1)[i := nd], disk_blocks := db, stray := st\<rparr>)"
      "i_avail nd = 0" "i_stat nd = zero_stat" "length db = length (disk_blocks s1)"
    using free_inode_law [OF b1, of i] C(4-6) s1(5,7) by auto
  define nt where "nt = (name_table s)[m := \<lparr>p_avail = 0, p_ino = -1, p_path = []\<rparr>]"
  define s' where "s' = s1\<lparr>inode_table := (inode_table s1)[i := nd], disk_blocks := db, stray := st, name_table := nt\<rparr>"
  have ev: "sfs_unlink path s = Some (0, s')"
    using C(1,3) load_dir_law [OF cr] s1(1,4) f(1) m(1)
    by (simp add: sfs_unlink_def path_def [symmetric] drop_path_def free_mapping_def Let_def s'_def nt_def)
  have nn: "p_path (nt ! j) \<noteq> path" if "j < length nt" for j
    using that C(2) [of j] C(11) by (cases "j = m") (auto simp: nt_def)
  have "\<forall>x \<in> set nt. p_path x \<noteq> path" using nn by (metis in_set_conv_nth)
  then have gone: "path_lookup path s' = -1"
    by (simp add: path_lookup_def s'_def scan_none)
  have lk: "path_lookup dp s' = int pm"
    using C(7,10,12) scan_update [of "\<lambda>x. p_path x = dp" "name_table s" pm m "\<lparr>p_avail = 0, p_ino = -1, p_path = []\<rparr>"]
    by (simp add: path_lookup_def s'_def nt_def)
  have da: "dir_at s' k (es @ fs)"
    by (rule dir_at_frame [OF s1(2)]) (use dir_atD(1) [OF s1(2)] f(4) C(9) in \<open>simp_all add: s'_def fs_base_def\<close>)
  have rd: "sfs_readdir dp s' = Some (0, map fst (es @ fs))"
    by (rule readdir_law [OF lk _ _ da]) (use m(2) C(8,10) in \<open>simp_all add: s'_def nt_def\<close>)
  have it: "inode_table s' ! i = nd" using C(4) s1(7) by (simp add: s'_def)
  have io: "inode_table s' ! j = inode_table s ! j" if "j \<noteq> i" "j \<noteq> nat k" for j using that s1(6) by (simp add: s'_def)
  have no: "name_table s' ! j = name_table s ! j" if "j \<noteq> m" for j using that by (simp add: s'_def nt_def)
  have Bs: "B s' x = B s x" if "x \<noteq> dir_block s k" for x using s1(3) [OF that] by (simp add: s'_def)
  have al: "allocd s' x \<longleftrightarrow> allocd s x \<and> x \<notin> set (file_blocks s (int i) @ file_tables s (int i))"
    if fo: "file_ok s (int i)" "dir_block s k \<notin> set (file_blocks s (int i) @ file_tables s (int i))"
      "\<forall>x \<in> set (file_blocks s (int i) @ file_tables s (int i)). 0 < x" for x
  proof -
    have keep: "B s1 x = B s x" if "x \<in> set (file_blocks s (int i) @ file_tables s (int i))" for x using s1(3) fo(2) that by metis
    have F: "file_ok s1 (int i)" "file_blocks s1 (int i) = file_blocks s (int i)" "file_tables s1 (int i) = file_tables s (int i)"
      using file_ok_frame [OF fo(1) b1 s1(7,8) _ keep] s1(5) by simp_all
    from free_inode_exact_law [OF F(1)] F(2,3) C(6) s1(5) fo(3) f(1) s1(8) show ?thesis
      by (auto simp: allocd_def s'_def)
  qed
  have sz: "st_size (i_stat (inode_table s' ! nat k)) = st_size (i_stat (inode_table s ! nat k)) - (512 - int (length (dir_text (es @ fs))))"
    using s1(9) C(9) by (simp add: s'_def)
  show ?thesis
    unfolding path_def [symmetric] dp_def [symmetric] Let_def
    using ev gone it f(2,3) da rd sz Bs io no al by blast
qed


end
