(* ===== verification/Sfs_Examples.thy ===== *)
theory Sfs_Examples
  imports Sfs_Dirs
begin

text \<open>
  A small file system as \<open>sfs_init\<close> and \<open>sfs_create\<close> leave it: the root directory in inode 0 and
  block 0, and after it the inodes and names that are given. The laws of the directory operations
  are applied to it.
\<close>

definition demo_tree :: "string \<Rightarrow> inode list \<Rightarrow> path_map list \<Rightarrow> sfs" where
  "demo_tree tx nds nts = \<lparr>sdisk = \<lparr>diskfile = 3, fd_open = True, dfile = tx @ zeros (512 - length tx)\<rparr>,
     inode_table = \<lparr>i_avail = 1, i_stat = zero_stat\<lparr>st_mode := 0x41FF, st_nlink := 2, st_size := int (length tx) + 1,
         st_blocks := 1\<rparr>, i_blocks = 0 # replicate 11 (-1)\<rparr> # nds @ replicate 100 \<lparr>i_avail = 0, i_stat = zero_stat, i_blocks = replicate 12 0\<rparr>,
     name_table = \<lparr>p_avail = 1, p_ino = 0, p_path = ''/''\<rparr> # nts @ replicate 100 \<lparr>p_avail = 0, p_ino = 0, p_path = []\<rparr>,
     open_files = replicate 128 \<lparr>refcnt = 0, f_ino = -1, f_pos = 0\<rparr>,
     disk_blocks = 1 # replicate 32767 0, root_inode = 0, root_block = 0, system_block = 0, cwd_inode = 0,
     key_val = 0, stray = [], junk = zeros 512\<rparr>"

abbreviation (input) demo_file :: inode where
  "demo_file \<equiv> \<lparr>i_avail = 1, i_stat = zero_stat\<lparr>st_nlink := 1\<rparr>, i_blocks = replicate 12 (-1)\<rparr>"

lemmas demo_text = dir_text_def dir_entry_def name_ok_def print_int_def print_nat.simps char_of_def bit_Suc_0_iff

lemma demo_tree_base: "length tx \<le> 512 \<Longrightarrow> fs_base (demo_tree tx nds nts)"
  by (simp add: fs_base_def demo_tree_def disk_ok_def)

lemma demo_tree_blk: "length tx \<le> 512 \<Longrightarrow> B (demo_tree tx nds nts) 0 = tx @ zeros (512 - length tx)"
  by (simp add: blk_def demo_tree_def)

lemma demo_tree_dir:
  assumes "tx = dir_text es" "length tx < 512" "es \<noteq> []" "\<forall>(n, i) \<in> set es. name_ok n \<and> NUL \<notin> set n \<and> 0 \<le> i"
  shows "dir_at (demo_tree tx nds nts) 0 es"
proof -
  have "512 - length tx = Suc (511 - length tx)" using assms(2) by simp
  then have "zeros (512 - length tx) = NUL # zeros (511 - length tx)" by (simp only: replicate_Suc)
  then have "\<exists>rest. B (demo_tree tx nds nts) 0 = dir_text es @ NUL # rest"
    using demo_tree_blk assms(1,2) by auto
  moreover have "dir_blocks (int (length tx) + 1) \<noteq> 0"
    using assms(2) by (cases "length tx = 511") (simp_all add: dir_blocks_def c_num)
  ultimately show ?thesis
    using assms demo_tree_base [of tx nds nts] by (simp add: dir_at_def Let_def) (simp add: demo_tree_def)
qed

abbreviation (input) demo_root :: sfs where "demo_root \<equiv> demo_tree ''./0/../0'' [] []"

lemma demo_root_dir: "dir_at demo_root 0 [(''.'', 0), (''..'', 0)]"
  by (rule demo_tree_dir) (simp_all add: demo_text)

lemma demo_root_lookup: "path_lookup ''/'' (demo_tree tx nds nts) = 0"
  by (simp add: path_lookup_def scan_def demo_tree_def)

lemma demo_tree_names: "0 < length (name_table (demo_tree tx nds nts))" "p_ino (name_table (demo_tree tx nds nts) ! 0) = 0"
  by (simp_all add: demo_tree_def)

theorem readdir_lists_witness: "sfs_readdir ''/'' demo_root = Some (0, [''.'', ''..''])"
  using readdir_lists [of "''/''" demo_root 0 0, OF _ _ _ demo_root_dir] demo_root_lookup demo_tree_names by simp

lemma demo_can_create: "can_create demo_root [] ''a'' 1 0 1 0 0 [(''.'', 0), (''..'', 0)]"
proof -
  let ?s = demo_root
  have "scan (\<lambda>x. i_avail x = 0) (inode_table ?s) = int 1" "scan (\<lambda>x. p_avail x = 0) (name_table ?s) = int 1" "get_fh ?s = int 0"
    unfolding scan_eq_int get_fh_def by (simp_all add: demo_tree_def)
  moreover have "path_lookup ''/a'' ?s = -1" by (simp add: path_lookup_def scan_none demo_tree_def)
  moreover have "length (open_files ?s) = 128" "p_ino (name_table ?s ! 0) = 0" "st_size (i_stat (inode_table ?s ! 0)) = 9"
    by (simp_all add: demo_tree_def)
  ultimately show ?thesis
    using demo_root_dir demo_root_lookup [of "''./0/../0''" "[]" "[]"]
    by (simp add: can_create_def can_enter_def Let_def demo_text) (simp add: dir_blocks_def c_num)
qed


abbreviation (input) demo_one :: sfs where
  "demo_one \<equiv> demo_tree ''./0/../0/a/1'' [demo_file] [\<lparr>p_avail = 1, p_ino = 1, p_path = ''/a''\<rparr>]"

lemma demo_one_dir: "dir_at (demo_tree ''./0/../0/a/1'' nds nts) 0 ([(''.'', 0), (''..'', 0)] @ (''a'', int 1) # [])"
  by (rule demo_tree_dir) (simp_all add: demo_text)

lemma demo_can_remove:
  "can_remove (demo_tree ''./0/../0/a/1'' [nd] [\<lparr>p_avail = 1, p_ino = 1, p_path = ''/a''\<rparr>]) [] ''a'' 1 1 0 0 [(''.'', 0), (''..'', 0)] []"
proof -
  let ?s = "demo_tree ''./0/../0/a/1'' [nd] [\<lparr>p_avail = 1, p_ino = 1, p_path = ''/a''\<rparr>]"
  have "path_lookup ''/a'' ?s = int 1" unfolding path_lookup_def scan_eq_int by (simp add: demo_tree_def)
  moreover have "\<forall>j < length (name_table ?s). j \<noteq> 1 \<longrightarrow> p_path (name_table ?s ! j) \<noteq> ''/a''"
    by (auto simp: demo_tree_def nth_Cons nth_append split: nat.splits)
  moreover have "p_ino (name_table ?s ! 1) = int 1" "1 < length (inode_table ?s)" "st_size (i_stat (inode_table ?s ! 0)) = 13"
    by (simp_all add: demo_tree_def)
  moreover have "dir_blocks (13 - (512 - 8)) \<noteq> 0" "c_div 13 512 \<le> c_div (13 - (512 - 8)) 512" "to_int 13 = 13"
    by (simp_all add: dir_blocks_def c_mod_def c_div_def to_int_id)
  ultimately show ?thesis
    using demo_one_dir demo_root_lookup [of "''./0/../0/a/1''" "[nd]"] demo_tree_names
    by (simp add: can_remove_def Let_def demo_text)
qed

lemma demo_can_unlink: "can_unlink demo_one [] ''a'' 1 1 0 0 [(''.'', 0), (''..'', 0)] []"
  using demo_can_remove [of demo_file] by (simp add: can_unlink_def) (simp add: demo_tree_def)


end
