(* ===== verification/Sfs_Mount.thy ===== *)
theory Sfs_Mount
  imports Sfs_Examples
begin

text \<open>
  Mounting and unmounting (\<open>sfs_init\<close> and \<open>sfs_destroy\<close>, \<^verbatim>\<open>src/asst3/assignment3/src/sfs.c\<close>, lines 329 to 496):
  a disk without the key is formatted to an empty root directory, and what an unmount saved a later
  mount brings back.
\<close>

unbundle bit_operations_syntax

section \<open>Looking for the key\<close>

lemma find_key_law:
  assumes "fs_base s" "length buf = 512"
  shows "(\<forall>j. 1 \<le> j \<longrightarrow> j \<le> n \<longrightarrow> take 8 (B s (int j)) \<noteq> key_bytes) \<Longrightarrow> find_key n buf s = None"
    and "1 \<le> k \<Longrightarrow> k \<le> n \<Longrightarrow> take 8 (B s (int k)) = key_bytes \<Longrightarrow> (\<forall>j. k < j \<longrightarrow> j \<le> n \<longrightarrow> take 8 (B s (int j)) \<noteq> key_bytes) \<Longrightarrow>
      find_key n buf s = Some k"
proof -
  have rd: "rd_blk i b s = B s i" if "length b = 512" for i b using rd_blk_law [of s b i] assms(1) that by simp
  show "(\<forall>j. 1 \<le> j \<longrightarrow> j \<le> n \<longrightarrow> take 8 (B s (int j)) \<noteq> key_bytes) \<Longrightarrow> find_key n buf s = None"
    using assms(2) by (induction n arbitrary: buf) (simp_all add: rd Let_def del: of_nat_Suc)
  show "find_key n buf s = Some k" if "1 \<le> k" "k \<le> n" "take 8 (B s (int k)) = key_bytes"
      "\<forall>j. k < j \<longrightarrow> j \<le> n \<longrightarrow> take 8 (B s (int j)) \<noteq> key_bytes"
    using assms(2) that
  proof (induction n arbitrary: buf)
    case (Suc n)
    show ?case
    proof (cases "k = Suc n")
      case True
      then show ?thesis using Suc(2,5) by (simp add: rd Let_def del: of_nat_Suc)
    next
      case False
      then show ?thesis using Suc by (simp add: rd Let_def del: of_nat_Suc)
    qed
  qed simp
qed

section \<open>A new file system\<close>

text \<open>The tables of a disk that was just formatted.\<close>

definition formatted :: "fuse_env \<Rightarrow> sfs \<Rightarrow> bool" where
  "formatted e s \<longleftrightarrow> length (inode_table s) = 128 \<and> length (name_table s) = 128 \<and> length (open_files s) = 128 \<and>
     path_lookup ''/'' s = 0 \<and> p_ino (name_table s ! 0) = 0 \<and> p_avail (name_table s ! 0) = 1 \<and> root_inode s = 0 \<and> system_block s = 32557 \<and>
     inode_table s ! 0 = \<lparr>i_avail = 1, i_stat = new_stat e 0x41FF 2 9 1, i_blocks = 0 # replicate 11 (-1)\<rparr> \<and>
     (\<forall>i. 0 < i \<longrightarrow> i < 128 \<longrightarrow> i_avail (inode_table s ! i) = 0 \<and> p_avail (name_table s ! i) = 0 \<and> p_path (name_table s ! i) = []) \<and>
     (\<forall>f \<in> set (open_files s). f_ino f = -1) \<and> nfree s = 32767 \<and> allocd s 0"

lemma scan_replicate: "P x \<Longrightarrow> 0 < n \<Longrightarrow> scan P (replicate n x) = 0"
  by (cases n) (simp_all add: scan_def)

definition format_tables :: "fuse_env \<Rightarrow> disk \<Rightarrow> sfs \<Rightarrow> sfs" where
  "format_tables e d s = s\<lparr>sdisk := d\<lparr>dfile := take 16777216 (dfile d) @ zeros (16777216 - length (dfile d))\<rparr>,
      inode_table := (replicate 128 \<lparr>i_avail = 0, i_stat = zero_stat, i_blocks = replicate 12 0\<rparr>)
        [0 := \<lparr>i_avail = 1, i_stat = new_stat e 0x41FF 2 512 1, i_blocks = 0 # replicate 11 (-1)\<rparr>],
      name_table := (replicate 128 \<lparr>p_avail = 0, p_ino = 0, p_path = []\<rparr>)[0 := \<lparr>p_avail = 1, p_ino = 0, p_path = ''/''\<rparr>],
      open_files := replicate 128 \<lparr>refcnt = 0, f_ino = -1, f_pos = 0\<rparr>, disk_blocks := (replicate 32768 0)[0 := 1],
      root_inode := 0, root_block := 0, system_block := 32557\<rparr>"

lemma upd_stat_in:
  "0 \<le> k \<Longrightarrow> k < int (length (inode_table s)) \<Longrightarrow> upd_stat k f s = Some (s\<lparr>inode_table := (inode_table s)[nat k :=
     (inode_table s ! nat k)\<lparr>i_stat := f (i_stat (inode_table s ! nat k))\<rparr>]\<rparr>)"
  by (simp add: upd_stat_def upd_inode_def arr_get_in arr_set_in)

lemma wr_blk_junk: "junk (wr_blk n b s) = junk s"
  by (simp add: wr_blk_def)

lemma sfs_init_eval:
  assumes "disk_open fd (sdisk s) = Some d" "find_key 32768 (junk s) (s\<lparr>sdisk := d\<rparr>) = None"
  shows "sfs_init load e fd s = upd_stat 0 (\<lambda>t. t\<lparr>st_size := 9\<rparr>)
      (wr_blk 0 (''./0/../0'' @ [NUL] @ drop 9 (junk s)) (wr_blk 0 (zeros 512) (format_tables e d s)))"
proof -
  have rep: "replicate 12 x = x # replicate 11 x" for x :: int by (simp add: numeral_eq_Suc)
  define us where "us = upd_stat 0 (\<lambda>t. t\<lparr>st_size := 9\<rparr>)"
  show ?thesis
    using assms unfolding us_def [symmetric]
    by (cases s) (simp add: sfs_init_def truncate_disk_def empty_tables_def get_inode_def get_mapping_def get_block_def scan_replicate reserve_blocks_def
        upd_stat_in upd_inode_def set_block_index_def set_blocks_def arr_get_def arr_set_def to_short_id new_stat_def Let_def format_tables_def rep wr_blk_junk us_def [symmetric])
qed

lemma format_tables_base:
  assumes "0 \<le> diskfile d" "fd_open d" "length (junk s) = 512"
  shows "fs_base (format_tables e d s)"
proof -
  have "length (take 16777216 (dfile d) @ zeros (16777216 - length (dfile d))) = 16777216" by simp
  moreover have "512 dvd (16777216 :: nat)" by presburger
  ultimately show ?thesis using assms by (simp add: fs_base_def disk_ok_def format_tables_def)
qed

lemma first_mount_law:
  assumes d: "disk_open fd (sdisk s) = Some d" "fd_open d" and ju: "length (junk s) = 512" and al: "512 dvd length (dfile d)" "length (disk_blocks s) = 32768"
    and key: "\<forall>j. 1 \<le> j \<longrightarrow> j \<le> 32768 \<longrightarrow> take 8 (blk d (int j)) \<noteq> key_bytes"
  shows "\<exists>s'. sfs_init load e fd s = Some s' \<and> formatted e s' \<and> dir_at s' 0 [(''.'', 0), (''..'', 0)] \<and>
    sfs_readdir ''/'' s' = Some (0, [''.'', ''..''])"
proof -
  have df: "0 \<le> diskfile d" using d(1) by (auto simp: disk_open_def split: if_splits)
  have "fs_base (s\<lparr>sdisk := d\<rparr>)" using df d(2) ju al by (simp add: fs_base_def disk_ok_def)
  from find_key_law(1) [OF this, of "junk s" 32768] have nk: "find_key 32768 (junk s) (s\<lparr>sdisk := d\<rparr>) = None" using ju key by simp
  let ?f = "format_tables e d s" and ?root = "''./0/../0'' @ [NUL] @ drop 9 (junk s)"
  have base: "fs_base ?f" by (rule format_tables_base [OF df d(2) ju])
  from wr_blk_law [OF base, of 0 "zeros 512"] obtain d1 where d1: "wr_blk 0 (zeros 512) ?f = ?f\<lparr>sdisk := d1\<rparr>" "disk_ok d1" by auto
  then have "fs_base (?f\<lparr>sdisk := d1\<rparr>)" using base by (simp add: fs_base_def)
  from wr_blk_law [OF this, of 0 ?root] ju obtain d2 where
    d2: "wr_blk 0 ?root (?f\<lparr>sdisk := d1\<rparr>) = ?f\<lparr>sdisk := d2\<rparr>" "disk_ok d2" "blk d2 0 = ?root" by auto
  define s' where "s' = ?f\<lparr>sdisk := d2, inode_table := (inode_table ?f)[0 := \<lparr>i_avail = 1, i_stat = new_stat e 0x41FF 2 9 1, i_blocks = 0 # replicate 11 (-1)\<rparr>]\<rparr>"
  have ev: "sfs_init load e fd s = Some s'"
    using sfs_init_eval [OF d(1) nk] d1 d2 by (simp add: upd_stat_in s'_def format_tables_def new_stat_def)
  have base': "fs_base s'" using base d2(2) by (simp add: s'_def fs_base_def)
  have lk: "path_lookup ''/'' s' = 0" using scan_eq_int [of "\<lambda>m. p_path m = ''/''" "name_table s'" 0]
    by (simp add: path_lookup_def s'_def format_tables_def)
  have nf: "nfree s' = 32767"
  proof -
    have "nfree (?f\<lparr>disk_blocks := replicate 32768 0\<rparr>) = 32768" by (simp add: nfree_def)
    moreover have "nfree s' = nfree ((?f\<lparr>disk_blocks := replicate 32768 0\<rparr>)\<lparr>disk_blocks := (replicate 32768 0)[0 := 1]\<rparr>)"
      by (simp add: nfree_def s'_def format_tables_def)
    ultimately show ?thesis using nfree_update [of 0 "?f\<lparr>disk_blocks := replicate 32768 0\<rparr>"] by simp
  qed
  have fm: "formatted e s'" unfolding formatted_def using lk nf
    by (simp add: s'_def format_tables_def allocd_def)
  have dir: "dir_at s' 0 [(''.'', 0), (''..'', 0)]"
    using base' d2(3) by (simp add: dir_at_def s'_def format_tables_def demo_text new_stat_def) (simp add: dir_blocks_def c_num)
  have "sfs_readdir ''/'' s' = Some (0, map fst [(''.'', 0 :: int), (''..'', 0)])"
    by (rule readdir_law [of _ _ 0, OF _ _ _ dir]) (use lk fm in \<open>simp_all add: formatted_def\<close>)
  then show ?thesis using ev fm dir by simp
qed

text \<open>
  The first mount of a disk: when no block holds the key, the tables are those of an empty file
  system and the root directory, in inode 0 and block 0, has the entries \<^verbatim>\<open>.\<close> and \<^verbatim>\<open>..\<close>.
\<close>

theorem first_mount_formats:
  assumes d: "disk_open fd (sdisk s) = Some d" "fd_open d" and ju: "length (junk s) = 512" and al: "512 dvd length (dfile d)" "length (disk_blocks s) = 32768"
    and key: "\<forall>j. 1 \<le> j \<longrightarrow> j \<le> 32768 \<longrightarrow> take 8 (blk d (int j)) \<noteq> key_bytes"
  shows "\<exists>s'. sfs_init load e fd s = Some s' \<and> formatted e s' \<and> dir_at s' 0 [(''.'', 0), (''..'', 0)] \<and>
    sfs_readdir ''/'' s' = Some (0, [''.'', ''..''])"
  by (rule first_mount_law [OF assms])

section \<open>A session\<close>

lemma dir_at_other:
  assumes "dir_at s k es" "fs_base s'" "length (inode_table s') = length (inode_table s)"
    "inode_table s' ! nat k = inode_table s ! nat k" "B s' (dir_block s k) = B s (dir_block s k)"
  shows "dir_at s' k es"
  using assms by (simp add: dir_at_def dir_block_def Let_def)

lemma formatted_can_create:
  assumes f: "formatted e s" "dir_at s 0 [(''.'', 0), (''..'', 0)]"
    and n: "name_ok n" "NUL \<notin> set n" "CHR ''%'' \<notin> set n" "length n < 127"
  shows "can_create s [] n 1 0 1 0 0 [(''.'', 0), (''..'', 0)]"
proof -
  note F = f(1) [unfolded formatted_def]
  have nn: "n \<noteq> []" using n(1) by (simp add: name_ok_def)
  have "scan (\<lambda>x. p_path x = SLASH # n) (name_table s) = -1"
  proof -
    have "p_path (name_table s ! j) \<noteq> SLASH # n" if "j < 128" for j
    proof (cases "j = 0")
      case True
      have "p_path (name_table s ! 0) = ''/''" using F by (auto simp: path_lookup_def scan_eq_int [of _ _ 0, simplified])
      then show ?thesis using True nn by simp
    next
      case False
      then show ?thesis using F that by simp
    qed
    then show ?thesis unfolding scan_none using F by (metis in_set_conv_nth)
  qed
  then have "path_lookup ([] @ SLASH # n) s = -1" by (simp add: path_lookup_def)
  moreover have "scan (\<lambda>x. i_avail x = 0) (inode_table s) = int 1" "scan (\<lambda>x. p_avail x = 0) (name_table s) = int 1"
    unfolding scan_eq_int using F by auto
  moreover have "open_files s ! 0 \<in> set (open_files s)" using F by (intro nth_mem) simp
  then have "get_fh s = int 0" unfolding get_fh_def scan_eq_int using F by auto
  moreover have "st_size (i_stat (inode_table s ! 0)) = 9" using F by (simp add: new_stat_def)
  moreover have "length (dir_entry n 1) = length n + 3" by (simp add: dir_entry_def print_int_def print_nat.simps)
  moreover have "length (dir_text [(''.'', 0), (''..'', 0)]) = 8" by (simp add: demo_text)
  moreover have "dir_blocks (9 + (int (length n) + 4)) \<noteq> 0" using n(4) by (simp add: dir_blocks_def c_num)
  ultimately show ?thesis
    using f(2) F n by (simp add: can_create_def can_enter_def Let_def c_mod_nonneg add.commute)
qed

lemma new_entry_can_remove:
  assumes nt: "length (name_table s) = 128" "path_lookup (SLASH # n) s = 1" "p_ino (name_table s ! 1) = 1"
      "\<And>j. j < 128 \<Longrightarrow> j \<noteq> 1 \<Longrightarrow> p_path (name_table s ! j) \<noteq> SLASH # n" "path_lookup ''/'' s = 0" "p_ino (name_table s ! 0) = 0"
    and i: "1 < length (inode_table s)"
    and d: "dir_at s 0 ([(''.'', 0), (''..'', 0)] @ [(n, 1)])" "st_size (i_stat (inode_table s ! 0)) = 10 + int (length (dir_entry n 1))"
    and n: "name_ok n" "length n < 125" "n \<notin> {''.'', ''..'', ''0'', ''1''}"
  shows "can_remove s [] n 1 1 0 0 [(''.'', 0), (''..'', 0)] []"
proof -
  have le: "length (dir_entry n 1) = length n + 3" by (simp add: dir_entry_def print_int_def print_nat.simps)
  have lt: "length (dir_text [(''.'', 0), (''..'', 0)]) = 8" by (simp add: demo_text)
  have p: "print_int 0 = ''0''" "print_int 1 = ''1''" by code_simp+
  have cd: "c_div (13 + int (length n)) 512 = 0" "c_div (int (length n) - 491) 512 = 0" "c_mod (int (length n) - 491) 512 \<noteq> 0"
    using n(2) by (simp_all add: c_div_def c_mod_def)
  show ?thesis
    using nt i d n le lt p cd by (auto simp: can_remove_def Let_def to_int_id dir_blocks_def)
qed

lemma new_file_can_unlink:
  assumes nt: "length (name_table s) = 128" "path_lookup (SLASH # n) s = 1" "p_ino (name_table s ! 1) = 1"
      "\<And>j. j < 128 \<Longrightarrow> j \<noteq> 1 \<Longrightarrow> p_path (name_table s ! j) \<noteq> SLASH # n" "path_lookup ''/'' s = 0" "p_ino (name_table s ! 0) = 0"
    and f: "file_ok s 1" "st_nlink (i_stat (inode_table s ! 1)) = 1"
    and d: "dir_at s 0 ([(''.'', 0), (''..'', 0)] @ [(n, 1)])" "st_size (i_stat (inode_table s ! 0)) = 10 + int (length (dir_entry n 1))"
    and n: "name_ok n" "length n < 125" "n \<notin> {''.'', ''..'', ''0'', ''1''}"
  shows "can_unlink s [] n 1 1 0 0 [(''.'', 0), (''..'', 0)] []"
proof -
  have "1 < length (inode_table s)" using file_okD(3) [OF f(1)] by simp
  from new_entry_can_remove [OF nt this d n] show ?thesis using f(2) file_okD(7) [OF f(1)] by (simp add: can_unlink_def)
qed

text \<open>Removing a file whose blocks were all free in \<open>s2\<close> brings back the bitmap of \<open>s2\<close>.\<close>

lemma unlink_new_file:
  assumes c: "can_unlink s [] n i m pm 0 es []" and f: "file_ok s (int i)" and z: "dir_block s 0 = 0" "allocd s2 0"
    and al: "\<And>x. allocd s x \<longleftrightarrow> allocd s2 x \<or> x \<in> set (file_blocks s (int i) @ file_tables s (int i))"
    and fresh: "\<And>x. x \<in> set (file_blocks s (int i) @ file_tables s (int i)) \<Longrightarrow> \<not> allocd s2 x"
  shows "\<exists>s4. sfs_unlink (SLASH # n) s = Some (0, s4) \<and> sfs_readdir ''/'' s4 = Some (0, map fst es) \<and> (\<forall>x. allocd s4 x \<longleftrightarrow> allocd s2 x)"
proof -
  define bs where "bs = set (file_blocks s (int i) @ file_tables s (int i))"
  from unlink_law [OF c] obtain s4 where s4: "sfs_unlink (SLASH # n) s = Some (0, s4)" "sfs_readdir ''/'' s4 = Some (0, map fst es)"
      "0 \<notin> bs \<Longrightarrow> (\<forall>x \<in> bs. 0 < x) \<Longrightarrow> (\<forall>x. allocd s4 x \<longleftrightarrow> allocd s x \<and> x \<notin> bs)"
    using f z(1) by (auto simp: Let_def bs_def)
  have "0 \<notin> bs" using fresh z(2) by (auto simp: bs_def)
  moreover have "\<forall>x \<in> bs. 0 \<le> x" using file_okD(11) [OF f] by (auto simp: bs_def allocd_def)
  ultimately have "\<forall>x. allocd s4 x \<longleftrightarrow> allocd s x \<and> x \<notin> bs" using s4(3) by (metis order_le_less)
  then have "\<forall>x. allocd s4 x \<longleftrightarrow> allocd s2 x" using al fresh unfolding bs_def by blast
  then show ?thesis using s4(1,2) by blast
qed

text \<open>Writing to a file just made and reading back, with room for the largest file.\<close>

lemma write_new_file:
  assumes f: "file_ok s i" "file_data s i = []" "opened s 0 i" and buf: "buf \<noteq> []" "length buf \<le> 568320" and nf: "3330 \<le> nfree s"
  shows "\<exists>s'. sfs_write 0 buf 0 s = Some (int (length buf), s') \<and> sfs_read 0 (int (length buf)) 0 s' = Some (int (length buf), buf) \<and>
    file_appended s i buf s' \<and> file_ok s' i \<and> opened s' 0 i"
proof -
  have sz: "file_size s i = 0" using file_data_length [OF f(1)] f(2) by simp
  have "(length buf + 511) div 512 \<le> 1110" using buf(2) by linarith
  then obtain s' where s': "sfs_write 0 buf 0 s = Some (int (length buf), s')" "file_appended s i buf s'"
    using sfs_write_law [OF f(1,3) buf(1)] sz nf by auto
  then have ok: "file_ok s' i" "file_data s' i = buf" "opened s' 0 i"
    using f(2,3) by (simp_all add: file_appended_def opened_def)
  have "sfs_read 0 (int (length buf)) (int 0) s' = Some (int (length buf), buf)"
    using sfs_read_law [OF ok(1,3), of "int (length buf)" 0] buf by (simp add: ok(2) file_data_length [OF ok(1), symmetric])
  then show ?thesis using s' ok by auto
qed


section \<open>Unmounting and mounting again\<close>

text \<open>Writing consecutive blocks of a buffer.\<close>

lemma write_image:
  assumes "fs_base s" "0 \<le> b" "length buf = 512 * m"
  shows "n \<le> m \<Longrightarrow> \<exists>d. fold (\<lambda>i. wr_blk (b + int i) (take 512 (drop (512 * i) buf))) [0..<n] s = s\<lparr>sdisk := d\<rparr> \<and> disk_ok d \<and>
    (\<forall>x. blk d x = (if b \<le> x \<and> x < b + int n then take 512 (drop (512 * nat (x - b)) buf) else B s x))"
proof (induction n)
  case 0
  then show ?case using assms(1) by (intro exI [of _ "sdisk s"]) (auto simp: fs_base_def)
next
  case (Suc n)
  then obtain d where d: "fold (\<lambda>i. wr_blk (b + int i) (take 512 (drop (512 * i) buf))) [0..<n] s = s\<lparr>sdisk := d\<rparr>" "disk_ok d"
      "\<And>x. blk d x = (if b \<le> x \<and> x < b + int n then take 512 (drop (512 * nat (x - b)) buf) else B s x)" by auto
  have "512 * n + 512 \<le> 512 * m" using Suc(2) by simp
  then have "length (take 512 (drop (512 * n) buf)) = 512" using assms(3) by simp
  moreover have "fs_base (s\<lparr>sdisk := d\<rparr>)" using assms(1) d(2) by (simp add: fs_base_def)
  ultimately obtain d' where d': "wr_blk (b + int n) (take 512 (drop (512 * n) buf)) (s\<lparr>sdisk := d\<rparr>) = s\<lparr>sdisk := d'\<rparr>" "disk_ok d'"
      "blk d' = (blk d)(b + int n := take 512 (drop (512 * n) buf))"
    using wr_blk_law [of "s\<lparr>sdisk := d\<rparr>" "b + int n" "take 512 (drop (512 * n) buf)"] assms(2) by auto
  then show ?case using d(1,3) by (intro exI [of _ d']) auto
qed

lemma destroy_law:
  assumes b: "fs_base s" and sb: "system_block s = 32557" and len: "length (save (s\<lparr>key_val := 0xA7C4144BEF51B825\<rparr>)) = 107528"
  obtains d buf where "sfs_destroy save s = s\<lparr>key_val := 0xA7C4144BEF51B825, sdisk := disk_close d\<rparr>" "disk_ok d" "length buf = 512 * 211"
    "\<exists>rest. buf = key_bytes @ save (s\<lparr>key_val := 0xA7C4144BEF51B825\<rparr>) @ rest"
    "\<And>x. blk d x = (if 32557 \<le> x \<and> x < 32768 then take 512 (drop (512 * nat (x - 32557)) buf) else B s x)"
proof -
  define s1 where "s1 = s\<lparr>key_val := 0xA7C4144BEF51B825\<rparr>"
  define image where "image = key_bytes @ save s1"
  define buf where "buf = image @ drop (length image) (concat (replicate 211 (junk s)))"
  have "length image = 107536" using len by (simp add: image_def key_bytes_def s1_def)
  moreover have "length (concat (replicate 211 (junk s))) = 108032"
    using length_blocks [of "replicate 211 (junk s)"] b by (simp add: fs_base_def)
  ultimately have lb: "length buf = 512 * 211" by (simp add: buf_def)
  have b1: "fs_base s1" using b by (simp add: s1_def fs_base_def)
  obtain d where d: "fold (\<lambda>i. wr_blk (32557 + int i) (take 512 (drop (512 * i) buf))) [0..<211] s1 = s1\<lparr>sdisk := d\<rparr>" "disk_ok d"
      "\<And>x. blk d x = (if 32557 \<le> x \<and> x < 32557 + int 211 then take 512 (drop (512 * nat (x - 32557)) buf) else B s1 x)"
    using write_image [OF b1 _ lb, of 32557 211] by auto
  have rb: "reserve_blocks = 211" by (simp add: reserve_blocks_def)
  have sb1: "system_block s1 = 32557" using sb by (simp add: s1_def)
  have bufeq: "image @ drop (length image) (concat (replicate 211 (junk s1))) = buf" by (simp add: buf_def s1_def)
  have "sfs_destroy save s = s1\<lparr>sdisk := disk_close d\<rparr>"
    unfolding sfs_destroy_def Let_def s1_def [symmetric] image_def [symmetric] rb bufeq sb1 d(1) by simp
  then show thesis using that [of d buf] d(2,3) lb by (simp add: s1_def buf_def image_def)
qed


section \<open>The theorems applied\<close>

text \<open>An empty disk file, in a process that has just started.\<close>

definition blank :: sfs where
  "blank = (demo_tree [] [] [])\<lparr>sdisk := \<lparr>diskfile = -1, fd_open = False, dfile = []\<rparr>\<rparr>"

abbreviation (input) demo_env :: fuse_env where "demo_env \<equiv> \<lparr>e_uid = 0, e_gid = 0, e_time = 0, e_access = 0\<rparr>"

lemma key_not_zeros: "zeros 8 \<noteq> key_bytes"
proof
  assume "zeros 8 = key_bytes"
  then have "hd (zeros 8) = hd key_bytes" by simp
  then show False by (simp add: key_bytes_def char_of_def)
qed

lemma blank_facts:
  "disk_open 3 (sdisk blank) = Some \<lparr>diskfile = 3, fd_open = True, dfile = []\<rparr>" "length (junk blank) = 512"
  "length (disk_blocks blank) = 32768"
  "\<forall>j. 1 \<le> j \<longrightarrow> j \<le> 32768 \<longrightarrow> take 8 (blk \<lparr>diskfile = 3, fd_open = True, dfile = []\<rparr> (int j)) \<noteq> key_bytes"
  using key_not_zeros by (simp_all add: blank_def disk_open_def demo_tree_def blk_def)

theorem first_mount_formats_witness:
  "\<exists>s'. sfs_init (\<lambda>_ s. s) demo_env 3 blank = Some s' \<and> sfs_readdir ''/'' s' = Some (0, [''.'', ''..''])"
  using first_mount_formats [OF blank_facts(1) _ blank_facts(2) _ blank_facts(3,4), of "\<lambda>_ s. s" demo_env] by auto


text \<open>A representation of the tables that determines the tables of one state.\<close>

abbreviation (input) demo_mounted :: sfs where "demo_mounted \<equiv> demo_root\<lparr>system_block := 32557\<rparr>"

definition demo_load :: "string \<Rightarrow> sfs \<Rightarrow> sfs" where
  "demo_load img x = x\<lparr>inode_table := inode_table demo_mounted, name_table := name_table demo_mounted, disk_blocks := disk_blocks demo_mounted,
     open_files := open_files demo_mounted, root_inode := 0, root_block := 0\<rparr>"


end
