(* ===== verification/Sfs_Types.thy ===== *)
theory Sfs_Types
  imports Sfs_Mount
begin

text \<open>
  The types of the file system's state. C gives the tables of \<^verbatim>\<open>params.h\<close> their sizes and each entry a machine
  type; \<open>fs_typed\<close> says what the entries mean: block numbers of the disk, inodes of the table, paths that fit
  their arrays. Every operation FUSE can call keeps it, with any arguments and in any order.
\<close>

section \<open>Well-typed states\<close>

definition inode_typed :: "inode \<Rightarrow> bool" where
  "inode_typed n \<longleftrightarrow> i_avail n \<in> {0, 1} \<and> length (i_blocks n) = 12 \<and> (\<forall>b \<in> set (i_blocks n). -1 \<le> b \<and> b < 32768)"

definition name_typed :: "path_map \<Rightarrow> bool" where
  "name_typed m \<longleftrightarrow> p_avail m \<in> {0, 1} \<and> -1 \<le> p_ino m \<and> p_ino m < 128 \<and> length (p_path m) < 128 \<and> (p_path m \<noteq> [] \<longrightarrow> 0 \<le> p_ino m)"

definition handle_typed :: "file_entry \<Rightarrow> bool" where
  "handle_typed f \<longleftrightarrow> -1 \<le> f_ino f \<and> f_ino f < 128"

definition fs_typed :: "sfs \<Rightarrow> bool" where
  "fs_typed s \<longleftrightarrow> fs_base s \<and> set (disk_blocks s) \<subseteq> {0, 1} \<and>
     length (inode_table s) = 128 \<and> (\<forall>n \<in> set (inode_table s). inode_typed n) \<and>
     length (name_table s) = 128 \<and> (\<forall>m \<in> set (name_table s). name_typed m) \<and>
     length (open_files s) = 128 \<and> (\<forall>f \<in> set (open_files s). handle_typed f) \<and> -1 \<le> cwd_inode s \<and> cwd_inode s < 128"

lemma fs_typedD:
  assumes "fs_typed s"
  shows "fs_base s" "set (disk_blocks s) \<subseteq> {0, 1}" "length (inode_table s) = 128" "length (name_table s) = 128"
    "length (open_files s) = 128" "n \<in> set (inode_table s) \<Longrightarrow> inode_typed n" "m \<in> set (name_table s) \<Longrightarrow> name_typed m"
    "f \<in> set (open_files s) \<Longrightarrow> handle_typed f" "-1 \<le> cwd_inode s" "cwd_inode s < 128" "length (junk s) = 512"
    "length (disk_blocks s) = 32768"
  using assms by (simp_all add: fs_typed_def fs_base_def)

lemma list_update_all: "\<forall>x \<in> set xs. P x \<Longrightarrow> P v \<Longrightarrow> \<forall>x \<in> set (xs[i := v]). P x"
  using set_update_subset_insert [of xs i v] by auto

section \<open>Stores to the tables\<close>

named_theorems keeps_typed \<open>what the operations do to the type of the state\<close>

lemma typed_inode [keeps_typed]:
  assumes "upd_inode k f s = Some s'" "fs_typed s" "\<And>n. inode_typed n \<Longrightarrow> inode_typed (f n)"
  shows "fs_typed s'"
proof -
  have k: "0 \<le> k" "k < int (length (inode_table s))" "s' = s\<lparr>inode_table := (inode_table s)[nat k := f (inode_table s ! nat k)]\<rparr>"
    using assms(1) by (auto simp: upd_inode_def bind_eq_Some_conv c_arr)
  have "inode_typed (f (inode_table s ! nat k))" using k(1,2) by (intro assms(3) fs_typedD(6) [OF assms(2)]) simp
  then show ?thesis using assms(2) list_update_all [of "inode_table s" inode_typed "f (inode_table s ! nat k)" "nat k"]
    by (auto simp: fs_typed_def fs_base_def k(3))
qed

lemma typed_stat [keeps_typed]: "upd_stat k f s = Some s' \<Longrightarrow> fs_typed s \<Longrightarrow> fs_typed s'"
  unfolding upd_stat_def by (erule typed_inode) (auto simp: inode_typed_def)

lemma typed_set_blocks [keeps_typed]:
  assumes "set_blocks k i v s = Some s'" "fs_typed s" "-1 \<le> v" "v < 32768"
  shows "fs_typed s'"
proof -
  obtain n bs where n: "arr_get (inode_table s) k = Some n" "arr_set (i_blocks n) i v = Some bs" "upd_inode k (\<lambda>n. n\<lparr>i_blocks := bs\<rparr>) s = Some s'"
    using assms(1) by (auto simp: set_blocks_def bind_eq_Some_conv)
  have "inode_typed n" using n(1) by (intro fs_typedD(6) [OF assms(2)]) (auto simp: c_arr)
  then have old: "length (i_blocks n) = 12" "\<forall>b \<in> set (i_blocks n). -1 \<le> b \<and> b < 32768" by (simp_all add: inode_typed_def)
  have e: "bs = (i_blocks n)[nat i := v]" using n(2) by (simp add: c_arr)
  have "\<forall>b \<in> set bs. -1 \<le> b \<and> b < 32768" unfolding e by (rule list_update_all [OF old(2)]) (use assms(3,4) in simp)
  moreover have "length bs = 12" unfolding e using old(1) by simp
  ultimately show ?thesis by (intro typed_inode [OF n(3) assms(2)]) (auto simp: inode_typed_def)
qed

lemma typed_put [keeps_typed]: "fs_typed s \<Longrightarrow> v \<in> {0, 1} \<Longrightarrow> fs_typed (put_disk_block b v s)"
  using list_update_all [of "disk_blocks s" "\<lambda>x. x \<in> {0, 1}" v "nat b"]
  by (auto simp: put_disk_block_cases fs_typed_def fs_base_def)

lemma typed_write [keeps_typed]:
  assumes "fs_typed s" "length b = 512"
  shows "fs_typed (wr_blk n b s)"
proof (cases "0 \<le> n")
  case True
  then show ?thesis using wr_blk_law [OF fs_typedD(1) [OF assms(1)] True assms(2)] assms(1) by (auto simp: fs_typed_def fs_base_def)
next
  case False
  then have "wr_blk n b s = s" by (simp add: wr_blk_def block_write_def pwrite_def)
  then show ?thesis using assms(1) by simp
qed

lemma length_rd_blk: "fs_typed s \<Longrightarrow> length b = 512 \<Longrightarrow> length (rd_blk n b s) = 512"
  using rd_blk_law [OF fs_typedD(1), of s b n] by simp

lemma typed_get_block [keeps_typed]:
  assumes "get_block s = Some (b, s')" "fs_typed s"
  shows "fs_typed s'" "0 \<le> b" "b < 32768"
proof -
  let ?i = "scan (\<lambda>b. b = 0) (disk_blocks s)"
  have i: "\<not> ?i < 0" "b = ?i" "s' = s\<lparr>disk_blocks := (disk_blocks s)[nat ?i := 1]\<rparr>"
    using assms(1) by (auto simp: get_block_def Let_def split: if_splits)
  show "0 \<le> b" using i by simp
  show "b < 32768" using i fs_typedD(12) [OF assms(2)] by (cases rule: scan_cases [of "\<lambda>b. b = 0" "disk_blocks s"]) auto
  show "fs_typed s'" using assms(2) list_update_all [of "disk_blocks s" "\<lambda>x. x \<in> {0, 1}" 1 "nat ?i"]
    by (auto simp: i(3) fs_typed_def fs_base_def)
qed

lemma scan_bounds: "-1 \<le> scan P xs" "scan P xs < int (length xs)"
  by (cases rule: scan_cases [of P xs]; auto)+

lemma typed_get_inode [keeps_typed]:
  assumes "get_inode s = (i, s')" "fs_typed s"
  shows "fs_typed s'" "-1 \<le> i" "i < 128"
proof -
  let ?i = "scan (\<lambda>n. i_avail n = 0) (inode_table s)"
  let ?n = "(inode_table s ! nat ?i)\<lparr>i_avail := 1, i_blocks := replicate 12 (-1)\<rparr>"
  note b = scan_bounds [of "\<lambda>n. i_avail n = 0" "inode_table s", unfolded fs_typedD(3) [OF assms(2)]]
  show "-1 \<le> i" "i < 128" using assms(1) b by (auto simp: get_inode_def Let_def split: if_splits)
  have "s' = s \<or> s' = s\<lparr>inode_table := (inode_table s)[nat ?i := ?n]\<rparr>"
    using assms(1) by (auto simp: get_inode_def Let_def split: if_splits)
  then show "fs_typed s'"
    using assms(2) list_update_all [of "inode_table s" inode_typed ?n "nat ?i"] by (auto simp: fs_typed_def fs_base_def inode_typed_def)
qed

lemma typed_name:
  assumes "arr_set (name_table s) i m = Some nt" "fs_typed s" "name_typed m"
  shows "fs_typed (s\<lparr>name_table := nt\<rparr>)"
  using assms list_update_all [of "name_table s" name_typed m "nat i"] by (auto simp: fs_typed_def fs_base_def c_arr)

lemma typed_handle:
  assumes "arr_set (open_files s) i f = Some fs" "fs_typed s" "handle_typed f"
  shows "fs_typed (s\<lparr>open_files := fs\<rparr>)"
  using assms list_update_all [of "open_files s" handle_typed f "nat i"] by (auto simp: fs_typed_def fs_base_def c_arr)

lemma typed_get_mapping [keeps_typed]:
  assumes "get_mapping s = (i, s')" "fs_typed s"
  shows "fs_typed s'"
proof -
  let ?i = "scan (\<lambda>m. p_avail m = 0) (name_table s)"
  let ?m = "(name_table s ! nat ?i)\<lparr>p_avail := 1\<rparr>"
  note b = scan_bounds [of "\<lambda>m. p_avail m = 0" "name_table s", unfolded fs_typedD(4) [OF assms(2)]]
  consider "s' = s" | "0 \<le> ?i" "s' = s\<lparr>name_table := (name_table s)[nat ?i := ?m]\<rparr>"
    using assms(1) by (auto simp: get_mapping_def Let_def split: if_splits)
  then show ?thesis
  proof cases
    case 2
    then have "name_typed (name_table s ! nat ?i)" using b fs_typedD(4) [OF assms(2)] by (intro fs_typedD(7) [OF assms(2)]) simp
    then have "name_typed ?m" by (simp add: name_typed_def)
    then show ?thesis using 2 b typed_name [of s ?i ?m] assms(2) fs_typedD(4) [OF assms(2)] by (simp add: arr_set_in)
  qed (use assms(2) in simp)
qed

lemma typed_free_mapping [keeps_typed]: "free_mapping m s = Some s' \<Longrightarrow> fs_typed s \<Longrightarrow> fs_typed s'"
  by (auto simp: free_mapping_def bind_eq_Some_conv name_typed_def intro!: typed_name)

lemma typed_free_fh [keeps_typed]: "free_fh fh s = Some s' \<Longrightarrow> fs_typed s \<Longrightarrow> fs_typed s'"
  by (auto simp: free_fh_def bind_eq_Some_conv handle_typed_def intro!: typed_handle)

section \<open>Blocks and block maps\<close>

lemma typed_free_all: "fs_typed s \<Longrightarrow> fs_typed (free_all bs s)"
  by (induction bs arbitrary: s) (auto intro: typed_put)

lemma typed_free_listed: "fs_typed s \<Longrightarrow> fs_typed (free_listed bs s)"
  unfolding free_listed_all by (rule typed_free_all)

lemma typed_free_sub_listed: "fs_typed s \<Longrightarrow> fs_typed (free_sub_listed bs s)"
  using fs_typedD(1) by (simp add: free_sub_listed_all typed_free_all)

text \<open>A state bound by a \<open>let\<close> is known by its type only.\<close>

lemma post_let_typed: "fs_typed e \<Longrightarrow> (\<And>x. fs_typed x \<Longrightarrow> post (f x) Q) \<Longrightarrow> post (let x = e in f x) Q"
  by (simp add: Let_def)

lemma typed_free_inode [keeps_typed]:
  assumes "free_inode k s = Some s'" "fs_typed s"
  shows "fs_typed s'"
proof -
  have last: "fs_typed s'" if "upd_inode k (\<lambda>n. n\<lparr>i_blocks := replicate 10 (-1) @ drop 10 (i_blocks n), i_avail := 0\<rparr>) s = Some s'" "fs_typed s" for s s'
    by (rule typed_inode [OF that]) (auto simp: inode_typed_def dest: in_set_dropD)
  have "post (free_inode k s) fs_typed"
    unfolding free_inode_def using assms(2)
    by (intro post_bind post_if post_let_typed post_Some)
      (auto simp: post_def intro: last dest: typed_stat typed_stat [OF _ typed_stat] intro!: typed_put typed_free_listed typed_free_sub_listed typed_free_all)
  then show ?thesis using assms(1) by (rule postD)
qed

text \<open>A buffer of one block and the state it was read from or written to.\<close>

abbreviation block_typed :: "int \<times> string \<times> sfs \<Rightarrow> bool" where
  "block_typed x \<equiv> (case x of (b, buf, s) \<Rightarrow> fs_typed s \<and> length buf = 512)"

lemma typed_table:
  assumes "fs_typed s"
  shows "post (if c < 0 then do {
            (b, s) \<leftarrow> get_block s;
            s \<leftarrow> set_blocks k i b s;
            Some (b, clear_shorts 100 (rd_blk b (junk s) s), s) }
          else Some (c, rd_blk c (junk s) s, s)) block_typed"
    and "post (if c < 0 then do {
            (b, s) \<leftarrow> get_block s;
            s \<leftarrow> set_blocks k i b s;
            let buf = clear_shorts 10 (junk s);
            Some (b, buf, wr_blk b buf s) }
          else Some (c, rd_blk c (junk s) s, s)) block_typed"
proof -
  have new: "fs_typed s2" if "get_block s = Some (b, s1)" "set_blocks k i b s1 = Some s2" for b s1 s2
    using typed_get_block [OF that(1) assms] by (intro typed_set_blocks [OF that(2)]) simp_all
  show "post (if c < 0 then do {
            (b, s) \<leftarrow> get_block s;
            s \<leftarrow> set_blocks k i b s;
            Some (b, clear_shorts 100 (rd_blk b (junk s) s), s) }
          else Some (c, rd_blk c (junk s) s, s)) block_typed"
    using assms by (intro post_step) (auto simp: length_rd_blk fs_typedD(11) new)
  show "post (if c < 0 then do {
            (b, s) \<leftarrow> get_block s;
            s \<leftarrow> set_blocks k i b s;
            let buf = clear_shorts 10 (junk s);
            Some (b, buf, wr_blk b buf s) }
          else Some (c, rd_blk c (junk s) s, s)) block_typed"
    using assms by (intro post_step) (auto simp: length_rd_blk fs_typedD(11) new intro!: typed_write)
qed

lemma typed_sub_table:
  assumes "fs_typed s" "length buf = 512"
  shows "post (if get_short buf q < 0 then do {
            (c, s) \<leftarrow> get_block s;
            let buf = put_short buf q c;
            let s = wr_blk b buf s;
            Some (c, clear_shorts 100 buf, s) }
          else Some (get_short buf q, rd_blk (get_short buf q) buf s, s)) block_typed"
  using assms by (intro post_step) (auto simp: length_rd_blk dest: typed_get_block intro!: typed_write)

lemma typed_set_block_index [keeps_typed]:
  assumes "set_block_index k num b s = Some s'" "fs_typed s" "-1 \<le> b" "b < 32768"
  shows "fs_typed s'"
proof -
  have dir: "post (set_blocks k i b s) fs_typed" for i
    unfolding post_def by (blast intro: typed_set_blocks assms(2-4))
  have end_block: "post (Some (wr_blk c (put_short buf i b) s)) fs_typed" if "fs_typed s" "length buf = 512" for c buf i s
    using that by (intro post_Some typed_write) simp_all
  have single: "post (do { (c, buf, s) \<leftarrow> m; let buf = put_short buf i b; Some (wr_blk c buf s) }) fs_typed" if "post m block_typed" for m i
    unfolding Let_def by (rule post_then [OF that]) (auto intro: end_block)
  have double: "post (do {
         (c, buf, s) \<leftarrow> m;
         let q = q;
         (sub_index, buf, s) \<leftarrow>
           (if get_short buf q < 0 then do {
              (e, s) \<leftarrow> get_block s;
              let buf = put_short buf q e;
              let s = wr_blk c buf s;
              Some (e, clear_shorts 100 buf, s) }
            else Some (get_short buf q, rd_blk (get_short buf q) buf s, s));
         let buf = put_short buf i b;
         Some (wr_blk sub_index buf s) }) fs_typed" if "post m block_typed" for m q i
    by (rule post_then [OF that], clarify, rule post_let, simp only:, rule single, rule typed_sub_table)
  have "post (set_block_index k num b s) fs_typed"
    unfolding set_block_index_def
    by (rule post_let, rule post_bind, rule post_if, rule dir, rule post_if, rule post_bind, rule single, rule typed_table(1), rule assms(2),
        rule post_if, rule post_bind, rule double, rule typed_table(2), rule assms(2), rule post_Some, rule assms(2))
  then show ?thesis using assms(1) by (rule postD)
qed

section \<open>The loops of reading, writing and directories\<close>

lemma typed_grow_loop: "fs_typed s \<Longrightarrow> post (grow_loop ino i n s) (\<lambda>(r, s). fs_typed s)"
proof (induction n arbitrary: i s)
  case 0
  then show ?case by (simp add: post_Some)
next
  case (Suc n)
  have grow: "fs_typed s2" if "set_block_index k j b s1 = Some s2" "get_block s = Some (b, s1)" for k j b s1 s2
    using typed_get_block [OF that(2) Suc.prems] by (intro typed_set_block_index [OF that(1)]) simp_all
  show ?case unfolding grow_loop.simps
    using Suc.prems by (intro post_bind post_prod post_if post_Some Suc.IH)
      (auto intro: typed_get_block(1) typed_stat [OF _ grow])
qed

lemma typed_write_loop: "fs_typed s \<Longrightarrow> length buf = 512 * n \<Longrightarrow> post (write_loop ino i n buf s) fs_typed"
proof (induction n arbitrary: i buf s)
  case 0
  then show ?case by (simp add: post_Some)
next
  case (Suc n)
  show ?case unfolding write_loop.simps
    by (intro post_bind Suc.IH typed_write Suc.prems(1)) (use Suc.prems(2) in simp_all)
qed

lemma find_end_length:
  "find_end dir i buf s = Some r \<Longrightarrow> fs_typed s \<longrightarrow> length buf = 512 \<longrightarrow> length (fst (snd r)) = 512"
  by (erule find_end.raw_induct [where P = "\<lambda>dir i buf s r. fs_typed s \<longrightarrow> length buf = 512 \<longrightarrow> length (fst (snd r)) = 512", rotated])
    (auto simp: bind_eq_Some_conv length_rd_blk split: if_splits)

lemma length_overwrite: "p + length e \<le> length b \<Longrightarrow> length (overwrite b p e) = length b"
  by (simp add: overwrite_def)

lemma length_print_int: "-1 \<le> i \<Longrightarrow> i < 128 \<Longrightarrow> length (print_int i) \<le> 3"
proof -
  assume i: "-1 \<le> i" "i < 128"
  have one: "length (print_nat n) \<le> 1" if "n < 10" for n using that by (simp add: print_nat.simps)
  have two: "length (print_nat n) \<le> 2" if "n < 100" for n using one [of n] one [of "n div 10"] that by (subst print_nat.simps) auto
  have three: "length (print_nat n) \<le> 3" if "n < 1000" for n using two [of "n div 10"] that by (subst print_nat.simps) auto
  show ?thesis using i three [of "nat i"] two [of "nat (- i)"] by (auto simp: print_int_def)
qed

lemma length_removeSubstring: "removeSubstring s t = Some r \<Longrightarrow> length r \<le> length s"
proof (induction s t arbitrary: r rule: removeSubstring.induct)
  case (1 s t)
  show ?case
  proof (cases "strstr s t")
    case None
    then show ?thesis using 1(2) by (simp add: removeSubstring.simps [of s] split: if_splits)
  next
    case (Some k)
    have t: "t \<noteq> []" using 1(2) by (auto simp: removeSubstring.simps [of s])
    obtain r' where r: "removeSubstring (drop (k + length t) s) t = Some r'" "r = take k s @ r'"
      using 1(2) t Some by (auto simp: removeSubstring.simps [of s])
    have "k + length t \<le> length s" using strstr_Some [OF Some] by simp
    then show ?thesis using 1(1) [OF t Some r(1)] r(2) by simp
  qed
qed

section \<open>The steps of creating and removing\<close>

lemma typed_enter_path: "fs_typed s \<Longrightarrow> 0 \<le> ino \<Longrightarrow> ino < 128 \<Longrightarrow> post (enter_path m path ino s) fs_typed"
  unfolding enter_path_def by (intro post_step) (auto intro!: typed_name simp: name_typed_def)

lemma typed_enter_cwd: "fs_typed s \<Longrightarrow> post (enter_cwd path s) fs_typed"
proof -
  assume t: "fs_typed s"
  have "name_typed m" if "arr_get (name_table s) j = Some m" for j m
    using that by (intro fs_typedD(7) [OF t]) (auto simp: c_arr)
  then have "fs_typed (s\<lparr>cwd_inode := p_ino m\<rparr>)" if "arr_get (name_table s) j = Some m" for j m
    using t that by (force simp: fs_typed_def fs_base_def name_typed_def)
  then show ?thesis unfolding enter_cwd_def by (intro post_bind post_prod post_Some)
qed

lemma typed_drop_path: "fs_typed s \<Longrightarrow> post (drop_path m s) fs_typed"
  unfolding drop_path_def by (intro post_bind) (auto simp: post_def dest: typed_free_inode typed_free_mapping)

text \<open>A step whose result is a state is known by its type only.\<close>

lemma post_typed: "post m fs_typed \<Longrightarrow> (\<And>s. fs_typed s \<Longrightarrow> post (f s) Q) \<Longrightarrow> post (m \<bind> f) Q"
  by (rule post_then)

named_theorems typed_step \<open>the steps of the operations\<close>

lemmas [typed_step] = typed_enter_path typed_enter_cwd typed_drop_path

lemma typed_steps [typed_step]:
  assumes "fs_typed s"
  shows "post (upd_stat k f s) fs_typed" "post (free_inode k s) fs_typed" "post (free_mapping m s) fs_typed" "post (free_fh fh s) fs_typed"
    "-1 \<le> b \<Longrightarrow> b < 32768 \<Longrightarrow> post (set_block_index k i b s) fs_typed" "-1 \<le> b \<Longrightarrow> b < 32768 \<Longrightarrow> post (set_blocks k i b s) fs_typed"
  unfolding post_def using assms
  by (blast intro: typed_stat typed_free_inode typed_free_mapping typed_free_fh typed_set_block_index typed_set_blocks)+

lemma typed_new_block:
  assumes "fs_typed s" "\<And>b s. fs_typed s \<Longrightarrow> -1 \<le> b \<Longrightarrow> b < 32768 \<Longrightarrow> post (f b s) Q"
  shows "post (do { (b, s) \<leftarrow> get_block s; f b s }) Q"
  by (intro post_bind post_prod assms(2)) (use typed_get_block assms(1) in \<open>fastforce+\<close>)

lemma typed_add_tail:
  assumes "fs_typed s" "length buf = cap" "cap = 512 \<or> cap = 1024"
  shows "post (do {
      s \<leftarrow> (if grow then do {
            (block, s) \<leftarrow> get_block s;
            s \<leftarrow> set_block_index dir i block s;
            if cap < 1024 then None else Some (wr_blk block (drop 512 buf) s) }
          else Some s);
      upd_stat dir f s }) fs_typed"
  using assms by (intro post_typed post_if typed_new_block post_Some post_None typed_step typed_write) auto

lemma typed_add_entry [typed_step]:
  assumes t: "fs_typed s" and cap: "cap = 512 \<or> cap = 1024"
  shows "post (add_entry cap path ino s) fs_typed"
  unfolding add_entry_def
proof (rule post_let, rule post_bind, rule post_bind, rule post_prod, rule post_prod, rule post_bind, rule post_let, rule post_if,
    rule post_None, rule post_let, rule post_let, rule post_bind, rule post_let_typed)
  fix dir b x i y buf ptr name entry buf' len b'
  assume fe: "find_end dir 0 (rd_blk b (zeros 512) s) s = Some x" "x = (i, y)" "y = (buf, ptr)"
    and p: "\<not> cap < ptr + length entry + 1" and b': "buf' = overwrite (buf @ take (cap - 512) (junk s)) ptr (entry @ [NUL])"
  have "length buf = 512" using find_end_length [OF fe(1)] fe(2,3) t by (simp add: length_rd_blk)
  then have l: "length buf' = cap" using p cap fs_typedD(11) [OF t] unfolding b' by (subst length_overwrite) auto
  then show "fs_typed (wr_blk b' (take 512 buf') s)" using cap by (intro typed_write t) auto
  fix s'
  assume s': "fs_typed s'"
  show "post (arr_get (inode_table s') dir \<bind> (\<lambda>n. do {
      s \<leftarrow> (if c_mod (st_size (i_stat n)) 512 + len > 512 then do {
            (block, s) \<leftarrow> get_block s';
            s \<leftarrow> set_block_index dir (i + 1) block s;
            if cap < 1024 then None else Some (wr_blk block (drop 512 buf') s) }
          else Some s');
      upd_stat dir (\<lambda>t. t\<lparr>st_size := st_size t + len, st_nlink := st_nlink t + 1\<rparr>) s })) fs_typed"
    by (rule post_bind, rule typed_add_tail [OF s' l cap])
qed

lemma typed_load_dir:
  assumes "fs_typed s"
  shows "post (load_dir m path s) (\<lambda>(entry, len, text, s). fs_typed s \<and> length text \<le> 512)"
proof -
  have len: "length tx \<le> 512" if "fs_typed s" "cstr (rd_blk b (zeros 512) s) = Some tx" for b tx s
    using that(2) length_takeWhile_le [of "\<lambda>c. c \<noteq> NUL" "rd_blk b (zeros 512) s"] length_rd_blk [OF that(1), of "zeros 512" b]
    by (auto simp: cstr_def split: if_splits)
  show ?thesis unfolding load_dir_def
    using assms by (intro post_typed post_bind post_prod post_if post_let post_None post_Some typed_step) (auto dest: len)
qed

lemma typed_store_dir:
  assumes "fs_typed s" "length text \<le> 512"
  shows "post (store_dir entry len text s) fs_typed"
  unfolding store_dir_def
proof (intro post_typed post_bind post_prod post_if post_let_typed post_let post_None post_Some typed_step)
  fix tx b
  assume "removeSubstring text entry = Some tx"
  then have "length tx \<le> 512" using length_removeSubstring assms(2) by fastforce
  then show "fs_typed (wr_blk b (tx @ zeros (512 - length tx)) s)" by (intro typed_write assms(1)) simp
qed (simp_all add: typed_put)

section \<open>The operations\<close>

text \<open>The number of the inode a new entry gets: the store to its attributes would fail for -1.\<close>

lemma upd_stat_range: "upd_stat k f s = Some s' \<Longrightarrow> 0 \<le> k"
  by (auto simp: upd_stat_def upd_inode_def bind_eq_Some_conv c_arr)

lemma typed_create: "fs_typed s \<Longrightarrow> post (sfs_create e path mode s) (\<lambda>(c, fh, s). fs_typed s)"
  unfolding sfs_create_def
proof (rule post_if, rule post_Some, simp, rule post_let, rule post_let, rule post_prod, rule post_bind, rule post_bind, rule post_let, rule post_prod, rule post_if)
  fix fh p ino s1 fs s2
  assume t: "fs_typed s" and p: "p = get_inode s" "p = (ino, s1)" and fs: "arr_set (open_files s1) fh \<lparr>refcnt = 1, f_ino = ino, f_pos = 0\<rparr> = Some fs"
    and s2: "upd_stat ino (\<lambda>_. new_stat e mode 1 0 0) (s1\<lparr>open_files := fs\<rparr>) = Some s2"
  have i: "fs_typed s1" "0 \<le> ino" "ino < 128" using typed_get_inode [of s ino s1] p t upd_stat_range [OF s2] by auto
  have "fs_typed (s1\<lparr>open_files := fs\<rparr>)" by (rule typed_handle [OF fs i(1)]) (use i in \<open>simp add: handle_typed_def\<close>)
  then have t2: "fs_typed s2" by (rule typed_stat [OF s2])
  fix q m s3
  assume "q = get_mapping s2" "q = (m, s3)"
  then have t3: "fs_typed s3" using typed_get_mapping t2 by metis
  show "post (free_inode ino s3 \<bind> (\<lambda>s. free_fh fh s \<bind> (\<lambda>s. Some (- ENOMEM, Some fh, s)))) (\<lambda>(c, fh, s). fs_typed s)"
    using t3 by (intro post_typed post_Some typed_step) auto
  show "post (enter_path m path ino s3 \<bind> (\<lambda>s. enter_cwd path s \<bind> (\<lambda>s. add_entry 1024 path ino s \<bind> (\<lambda>s. Some (0, Some fh, s)))))
     (\<lambda>(c, fh, s). fs_typed s)"
    using t3 i by (intro post_typed post_Some typed_step) auto
qed

lemma typed_mkdir: "fs_typed s \<Longrightarrow> post (sfs_mkdir e path mode s) (\<lambda>(c, s). fs_typed s)"
  unfolding sfs_mkdir_def
proof (rule post_if, rule post_Some, simp, rule post_let, rule post_prod, rule post_bind, rule typed_new_block)
  fix p ino s1 s2
  assume t: "fs_typed s" and p: "p = get_inode s" "p = (ino, s1)"
    and s2: "upd_stat ino (\<lambda>_. new_stat e (mode OR S_IFDIR) 2 512 1) s1 = Some s2"
  have i: "fs_typed s1" "0 \<le> ino" "ino < 128" using typed_get_inode [of s ino s1] p t upd_stat_range [OF s2] by auto
  show "fs_typed s2" by (rule typed_stat [OF s2 i(1)])
  fix b :: int and s3
  assume b: "fs_typed s3" "-1 \<le> b" "b < 32768"
  have dots: "fs_typed (wr_blk c (tx @ zeros (512 - length tx)) s)"
    if "fs_typed s" "tx = ''./'' @ print_int ino @ ''/../'' @ print_int (cwd_inode s)" for c tx s
    using length_print_int [of ino] length_print_int [of "cwd_inode s"] i fs_typedD(9,10) [OF that(1)] that
    by (intro typed_write) simp_all
  show "post (do {
        s \<leftarrow> set_blocks ino 0 b s3;
        let (mapping, s) = get_mapping s;
        if mapping < 0 then do {
          s \<leftarrow> free_inode ino s;
          Some (-ENOMEM, s) }
        else do {
          s \<leftarrow> enter_path mapping path ino s;
          s \<leftarrow> enter_cwd path s;
          let text = ''./'' @ print_int ino @ ''/../'' @ print_int (cwd_inode s);
          b \<leftarrow> get_block_index ino 0 s;
          let s = wr_blk b (text @ zeros (512 - length text)) s;
          s \<leftarrow> add_entry 512 path ino s;
          Some (0, s) } }) (\<lambda>(c, s). fs_typed s)"
  proof (rule post_typed, rule typed_steps(6) [OF b], rule post_let, rule post_prod)
    fix s4 q m s5
    assume "fs_typed s4" "q = get_mapping s4" "q = (m, s5)"
    then have t5: "fs_typed s5" using typed_get_mapping by metis
    show "post (if m < 0 then do {
          s \<leftarrow> free_inode ino s5;
          Some (-ENOMEM, s) }
        else do {
          s \<leftarrow> enter_path m path ino s5;
          s \<leftarrow> enter_cwd path s;
          let text = ''./'' @ print_int ino @ ''/../'' @ print_int (cwd_inode s);
          b \<leftarrow> get_block_index ino 0 s;
          let s = wr_blk b (text @ zeros (512 - length text)) s;
          s \<leftarrow> add_entry 512 path ino s;
          Some (0, s) }) (\<lambda>(c, s). fs_typed s)"
      using t5 i by (intro post_if post_typed post_bind post_let_typed post_let post_Some typed_step) ((rule dots; assumption) | simp)+
  qed
qed

lemma typed_unlink: "fs_typed s \<Longrightarrow> post (sfs_unlink path s) (\<lambda>(c, s). fs_typed s)"
  unfolding sfs_unlink_def
  by (rule post_let, rule post_if, rule post_Some, simp, rule post_then [OF typed_load_dir], assumption)
    (auto intro!: post_typed typed_store_dir typed_step post_Some)

lemma typed_rmdir: "fs_typed s \<Longrightarrow> post (sfs_rmdir path s) (\<lambda>(c, s). fs_typed s)"
  unfolding sfs_rmdir_def
  by (rule post_let, rule post_if, rule post_Some, simp, rule post_then [OF typed_load_dir], assumption)
    (clarsimp, intro post_typed post_bind post_if typed_store_dir typed_step post_Some, auto)

lemma typed_open: "fs_typed s \<Longrightarrow> post (sfs_open e path s) (\<lambda>(c, fh, s). fs_typed s)"
proof -
  assume t: "fs_typed s"
  have "fs_typed (s\<lparr>open_files := fs\<rparr>)"
    if "arr_get (name_table s) j = Some m" "arr_set (open_files s) i \<lparr>refcnt = 1, f_ino = p_ino m, f_pos = 0\<rparr> = Some fs" for i j m fs
  proof (rule typed_handle [OF that(2) t])
    have "name_typed m" using that(1) by (intro fs_typedD(7) [OF t]) (auto simp: c_arr)
    then show "handle_typed \<lparr>refcnt = 1, f_ino = p_ino m, f_pos = 0\<rparr>" by (simp add: name_typed_def handle_typed_def)
  qed
  then show ?thesis unfolding sfs_open_def using t by (intro post_let post_if post_bind post_Some) auto
qed

lemma typed_release: "fs_typed s \<Longrightarrow> post (sfs_release fh s) (\<lambda>(c, s). fs_typed s)"
  unfolding sfs_release_def by (intro post_typed typed_step post_Some) auto

text \<open>The offset FUSE passes is not negative.\<close>

lemma typed_write_part:
  assumes t: "fs_typed s" and off: "0 \<le> off"
  shows "post (if n \<le> 0 then None
      else do {
        b \<leftarrow> get_block_index ino start s;
        let cont = rd_blk b (zeros 512) s @ zeros (nat (n * 512) - 512);
        if c_mod off 512 + int (length buf) > n * 512 then None
        else do {
          let cont = overwrite cont (nat (c_mod off 512)) buf;
          s \<leftarrow> write_loop ino start (nat n) cont s;
          s \<leftarrow> upd_stat ino f s;
          Some (v, s) } }) (\<lambda>(c, s). fs_typed s)"
proof (rule post_if, rule post_None, rule post_bind, rule post_let, rule post_if, rule post_None, rule post_let)
  fix b cont cont'
  assume n: "\<not> n \<le> 0" and fit: "\<not> n * 512 < c_mod off 512 + int (length buf)"
    and cont: "cont = rd_blk b (zeros 512) s @ zeros (nat (n * 512) - 512)" "cont' = overwrite cont (nat (c_mod off 512)) buf"
  have "0 \<le> c_mod off 512" using off by (simp add: c_mod_nonneg)
  moreover have "length cont = nat (n * 512)" using n length_rd_blk [OF t, of "zeros 512" b] by (simp add: cont(1))
  ultimately have "length cont' = 512 * nat n" using fit n unfolding cont(2) by (subst length_overwrite) auto
  then show "post (do {
      s \<leftarrow> write_loop ino start (nat n) cont' s;
      s \<leftarrow> upd_stat ino f s;
      Some (v, s) }) (\<lambda>(c, s). fs_typed s)"
    by (intro post_typed typed_write_loop t typed_step post_Some) auto
qed

lemma typed_sfs_write: "fs_typed s \<Longrightarrow> 0 \<le> offset \<Longrightarrow> post (sfs_write fh buf offset s) (\<lambda>(c, s). fs_typed s)"
proof -
  assume t: "fs_typed s" and off: "0 \<le> offset"
  have grow: "post (if b then grow_loop ino i n s else Some (0, s)) (\<lambda>(r, s). fs_typed s)" for b ino i n
    by (intro post_if typed_grow_loop post_Some) (simp_all add: t)
  have fin: "post (Some (c, s)) (\<lambda>(c, s). fs_typed s)" if "fs_typed s" for c :: int and s
    using that by (simp add: post_Some)
  show ?thesis unfolding sfs_write_def Let_def
    by (rule post_if, rule fin [OF t], rule post_bind, rule post_if, rule fin [OF t], rule post_bind, rule post_if, rule fin [OF t],
        rule post_then [OF grow], rule post_prod, rule post_if, rule fin, simp, rule typed_write_part [unfolded Let_def], simp, rule off)
qed

section \<open>Type soundness\<close>

text \<open>A call FUSE makes that changes the state, with any arguments and any answer of the operating system.\<close>

inductive fs_step :: "sfs \<Rightarrow> sfs \<Rightarrow> bool" where
  create: "sfs_create e path mode s = Some (c, fh, s') \<Longrightarrow> fs_step s s'"
| mkdir: "sfs_mkdir e path mode s = Some (c, s') \<Longrightarrow> fs_step s s'"
| unlink: "sfs_unlink path s = Some (c, s') \<Longrightarrow> fs_step s s'"
| rmdir: "sfs_rmdir path s = Some (c, s') \<Longrightarrow> fs_step s s'"
| "open": "sfs_open e path s = Some (c, fh, s') \<Longrightarrow> fs_step s s'"
| release: "sfs_release fd s = Some (c, s') \<Longrightarrow> fs_step s s'"
| "write": "0 \<le> offset \<Longrightarrow> sfs_write fd buf offset s = Some (c, s') \<Longrightarrow> fs_step s s'"

lemma fs_step_typed: "fs_step s s' \<Longrightarrow> fs_typed s \<Longrightarrow> fs_typed s'"
  by (induction rule: fs_step.induct)
    (fastforce dest: postD [OF typed_create] postD [OF typed_mkdir] postD [OF typed_unlink] postD [OF typed_rmdir]
      postD [OF typed_open] postD [OF typed_release] postD [OF typed_sfs_write])+

lemma typed_progress:
  assumes "fs_typed s"
  shows "sfs_getattr e path s \<noteq> None" "path \<noteq> [] \<Longrightarrow> sfs_open e path s \<noteq> None" "0 \<le> fh \<Longrightarrow> fh < 128 \<Longrightarrow> sfs_release fh s \<noteq> None"
proof -
  note L = fs_typedD(3-5) [OF assms]
  have b: "path_lookup path s < 128" using scan_bounds(2) [of _ "name_table s"] L(2) by (simp add: path_lookup_def)
  show "sfs_getattr e path s \<noteq> None" using b L(1) by (simp add: sfs_getattr_def Let_def arr_get_in)
  show "0 \<le> fh \<Longrightarrow> fh < 128 \<Longrightarrow> sfs_release fh s \<noteq> None" using L(3) by (simp add: sfs_release_def free_fh_def arr_set_in)
  show "sfs_open e path s \<noteq> None" if p: "path \<noteq> []"
  proof (cases "path_lookup path s < 0")
    case False
    let ?m = "name_table s ! nat (path_lookup path s)"
    have "p_path ?m = path" using False
      by (cases rule: scan_cases [of "\<lambda>m. p_path m = path" "name_table s"]) (auto simp: path_lookup_def)
    moreover have "name_typed ?m" using False b L(2) by (intro fs_typedD(7) [OF assms]) simp
    ultimately have "0 \<le> p_ino ?m" "p_ino ?m < 128" using p by (simp_all add: name_typed_def)
    moreover have "get_fh s < 128" using scan_bounds(2) [of _ "open_files s"] L(3) by (simp add: get_fh_def)
    ultimately show ?thesis using False b L by (simp add: sfs_open_def Let_def arr_get_in arr_set_in)
  qed (simp add: sfs_open_def)
qed

lemma first_mount_typed:
  assumes "disk_open fd (sdisk s) = Some d" "fd_open d" "length (junk s) = 512" "cwd_inode s = 0"
    and "find_key 32768 (junk s) (s\<lparr>sdisk := d\<rparr>) = None" "sfs_init load e fd s = Some s'"
  shows "fs_typed s'"
proof -
  have "0 \<le> diskfile d" using assms(1) by (auto simp: disk_open_def split: if_splits)
  then have base: "fs_base (format_tables e d s)" by (rule format_tables_base [OF _ assms(2,3)])
  have "\<forall>n \<in> set (inode_table (format_tables e d s)). inode_typed n"
    using list_update_all [of "replicate 128 \<lparr>i_avail = 0, i_stat = zero_stat, i_blocks = replicate 12 0\<rparr>" inode_typed
        "\<lparr>i_avail = 1, i_stat = new_stat e 0x41FF 2 512 1, i_blocks = 0 # replicate 11 (-1)\<rparr>" 0]
    by (simp add: format_tables_def inode_typed_def)
  moreover have "\<forall>m \<in> set (name_table (format_tables e d s)). name_typed m"
    using list_update_all [of "replicate 128 \<lparr>p_avail = 0, p_ino = 0, p_path = []\<rparr>" name_typed "\<lparr>p_avail = 1, p_ino = 0, p_path = ''/''\<rparr>" 0]
    by (simp add: format_tables_def name_typed_def)
  moreover have "\<forall>x \<in> set (disk_blocks (format_tables e d s)). x \<in> {0, 1}"
    using list_update_all [of "replicate 32768 0" "\<lambda>x. x = 0 \<or> x = 1" 1 0] by (simp add: format_tables_def)
  moreover have "\<forall>f \<in> set (open_files (format_tables e d s)). handle_typed f" "cwd_inode (format_tables e d s) = 0"
      "length (inode_table (format_tables e d s)) = 128" "length (name_table (format_tables e d s)) = 128" "length (open_files (format_tables e d s)) = 128"
    using assms(4) by (simp_all add: format_tables_def handle_typed_def)
  ultimately have "fs_typed (format_tables e d s)" using base unfolding fs_typed_def by (simp add: subset_iff)
  then have "fs_typed (wr_blk 0 (''./0/../0'' @ [NUL] @ drop 9 (junk s)) (wr_blk 0 (zeros 512) (format_tables e d s)))"
    using assms(3) by (intro typed_write) simp_all
  then show ?thesis using typed_stat assms(6) sfs_init_eval [OF assms(1,5)] by metis
qed

end
