(* ===== verification/Sfs_Main.thy ===== *)
theory Sfs_Main
  imports Sfs_Types
begin

text \<open>
  The program around the file system (\<^verbatim>\<open>src/asst3/assignment3/src/sfs.c\<close>, lines 1163 to 1218): the table of operations
  as one function from requests to replies, sequences of requests, and \<open>main\<close>, which takes the disk file from the
  command line and hands over to FUSE.
\<close>

section \<open>The table of operations\<close>

datatype request =
    OpGetattr string
  | OpCreate string "32 word"
  | OpUnlink string
  | OpOpen string
  | OpRelease int
  | OpRead int int int
  | OpWrite int string int
  | OpRmdir string
  | OpMkdir string "32 word"
  | OpOpendir string
  | OpReaddir string
  | OpReleasedir string

datatype reply =
    Status int
  | Attributes int stat
  | Handle int "int option"
  | Bytes int string
  | Names int "string list"

fun sfs_oper :: "fuse_env \<Rightarrow> request \<Rightarrow> sfs \<Rightarrow> (reply \<times> sfs) option" where
  "sfs_oper e (OpGetattr path) s = do { (c, t) \<leftarrow> sfs_getattr e path s; Some (Attributes c t, s) }"
| "sfs_oper e (OpCreate path mode) s = do { (c, fh, s) \<leftarrow> sfs_create e path mode s; Some (Handle c fh, s) }"
| "sfs_oper e (OpUnlink path) s = do { (c, s) \<leftarrow> sfs_unlink path s; Some (Status c, s) }"
| "sfs_oper e (OpOpen path) s = do { (c, fh, s) \<leftarrow> sfs_open e path s; Some (Handle c fh, s) }"
| "sfs_oper e (OpRelease fh) s = do { (c, s) \<leftarrow> sfs_release fh s; Some (Status c, s) }"
| "sfs_oper e (OpRead fh len offset) s = do { (c, bs) \<leftarrow> sfs_read fh len offset s; Some (Bytes c bs, s) }"
| "sfs_oper e (OpWrite fh bs offset) s = do { (c, s) \<leftarrow> sfs_write fh bs offset s; Some (Status c, s) }"
| "sfs_oper e (OpRmdir path) s = do { (c, s) \<leftarrow> sfs_rmdir path s; Some (Status c, s) }"
| "sfs_oper e (OpMkdir path mode) s = do { (c, s) \<leftarrow> sfs_mkdir e path mode s; Some (Status c, s) }"
| "sfs_oper e (OpOpendir path) s = (case sfs_opendir path s of (c, s) \<Rightarrow> Some (Status c, s))"
| "sfs_oper e (OpReaddir path) s = do { (c, ns) \<leftarrow> sfs_readdir path s; Some (Names c ns, s) }"
| "sfs_oper e (OpReleasedir path) s = (case sfs_releasedir path s of (c, s) \<Rightarrow> Some (Status c, s))"

text \<open>Requests one after the other, each with what the operating system answers during it.\<close>

fun serve :: "(fuse_env \<times> request) list \<Rightarrow> sfs \<Rightarrow> (reply list \<times> sfs) option" where
  "serve [] s = Some ([], s)"
| "serve ((e, r) # rs) s = do {
     (a, s) \<leftarrow> sfs_oper e r s;
     (as, s) \<leftarrow> serve rs s;
     Some (a # as, s) }"

text \<open>FUSE passes no negative offset.\<close>

fun proper :: "request \<Rightarrow> bool" where
  "proper (OpWrite fh bs offset) \<longleftrightarrow> 0 \<le> offset"
| "proper _ \<longleftrightarrow> True"

text \<open>A request either leaves the state as it is or is a step of the file system.\<close>

lemma sfs_oper_step:
  assumes "sfs_oper e r s = Some (a, s')" "proper r"
  shows "s' = s \<or> fs_step s s'"
  using assms
  by (cases r) (auto simp: bind_eq_Some_conv sfs_opendir_def sfs_releasedir_def intro: fs_step.intros)

lemma serve_steps: "serve rs s = Some (as, s') \<Longrightarrow> \<forall>(e, r) \<in> set rs. proper r \<Longrightarrow> fs_step\<^sup>*\<^sup>* s s'"
proof (induction rs arbitrary: s as)
  case (Cons x rs)
  obtain e r where x: "x = (e, r)" by (cases x)
  with Cons.prems obtain a s1 bs where s1: "sfs_oper e r s = Some (a, s1)" "serve rs s1 = Some (bs, s')"
    by (auto simp: bind_eq_Some_conv)
  have "fs_step\<^sup>*\<^sup>* s s1" using sfs_oper_step [OF s1(1)] Cons.prems(2) x by auto
  with Cons.IH [OF s1(2)] Cons.prems(2) show ?case by auto
qed simp

lemma serve_typed:
  assumes "fs_typed s" "serve rs s = Some (as, s')" "\<forall>(e, r) \<in> set rs. proper r"
  shows "fs_typed s'"
  using serve_steps [OF assms(2,3)] assms(1) by (induction rule: rtranclp_induct) (auto intro: fs_step_typed)

section \<open>Type soundness of the service\<close>

lemma sfs_oper_returns:
  "sfs_oper e (OpGetattr path) s = None \<longleftrightarrow> sfs_getattr e path s = None" "sfs_oper e (OpOpen path) s = None \<longleftrightarrow> sfs_open e path s = None"
  "sfs_oper e (OpRelease fh) s = None \<longleftrightarrow> sfs_release fh s = None"
  by (cases "sfs_getattr e path s"; cases "sfs_open e path s"; cases "sfs_release fh s"; auto)+



section \<open>The main program\<close>

text \<open>
  \<open>fuse_main\<close> gets the arguments and the disk file; whether the memory for the state and the log file can be had is
  a parameter. Without them, or with a wrong command line, the program ends here.
\<close>

definition option_like :: "string \<Rightarrow> bool" where
  "option_like a \<longleftrightarrow> take 1 a = ''-''"

definition main_sfs :: "(string list \<Rightarrow> string \<Rightarrow> int) \<Rightarrow> bool \<Rightarrow> bool \<Rightarrow> string list \<Rightarrow> int option" where
  "main_sfs fuse_main mem_ok log_ok argv =
     (let argc = length argv in
      if argc < 3 \<or> option_like (argv ! (argc - 2)) \<or> option_like (argv ! (argc - 1)) then None
      else if \<not> mem_ok then None
      else let diskfile = argv ! (argc - 2);
               argv = argv[argc - 2 := argv ! (argc - 1)]
           in if \<not> log_ok then None else Some (fuse_main (take (argc - 1) argv) diskfile))"

text \<open>The last argument but one is taken out and becomes the disk file; all others reach FUSE in their order.\<close>

lemma main_hands_over:
  assumes "\<not> option_like d" "\<not> option_like m" "args \<noteq> []"
  shows "main_sfs fuse_main True True (args @ [d, m]) = Some (fuse_main (args @ [m]) d)"
  using assms by (simp add: main_sfs_def Let_def nth_append list_update_append)

lemma main_refuses: "length argv < 3 \<or> option_like (last (butlast argv)) \<or> option_like (last argv) \<Longrightarrow> main_sfs fuse_main mem_ok log_ok argv = None"
proof (cases argv rule: rev_cases)
  case (snoc xs m)
  assume "length argv < 3 \<or> option_like (last (butlast argv)) \<or> option_like (last argv)"
  then show ?thesis using snoc by (cases xs rule: rev_cases) (auto simp: main_sfs_def Let_def nth_append butlast_append)
qed (simp add: main_sfs_def)

end
