(* ===== verification/Sfs_Mkdir.thy ===== *)
theory Sfs_Mkdir
  imports Sfs_Examples
begin

unbundle bit_operations_syntax

text \<open>
  Making and removing directories (\<open>sfs_mkdir\<close>, \<open>sfs_rmdir\<close>): what a new directory contains, and what
  the removal of a directory leaves behind.
\<close>

section \<open>The text of a new directory\<close>

lemma print_nat_length: "length (print_nat n) \<le> Suc n"
proof (induction n rule: print_nat.induct)
  case (1 n)
  show ?case
  proof (cases "n < 10")
    case True
    then show ?thesis by (simp add: print_nat.simps [of n])
  next
    case False
    then have "print_nat n = print_nat (n div 10) @ [char_of (48 + n mod 10)]" by (subst print_nat.simps) simp
    moreover have "n div 10 + 2 \<le> Suc n" using False by linarith
    ultimately show ?thesis using 1 [OF False] by simp
  qed
qed

lemma print_int_length: "0 \<le> i \<Longrightarrow> i < 128 \<Longrightarrow> length (print_int i) \<le> 128"
proof -
  assume "0 \<le> i" "i < 128"
  then have "print_int i = print_nat (nat i)" "nat i \<le> 127" by (simp_all add: print_int_def)
  then show "length (print_int i) \<le> 128" using print_nat_length [of "nat i"] by simp
qed

lemma new_dir_text:
  "''./'' @ print_int i @ ''/../'' @ print_int k = dir_text [(''.'', i), (''..'', k)]"
  by (simp add: dir_text_def)

text \<open>A directory whose first block was just written with the text of its entries.\<close>

lemma dir_at_written:
  assumes "fs_base s" "0 \<le> i" "i < int (length (inode_table s))" "B s b = dir_text es @ zeros (512 - length (dir_text es))"
    and "length (dir_text es) < 512" "i_blocks (inode_table s ! nat i) = b # bs" "length bs = 11" "0 \<le> b" "b < 32768"
    and "dir_blocks (st_size (i_stat (inode_table s ! nat i))) \<noteq> 0" "es \<noteq> []" "\<forall>(n, j) \<in> set es. name_ok n \<and> NUL \<notin> set n \<and> 0 \<le> j"
  shows "dir_at s i es" "dir_block s i = b"
proof -
  obtain r where "zeros (512 - length (dir_text es)) = NUL # r"
    using assms(5) by (cases "512 - length (dir_text es)") auto
  then show "dir_at s i es" using assms by (auto simp: dir_at_def)
  show "dir_block s i = b" using assms(6) by (simp add: dir_block_def)
qed

section \<open>Making a directory\<close>

text \<open>In addition to what entering a name asks for: a free block, and a parent whose block is in use.\<close>

definition can_mkdir :: "sfs \<Rightarrow> string \<Rightarrow> string \<Rightarrow> nat \<Rightarrow> nat \<Rightarrow> nat \<Rightarrow> int \<Rightarrow> (string \<times> int) list \<Rightarrow> bool" where
  "can_mkdir s d n i m pm k es \<longleftrightarrow> can_enter s d n i m pm k es \<and> 0 < nfree s \<and> allocd s (dir_block s k) \<and>
     length (inode_table s) \<le> 128"

text \<open>\<open>s'\<close> is \<open>s\<close> with the new directory \<open>i\<close> in the block \<open>b\<close> made in directory \<open>k\<close>.\<close>

definition dir_made :: "fuse_env \<Rightarrow> 32 word \<Rightarrow> sfs \<Rightarrow> string \<Rightarrow> string \<Rightarrow> nat \<Rightarrow> nat \<Rightarrow> int \<Rightarrow> (string \<times> int) list \<Rightarrow> int \<Rightarrow> sfs \<Rightarrow> bool" where
  "dir_made e mode s d n i m k es b s' \<longleftrightarrow>
     path_lookup (d @ SLASH # n) s' = int m \<and> p_ino (name_table s' ! m) = int i \<and>
     i_stat (inode_table s' ! i) = new_stat e (mode OR S_IFDIR) 2 512 1 \<and> i_avail (inode_table s' ! i) = 1 \<and>
     dir_at s' (int i) [(''.'', int i), (''..'', k)] \<and> dir_block s' (int i) = b \<and>
     dir_at s' k (es @ [(n, int i)]) \<and> dir_block s' k = dir_block s k \<and>
     st_size (i_stat (inode_table s' ! nat k)) = st_size (i_stat (inode_table s ! nat k)) + int (length (dir_entry n (int i))) + 1 \<and>
     st_nlink (i_stat (inode_table s' ! nat k)) = st_nlink (i_stat (inode_table s ! nat k)) + 1 \<and>
     \<not> allocd s b \<and> (\<forall>x. allocd s' x \<longleftrightarrow> allocd s x \<or> x = b) \<and> Suc (nfree s') = nfree s \<and>
     (\<forall>x. x \<noteq> b \<longrightarrow> x \<noteq> dir_block s k \<longrightarrow> B s' x = B s x) \<and>
     (\<forall>j. j \<noteq> i \<longrightarrow> j \<noteq> nat k \<longrightarrow> inode_table s' ! j = inode_table s ! j) \<and>
     i_avail (inode_table s' ! nat k) = i_avail (inode_table s ! nat k) \<and>
     (\<forall>j. j \<noteq> m \<longrightarrow> name_table s' ! j = name_table s ! j) \<and> p_avail (name_table s' ! m) = 1 \<and> p_path (name_table s' ! m) = d @ SLASH # n \<and>
     open_files s' = open_files s \<and> length (inode_table s') = length (inode_table s) \<and> length (name_table s') = length (name_table s)"

lemma mkdir_law:
  assumes c: "can_mkdir s d n i m pm k es"
  shows "\<exists>s' b. sfs_mkdir e (d @ SLASH # n) mode s = Some (0, s') \<and> dir_made e mode s d n i m k es b s' \<and>
    path_lookup (if d = [] then ''/'' else d) s' = int pm \<and> p_ino (name_table s' ! pm) = k"
proof -
  define path where "path = d @ SLASH # n"
  define dp where "dp = (if d = [] then ''/'' else d)"
  define ent where "ent = dir_entry n (int i)"
  have C: "name_ok n" "NUL \<notin> set n" "CHR ''%'' \<notin> set path" "length path < 128" "path_lookup path s = -1"
      "scan (\<lambda>x. i_avail x = 0) (inode_table s) = int i" "0 < nfree s" "allocd s (dir_block s k)" "length (inode_table s) \<le> 128"
      "scan (\<lambda>x. p_avail x = 0) (name_table s) = int m" "path_lookup dp s = int pm" "pm \<noteq> m"
      "p_ino (name_table s ! pm) = k" "dir_at s k es" "nat k \<noteq> i"
    using c by (simp_all add: can_mkdir_def can_enter_def Let_def path_def dp_def)
  have fit: "length (dir_text es) + length ent < 512"
      "c_mod (st_size (i_stat (inode_table s ! nat k))) 512 + int (length ent) + 1 \<le> 512"
      "dir_blocks (st_size (i_stat (inode_table s ! nat k)) + int (length ent) + 1) \<noteq> 0"
    using c by (simp_all add: can_mkdir_def can_enter_def Let_def ent_def add.assoc)
  have sp: "get_cwd_path path = Some (0, dp)" "get_name path = Some n"
    using path_splits_law [of n d] C(1,4) by (auto simp: path_def dp_def name_ok_def)
  note D = dir_atD [OF C(14)]
  have i: "i < length (inode_table s)" "m < length (name_table s)" "pm < length (name_table s)"
    using C(6,10,11) by (simp_all add: scan_eq_int path_lookup_def)
  from get_block_law [OF C(7) D(1)] obtain b where
    b: "get_block s = Some (b, s\<lparr>disk_blocks := (disk_blocks s)[nat b := 1]\<rparr>)" "0 \<le> b" "b < 32768" "\<not> allocd s b"
      "Suc (nfree (s\<lparr>disk_blocks := (disk_blocks s)[nat b := 1]\<rparr>)) = nfree s" by blast
  define nt1 where "nt1 = (name_table s)[m := \<lparr>p_avail = 1, p_ino = int i, p_path = path\<rparr>]"
  define nd where "nd = (inode_table s ! i)\<lparr>i_avail := 1, i_blocks := b # replicate 11 (-1), i_stat := new_stat e (mode OR S_IFDIR) 2 512 1\<rparr>"
  define s1 where "s1 = s\<lparr>inode_table := (inode_table s)[i := nd], disk_blocks := (disk_blocks s)[nat b := 1], name_table := nt1, cwd_inode := k\<rparr>"
  let ?t = "dir_text [(''.'', int i), (''..'', k)]"
  have tl: "length ?t < 512"
    using print_int_length [of "int i"] print_int_length [of k] i(1) C(9) D(2,3) by (simp flip: new_dir_text)
  have base1: "fs_base s1" using D(1) by (simp add: s1_def fs_base_def)
  from wr_blk_law [OF base1 b(2), of "?t @ zeros (512 - length ?t)"] tl obtain d1 where
    d1: "wr_blk b (?t @ zeros (512 - length ?t)) s1 = s1\<lparr>sdisk := d1\<rparr>" "disk_ok d1" "blk d1 = (B s)(b := ?t @ zeros (512 - length ?t))"
    by (auto simp: s1_def)
  define s2 where "s2 = s1\<lparr>sdisk := d1\<rparr>"
  have base2: "fs_base s2" using base1 d1(2) by (simp add: s2_def fs_base_def)
  have "dp \<noteq> path" using C(1) by (auto simp: dp_def path_def name_ok_def)
  have lk: "path_lookup dp (s\<lparr>name_table := nt1\<rparr>) = int pm" "path_lookup path (s\<lparr>name_table := nt1\<rparr>) = int m"
    using C(5,11,12) i(2) \<open>dp \<noteq> path\<close> scan_update [of "\<lambda>m. p_path m = dp" "name_table s" pm m] scan_new [of "\<lambda>m. p_path m = path" "name_table s" m]
    by (simp_all add: path_lookup_def nt1_def)
  have db: "dir_block s k \<noteq> b" using C(8) b(4) by blast
  have k2: "inode_table s2 ! nat k = inode_table s ! nat k" "cwd_inode s2 = k" using C(15) by (simp_all add: s2_def s1_def)
  have d2: "dir_at s2 k es"
    using C(14) base2 k2(1) db by (simp add: dir_at_def dir_block_def Let_def) (simp add: s2_def s1_def d1(3))
  obtain dd s' where a: "add_entry 512 path (int i) s2 = Some s'" "dir_at s' k (es @ [(n, int i)])"
      "\<forall>x. x \<noteq> dir_block s2 k \<longrightarrow> B s' x = B s2 x"
      "s' = s2\<lparr>sdisk := dd, inode_table := (inode_table s2)[nat k := (inode_table s ! nat k)\<lparr>i_stat := (i_stat (inode_table s ! nat k))
        \<lparr>st_size := st_size (i_stat (inode_table s ! nat k)) + (int (length ent) + 1), st_nlink := st_nlink (i_stat (inode_table s ! nat k)) + 1\<rparr>\<rparr>]\<rparr>"
    using add_entry_law [of s2 es path n "int i" 512, unfolded k2] d2 sp(2) C(1,2) fit by (auto simp: Let_def ent_def)
  have sc: "scan (\<lambda>x. x = 0) (disk_blocks s) = b"
    using b(1) by (auto simp: get_block_def Let_def split: if_splits)
  have gi: "get_block_index (int i) 0 s1 = Some b"
    using i(1) by (simp add: get_block_index_def s1_def nd_def to_short_id arr_get_def)
  have rep: "(replicate 12 (-1))[0 := b] = b # replicate 11 (-1)" by (simp add: numeral_eq_Suc)
  define sD where "sD = s\<lparr>inode_table := (inode_table s)[i := nd], disk_blocks := (disk_blocks s)[nat b := 1]\<rparr>"
  define nd0 where "nd0 = (inode_table s ! i)\<lparr>i_avail := 1, i_blocks := replicate 12 (-1)\<rparr>"
  define nd1 where "nd1 = nd0\<lparr>i_stat := new_stat e (mode OR S_IFDIR) 2 512 1\<rparr>"
  have g1: "get_inode s = (int i, s\<lparr>inode_table := (inode_table s)[i := nd0]\<rparr>)"
    using get_inode_law [OF C(6)] by (simp add: nd0_def)
  have g2: "upd_stat (int i) (\<lambda>_. new_stat e (mode OR S_IFDIR) 2 512 1) (s\<lparr>inode_table := (inode_table s)[i := nd0]\<rparr>) =
      Some (s\<lparr>inode_table := (inode_table s)[i := nd1]\<rparr>)"
    using i(1) by (simp add: upd_stat_def upd_inode_def nd1_def)
  have g3: "get_block (s\<lparr>inode_table := (inode_table s)[i := nd1]\<rparr>) =
      Some (b, s\<lparr>inode_table := (inode_table s)[i := nd1], disk_blocks := (disk_blocks s)[nat b := 1]\<rparr>)"
    using sc b(2) by (simp add: get_block_def)
  have "nd1\<lparr>i_blocks := b # replicate 11 (-1)\<rparr> = nd" by (simp add: nd1_def nd0_def nd_def)
  then have g4: "set_blocks (int i) 0 b (s\<lparr>inode_table := (inode_table s)[i := nd1], disk_blocks := (disk_blocks s)[nat b := 1]\<rparr>) = Some sD"
    using i(1) rep by (simp add: set_blocks_def upd_inode_def sD_def nd1_def nd0_def arr_set_in)
  have g5: "get_mapping sD = (int m, sD\<lparr>name_table := (name_table s)[m := (name_table s ! m)\<lparr>p_avail := 1\<rparr>]\<rparr>)"
    using get_mapping_law [of sD m] C(10) by (simp add: sD_def)
  have g6: "enter_path (int m) path (int i) (sD\<lparr>name_table := (name_table s)[m := (name_table s ! m)\<lparr>p_avail := 1\<rparr>]\<rparr>) =
      Some (sD\<lparr>name_table := nt1\<rparr>)"
    using C(4) i(2) sprintf_plain [OF C(3)] by (simp add: enter_path_def nt1_def)
  have g7: "enter_cwd path (sD\<lparr>name_table := nt1\<rparr>) = Some s1"
    using sp(1) lk(1) i(3) C(12,13) by (simp add: enter_cwd_def path_lookup_def nt1_def s1_def sD_def)
  have neg: "\<not> path_lookup path s > 0" "\<not> int m < 0" "cwd_inode s1 = k" using C(5) by (simp_all add: s1_def)
  have txt1: "(''./'' @ print_int (int i) @ ''/../'' @ print_int (cwd_inode s1)) = ?t" unfolding neg(3) by (rule new_dir_text)
  have ev: "sfs_mkdir e path mode s = Some (0, s')"
    unfolding sfs_mkdir_def Let_def txt1
    using neg(1,2) a(1) by (simp only: if_False g1 g2 g3 g4 g5 g6 g7 gi d1(1) s2_def bind.bind_lunit prod.case txt1)
  have kl: "nat k < length (inode_table s)" using D(2,3) by simp
  have tabs: "name_table s' = nt1" "open_files s' = open_files s" "inode_table s' ! i = nd" "length (inode_table s') = length (inode_table s)"
      "disk_blocks s' = (disk_blocks s)[nat b := 1]" "\<And>j. j \<noteq> i \<Longrightarrow> j \<noteq> nat k \<Longrightarrow> inode_table s' ! j = inode_table s ! j"
      "i_blocks (inode_table s' ! nat k) = i_blocks (inode_table s ! nat k)" "i_avail (inode_table s' ! nat k) = i_avail (inode_table s ! nat k)"
      "st_size (i_stat (inode_table s' ! nat k)) = st_size (i_stat (inode_table s ! nat k)) + int (length ent) + 1"
      "st_nlink (i_stat (inode_table s' ! nat k)) = st_nlink (i_stat (inode_table s ! nat k)) + 1"
    using a(4) C(15) i(1) kl by (simp_all add: s2_def s1_def)
  have Bs: "B s' x = (if x = b then ?t @ zeros (512 - length ?t) else B s x)" if "x \<noteq> dir_block s k" for x
    using a(3) k2(1) that by (simp add: dir_block_def) (simp add: s2_def d1(3))
  have di: "dir_at s' (int i) [(''.'', int i), (''..'', k)]" "dir_block s' (int i) = b"
  proof -
    have "dir_blocks 512 \<noteq> 0" by (simp add: dir_blocks_def c_num)
    then show "dir_at s' (int i) [(''.'', int i), (''..'', k)]" "dir_block s' (int i) = b"
      using dir_at_written [of s' "int i" b "[(''.'', int i), (''..'', k)]" "replicate 11 (-1)"] dir_atD(1) [OF a(2)] tabs(3,4) i(1) Bs [of b] db tl b(2,3) D(2)
      by (simp_all add: nd_def new_stat_def name_ok_def)
  qed
  have al: "allocd s' x \<longleftrightarrow> allocd s x \<or> x = b" for x
    using allocd_upd [OF b(2,3), of s x] D(1) tabs(5) by (simp add: fs_base_def allocd_def)
  have nf: "Suc (nfree s') = nfree s" using b(5) by (simp add: nfree_def tabs(5))
  have dk: "dir_block s' k = dir_block s k" by (simp add: dir_block_def tabs(7))
  have nt: "name_table s' ! m = \<lparr>p_avail = 1, p_ino = int i, p_path = path\<rparr>" "j \<noteq> m \<Longrightarrow> name_table s' ! j = name_table s ! j" for j
    using i(2) by (simp_all add: tabs(1) nt1_def)
  have lk': "path_lookup path s' = int m" "path_lookup dp s' = int pm"
    using lk by (simp_all add: path_lookup_def tabs(1))
  have "dir_made e mode s d n i m k es b s'"
    unfolding dir_made_def path_def [symmetric] ent_def [symmetric]
    using lk'(1) nt tabs di a(2) dk b(4) al nf Bs
    by (simp add: nd_def nt1_def)
  moreover have "p_ino (name_table s' ! pm) = k" using nt(2) C(12,13) by simp
  ultimately show ?thesis using ev lk'(2) unfolding path_def [symmetric] dp_def [symmetric] by blast
qed

text \<open>
  Claim C33. Making a directory. The call returns 0; the path leads to a new inode, a directory with two links that
  lists \<^verbatim>\<open>.\<close> and \<^verbatim>\<open>..\<close> with the numbers of itself and of its parent, in a block that was free; the parent lists it last,
  and no other block, inode, name or handle changes.
\<close>

theorem mkdir_makes_directory:
  assumes "can_mkdir s d n i m pm k es"
  shows "\<exists>s' b. sfs_mkdir e (d @ SLASH # n) mode s = Some (0, s') \<and> dir_made e mode s d n i m k es b s' \<and>
    sfs_readdir (d @ SLASH # n) s' = Some (0, [''.'', ''..'']) \<and>
    sfs_readdir (if d = [] then ''/'' else d) s' = Some (0, map fst es @ [n])"
proof -
  obtain s' b where s': "sfs_mkdir e (d @ SLASH # n) mode s = Some (0, s')" "dir_made e mode s d n i m k es b s'"
      "path_lookup (if d = [] then ''/'' else d) s' = int pm" "p_ino (name_table s' ! pm) = k"
    using mkdir_law [OF assms] by blast
  have l: "m < length (name_table s')" "pm < length (name_table s')"
    using s'(2,3) by (simp_all add: dir_made_def path_lookup_def scan_eq_int)
  have dm: "path_lookup (d @ SLASH # n) s' = int m" "p_ino (name_table s' ! m) = int i"
      "dir_at s' (int i) [(''.'', int i), (''..'', k)]" "dir_at s' k (es @ [(n, int i)])"
    using s'(2) unfolding dir_made_def by blast+
  have "sfs_readdir (d @ SLASH # n) s' = Some (0, map fst [(''.'', int i), (''..'', k)])"
    by (rule readdir_law [OF dm(1) l(1) dm(2,3)])
  moreover have "sfs_readdir (if d = [] then ''/'' else d) s' = Some (0, map fst (es @ [(n, int i)]))"
    by (rule readdir_law [OF s'(3) l(2) s'(4) dm(4)])
  ultimately show ?thesis using s'(1,2) by auto
qed

section \<open>Removing a directory\<close>

text \<open>\<open>s'\<close> is \<open>s\<close> without the entry of directory \<open>i\<close> in directory \<open>k\<close>: its inode has lost one link.\<close>

definition dir_removed :: "sfs \<Rightarrow> string \<Rightarrow> string \<Rightarrow> nat \<Rightarrow> nat \<Rightarrow> int \<Rightarrow> (string \<times> int) list \<Rightarrow> sfs \<Rightarrow> bool" where
  "dir_removed s d n i m k es s' \<longleftrightarrow>
     path_lookup (d @ SLASH # n) s' = -1 \<and> name_table s' = (name_table s)[m := \<lparr>p_avail = 0, p_ino = -1, p_path = []\<rparr>] \<and>
     inode_table s' ! i = (inode_table s ! i)\<lparr>i_stat := (i_stat (inode_table s ! i))\<lparr>st_nlink := 1\<rparr>\<rparr> \<and>
     disk_blocks s' = disk_blocks s \<and> dir_at s' k es \<and> dir_block s' k = dir_block s k \<and>
     st_size (i_stat (inode_table s' ! nat k)) = st_size (i_stat (inode_table s ! nat k)) - (512 - int (length (dir_text es))) \<and>
     (\<forall>x. x \<noteq> dir_block s k \<longrightarrow> B s' x = B s x) \<and>
     (\<forall>j. j \<noteq> i \<longrightarrow> j \<noteq> nat k \<longrightarrow> inode_table s' ! j = inode_table s ! j) \<and>
     i_avail (inode_table s' ! nat k) = i_avail (inode_table s ! nat k) \<and>
     open_files s' = open_files s \<and> length (inode_table s') = length (inode_table s)"

lemma rmdir_law:
  assumes c: "can_remove s d n i m pm k es fs" and two: "st_nlink (i_stat (inode_table s ! i)) = 2"
  shows "\<exists>s'. sfs_rmdir (d @ SLASH # n) s = Some (0, s') \<and> dir_removed s d n i m k (es @ fs) s' \<and>
    path_lookup (if d = [] then ''/'' else d) s' = int pm \<and> p_ino (name_table s' ! pm) = k"
proof -
  define path where "path = d @ SLASH # n"
  define dp where "dp = (if d = [] then ''/'' else d)"
  have C: "path_lookup path s = int m" "\<And>j. j < length (name_table s) \<Longrightarrow> j \<noteq> m \<Longrightarrow> p_path (name_table s ! j) \<noteq> path"
      "p_ino (name_table s ! m) = int i" "i < length (inode_table s)" "path_lookup dp s = int pm" "p_ino (name_table s ! pm) = k"
      "nat k \<noteq> i" "pm \<noteq> m" "path \<noteq> []" "dp \<noteq> []" "dir_at s k (es @ (n, int i) # fs)"
    using c by (simp_all add: can_remove_def Let_def path_def dp_def)
  have m: "m < length (name_table s)" "pm < length (name_table s)" using C(1,5) by (simp_all add: path_lookup_def scan_eq_int)
  have kl: "nat k < length (inode_table s)" using dir_atD(2,3) [OF C(11)] by simp
  obtain s1 where s1: "store_dir (dir_entry n (int i)) (st_size (i_stat (inode_table s ! nat k)))
        (dir_text (es @ (n, int i) # fs)) (s\<lparr>cwd_inode := k\<rparr>) = Some s1" "dir_at s1 k (es @ fs)"
      "\<And>x. x \<noteq> dir_block s k \<Longrightarrow> B s1 x = B s x" "name_table s1 = name_table s" "inode_table s1 ! i = inode_table s ! i"
      "\<And>j. j \<noteq> nat k \<Longrightarrow> inode_table s1 ! j = inode_table s ! j" "length (inode_table s1) = length (inode_table s)"
      "disk_blocks s1 = disk_blocks s" "st_size (i_stat (inode_table s1 ! nat k)) = st_size (i_stat (inode_table s ! nat k)) - (512 - int (length (dir_text (es @ fs))))"
      "open_files s1 = open_files s" "i_blocks (inode_table s1 ! nat k) = i_blocks (inode_table s ! nat k)"
      "i_avail (inode_table s1 ! nat k) = i_avail (inode_table s ! nat k)"
    using store_dir_law [OF c] C(7) kl by (auto simp: Let_def)
  define nd where "nd = (inode_table s ! i)\<lparr>i_stat := (i_stat (inode_table s ! i))\<lparr>st_nlink := 1\<rparr>\<rparr>"
  have f: "free_inode (int i) s1 = Some (s1\<lparr>inode_table := (inode_table s1)[i := nd]\<rparr>)"
    using two C(4) s1(5,7) by (simp add: free_inode_def upd_stat_def upd_inode_def nd_def)
  define nt where "nt = (name_table s)[m := \<lparr>p_avail = 0, p_ino = -1, p_path = []\<rparr>]"
  define s' where "s' = s1\<lparr>inode_table := (inode_table s1)[i := nd], name_table := nt\<rparr>"
  have ev: "sfs_rmdir path s = Some (0, s')"
    using C(1,3,4) load_dir_law [OF c] s1(1,4) f m(1) two
    by (simp add: sfs_rmdir_def path_def [symmetric] drop_path_def free_mapping_def Let_def s'_def nt_def)
  have "p_path (nt ! j) \<noteq> path" if "j < length nt" for j
    using that C(2) [of j] C(9) by (cases "j = m") (auto simp: nt_def)
  then have "\<forall>x \<in> set nt. p_path x \<noteq> path" by (metis in_set_conv_nth)
  then have gone: "path_lookup path s' = -1" by (simp add: path_lookup_def s'_def scan_none)
  have lk: "path_lookup dp s' = int pm"
    using C(5,8,10) scan_update [of "\<lambda>x. p_path x = dp" "name_table s" pm m "\<lparr>p_avail = 0, p_ino = -1, p_path = []\<rparr>"]
    by (simp add: path_lookup_def s'_def nt_def)
  have da: "dir_at s' k (es @ fs)"
    by (rule dir_at_frame [OF s1(2)]) (use dir_atD(1) [OF s1(2)] C(7) in \<open>simp_all add: s'_def fs_base_def\<close>)
  have "dir_removed s d n i m k (es @ fs) s'"
    unfolding dir_removed_def path_def [symmetric]
    using gone da C(4,7) s1 by (simp add: s'_def nt_def nd_def dir_block_def)
  moreover have "p_ino (name_table s' ! pm) = k" using C(6,8) by (simp add: s'_def nt_def)
  ultimately show ?thesis using ev lk unfolding path_def [symmetric] dp_def [symmetric] by blast
qed

lemma rmdir_refuses:
  assumes c: "can_remove s d n i m pm k es fs" and more: "2 < st_nlink (i_stat (inode_table s ! i))"
  shows "sfs_rmdir (d @ SLASH # n) s = Some (-ENOTEMPTY, s\<lparr>cwd_inode := k\<rparr>)"
proof -
  have C: "path_lookup (d @ SLASH # n) s = int m" "p_ino (name_table s ! m) = int i" "i < length (inode_table s)"
    using c by (simp_all add: can_remove_def)
  moreover have "m < length (name_table s)" using C(1) by (simp add: path_lookup_def scan_eq_int)
  ultimately show ?thesis using load_dir_law [OF c] more by (simp add: sfs_rmdir_def Let_def)
qed

text \<open>
  Claim C34. Removing a directory. One with more than two links is refused and only the current directory changes. Otherwise the call
  returns 0, the path is unknown and the parent lists the other entries, but \<open>free_inode\<close> only takes one of the two links
  of a directory away: its inode and its block stay allocated for ever, as no path leads to them any more.
\<close>

theorem rmdir_leaks_inode:
  assumes c: "can_remove s d n i m pm k es fs"
  shows "if 2 < st_nlink (i_stat (inode_table s ! i))
    then sfs_rmdir (d @ SLASH # n) s = Some (-ENOTEMPTY, s\<lparr>cwd_inode := k\<rparr>)
    else st_nlink (i_stat (inode_table s ! i)) = 2 \<longrightarrow>
      (\<exists>s'. sfs_rmdir (d @ SLASH # n) s = Some (0, s') \<and> dir_removed s d n i m k (es @ fs) s' \<and>
         sfs_readdir (if d = [] then ''/'' else d) s' = Some (0, map fst (es @ fs)))"
proof (cases "2 < st_nlink (i_stat (inode_table s ! i))")
  case True
  then show ?thesis using rmdir_refuses [OF c] by simp
next
  case False
  have "\<exists>s'. sfs_rmdir (d @ SLASH # n) s = Some (0, s') \<and> dir_removed s d n i m k (es @ fs) s' \<and>
      sfs_readdir (if d = [] then ''/'' else d) s' = Some (0, map fst (es @ fs))"
    if two: "st_nlink (i_stat (inode_table s ! i)) = 2"
  proof -
    obtain s' where s': "sfs_rmdir (d @ SLASH # n) s = Some (0, s')" "dir_removed s d n i m k (es @ fs) s'"
        "path_lookup (if d = [] then ''/'' else d) s' = int pm" "p_ino (name_table s' ! pm) = k"
      using rmdir_law [OF c two] by blast
    have "pm < length (name_table s')" using s'(3) by (simp add: path_lookup_def scan_eq_int)
    then have "sfs_readdir (if d = [] then ''/'' else d) s' = Some (0, map fst (es @ fs))"
      by (rule readdir_law [OF s'(3) _ s'(4)]) (use s'(2) in \<open>simp add: dir_removed_def\<close>)
    then show ?thesis using s'(1,2) by blast
  qed
  then show ?thesis using False by simp
qed

section \<open>The theorems applied\<close>

theorem mkdir_makes_directory_witness:
  "\<exists>s'. sfs_mkdir \<lparr>e_uid = 0, e_gid = 0, e_time = 0, e_access = 0\<rparr> ''/a'' 0x1ED demo_root = Some (0, s') \<and>
     sfs_readdir ''/a'' s' = Some (0, [''.'', ''..'']) \<and> sfs_readdir ''/'' s' = Some (0, [''.'', ''..'', ''a''])"
proof -
  have "nfree demo_root = 32767" "allocd demo_root (dir_block demo_root 0)" "length (inode_table demo_root) \<le> 128"
    by (simp_all add: nfree_def demo_tree_def allocd_def dir_block_def)
  then have "can_mkdir demo_root [] ''a'' 1 1 0 0 [(''.'', 0), (''..'', 0)]"
    using demo_can_create unfolding can_mkdir_def can_create_def by simp
  from mkdir_makes_directory [OF this, of "\<lparr>e_uid = 0, e_gid = 0, e_time = 0, e_access = 0\<rparr>" "0x1ED"] show ?thesis by auto
qed

theorem rmdir_leaks_inode_witness:
  "\<exists>s'. sfs_rmdir ''/a'' (demo_tree ''./0/../0/a/1'' [\<lparr>i_avail = 1, i_stat = zero_stat\<lparr>st_nlink := 2\<rparr>, i_blocks = replicate 12 (-1)\<rparr>]
       [\<lparr>p_avail = 1, p_ino = 1, p_path = ''/a''\<rparr>]) = Some (0, s') \<and>
     sfs_readdir ''/'' s' = Some (0, [''.'', ''..''])"
proof -
  let ?nd = "\<lparr>i_avail = 1, i_stat = zero_stat\<lparr>st_nlink := 2\<rparr>, i_blocks = replicate 12 (-1)\<rparr>"
  have "st_nlink (i_stat (inode_table (demo_tree ''./0/../0/a/1'' [?nd] [\<lparr>p_avail = 1, p_ino = 1, p_path = ''/a''\<rparr>]) ! 1)) = 2"
    by (simp add: demo_tree_def)
  then show ?thesis using rmdir_leaks_inode [OF demo_can_remove, of ?nd] by auto
qed

end
