(* ===== verification/Sfs_Overwrite.thy ===== *)
theory Sfs_Overwrite
  imports Sfs_File_Data
begin

text \<open>
  \<open>sfs_write\<close> inside a file: the exact bytes of all blocks of the file after a write that needs no new
  block. The code reads only the first of the blocks it is going to store and takes zeros for the others.
\<close>

section \<open>The bytes of a file's blocks\<close>

text \<open>All bytes of the blocks of a file, also those behind its size.\<close>

definition file_bytes :: "sfs \<Rightarrow> int \<Rightarrow> string" where
  "file_bytes s k = concat (map (B s) (file_blocks s k))"

lemma file_data_bytes: "file_data s k = take (file_size s k) (file_bytes s k)"
  by (simp add: file_data_def file_bytes_def)

lemma file_bytes_length: "file_ok s k \<Longrightarrow> length (file_bytes s k) = 512 * ((file_size s k + 511) div 512)"
  using length_blocks [of "map (B s) (file_blocks s k)"] file_okD(9) [of s k] by (simp add: file_bytes_def data_def)

text \<open>Blocks \<open>a\<close> to \<open>a + n\<close> of a list of blocks replaced by \<open>cont\<close>.\<close>

lemma window_concat:
  assumes "\<forall>x \<in> set (take a xs) \<union> set (drop (a + n) xs). g x = f x" and "concat (map g (take n (drop a xs))) = cont"
    and "\<forall>x. length (f x) = 512"
  shows "concat (map g xs) = take (512 * a) (concat (map f xs)) @ cont @ drop (512 * (a + n)) (concat (map f xs))"
proof -
  have f: "\<forall>x \<in> set (map f xs). length x = 512" using assms(3) by simp
  have "xs = take a xs @ take n (drop a xs) @ drop (a + n) xs"
    by (metis add.commute append_take_drop_id drop_drop)
  then have "map g xs = map f (take a xs) @ map g (take n (drop a xs)) @ map f (drop (a + n) xs)"
    using assms(1) by (metis (no_types, lifting) UnCI map_append map_cong)
  then show ?thesis
    using assms(2) take_blocks [OF f, of a] drop_blocks [OF f, of "a + n"] by (simp add: take_map drop_map)
qed

lemma overwrite_keeps_length: "bo + length buf \<le> length xs \<Longrightarrow> length (overwrite xs bo buf) = length xs"
  by (simp add: overwrite_def)

lemma nth_overwrite:
  assumes "bo + length buf \<le> length xs" "q < length xs"
  shows "overwrite xs bo buf ! q = (if q < bo then xs ! q else if q < bo + length buf then buf ! (q - bo) else xs ! q)"
proof -
  consider "q < bo" | "bo \<le> q" "q < bo + length buf" | "bo + length buf \<le> q" by linarith
  then show ?thesis
  proof cases
    case 1
    then have "length (take bo xs) = bo" using assms by simp
    then show ?thesis using 1 by (simp add: overwrite_def nth_append)
  next
    case 2
    then have "length (take bo xs) = bo" "q - bo < length buf" using assms by auto
    then show ?thesis using 2 by (simp add: overwrite_def nth_append)
  next
    case 3
    have "length (take bo xs @ buf) = bo + length buf" using assms by simp
    then show ?thesis using 3 assms by (simp add: overwrite_def append_assoc [symmetric] nth_append del: append_assoc)
  qed
qed

text \<open>The bytes after the write, position by position.\<close>

lemma window_bytes:
  fixes old buf :: string
  assumes "bo < 512" "bo + length buf \<le> 512 * n" "0 < n" "512 * (a + n) \<le> length old"
  defines "cont \<equiv> overwrite (take 512 (drop (512 * a) old) @ zeros (512 * n - 512)) bo buf"
    and "off \<equiv> 512 * a + bo"
  shows "length cont = 512 * n"
    "p < length old \<Longrightarrow> (take (512 * a) old @ cont @ drop (512 * (a + n)) old) ! p =
      (if off \<le> p \<and> p < off + length buf then buf ! (p - off)
       else if 512 * (a + 1) \<le> p \<and> off + length buf \<le> p \<and> p < 512 * (a + n) then NUL else old ! p)"
proof -
  let ?x = "take 512 (drop (512 * a) old) @ zeros (512 * n - 512)"
  have l: "length ?x = 512 * n" using assms(3,4) by simp
  show lc: "length cont = 512 * n" using assms(2) l overwrite_keeps_length [of bo buf ?x] by (simp add: cont_def)
  assume p: "p < length old"
  have c: "cont ! q = (if q < bo then old ! (512 * a + q) else if q < bo + length buf then buf ! (q - bo)
      else if q < 512 then old ! (512 * a + q) else NUL)" if q: "q < 512 * n" for q
  proof -
    have x: "?x ! q = (if q < 512 then old ! (512 * a + q) else NUL)"
    proof -
      have "512 * (a + 1) \<le> 512 * (a + n)" using assms(3) by (intro mult_le_mono2) simp
      then have "512 * a + 512 \<le> length old" using assms(4) by simp
      then show ?thesis using q by (simp add: nth_append)
    qed
    have "cont ! q = (if q < bo then ?x ! q else if q < bo + length buf then buf ! (q - bo) else ?x ! q)"
      using nth_overwrite [of bo buf ?x q] q assms(2) l by (simp add: cont_def)
    then show ?thesis unfolding x using assms(1) by simp
  qed
  consider "p < 512 * a" | "512 * a \<le> p" "p < 512 * (a + n)" | "512 * (a + n) \<le> p" by linarith
  then show "(take (512 * a) old @ cont @ drop (512 * (a + n)) old) ! p =
      (if off \<le> p \<and> p < off + length buf then buf ! (p - off)
       else if 512 * (a + 1) \<le> p \<and> off + length buf \<le> p \<and> p < 512 * (a + n) then NUL else old ! p)"
  proof cases
    case 1
    then show ?thesis using p by (simp add: nth_append off_def)
  next
    case 2
    define q where "q = p - 512 * a"
    have q: "p = 512 * a + q" "q < 512 * n" using 2 by (simp_all add: q_def)
    have "(take (512 * a) old @ cont @ drop (512 * (a + n)) old) ! p = cont ! q"
      using q lc assms(4) by (simp add: nth_append)
    then show ?thesis using c [OF q(2)] q by (auto simp: off_def)
  next
    case 3
    have "length (take (512 * a) old @ cont) = 512 * (a + n)" using lc assms(4) by simp
    then have "((take (512 * a) old @ cont) @ drop (512 * (a + n)) old) ! p = old ! p"
      using p 3 by (simp add: nth_append del: append_assoc)
    then have "(take (512 * a) old @ cont @ drop (512 * (a + n)) old) ! p = old ! p" by simp
    then show ?thesis using 3 assms(2) by (simp add: off_def)
  qed
qed

section \<open>Writing inside a file\<close>

lemma file_has_blocks: "file_ok s k \<Longrightarrow> has_blocks s k ((file_size s k + 511) div 512)"
  using file_okD [of s k] unfolding has_blocks_def Let_def by simp

lemma write_counts:
  fixes off len sz :: nat
  assumes "0 < len" "off \<le> sz" "off + len \<le> 512 * ((sz + 511) div 512)"
  defines "n \<equiv> (off mod 512 + len + 511) div 512"
  shows "off div 512 + n \<le> (sz + 511) div 512" "0 < n" "off = 512 * (off div 512) + off mod 512"
    "off div 512 + n = (off + len + 511) div 512" "off mod 512 + len \<le> 512 * n"
proof -
  note C = start_counts [OF assms(1), of off, folded n_def]
  have "(off + len + 511) div 512 \<le> (512 * ((sz + 511) div 512) + 511) div 512"
    using assms(3) by (intro div_le_mono) simp
  also have "\<dots> = (sz + 511) div 512" by simp
  finally show "off div 512 + n \<le> (sz + 511) div 512" using C(1) by simp
  show "0 < n" "off = 512 * (off div 512) + off mod 512" "off div 512 + n = (off + len + 511) div 512" by (rule C)+
  show "off mod 512 + len \<le> 512 * n" unfolding n_def by (rule ceil_ge)
qed

text \<open>\<open>s'\<close> is \<open>s\<close> with \<open>buf\<close> written over file \<open>k\<close> at \<open>off\<close>.\<close>

definition overwritten :: "sfs \<Rightarrow> int \<Rightarrow> nat \<Rightarrow> string \<Rightarrow> sfs \<Rightarrow> bool" where
  "overwritten s k off buf s' \<longleftrightarrow>
     (let nd = inode_table s ! nat k; old = file_bytes s k; end = off + length buf
      in s' = s\<lparr>sdisk := sdisk s', inode_table := (inode_table s)[nat k :=
            nd\<lparr>i_stat := (i_stat nd)\<lparr>st_size := st_size (i_stat nd) + int (length buf)\<rparr>\<rparr>]\<rparr> \<and>
         fs_base s' \<and> file_blocks s' k = file_blocks s k \<and> length (file_bytes s' k) = length old \<and>
         (\<forall>p < length old. file_bytes s' k ! p =
            (if off \<le> p \<and> p < end then buf ! (p - off)
             else if 512 * (off div 512 + 1) \<le> p \<and> end \<le> p \<and> p < 512 * ((end + 511) div 512) then NUL
             else old ! p)) \<and>
         (\<forall>x. x \<notin> set (file_blocks s k) \<longrightarrow> B s' x = B s x))"

lemma overwrite_blocks_law:
  assumes ok: "file_ok s k" and l: "0 < length buf" and off: "off \<le> file_size s k"
    and fit: "off + length buf \<le> 512 * ((file_size s k + 511) div 512)"
  defines "n \<equiv> (off mod 512 + length buf + 511) div 512" and "b \<equiv> file_blocks s k ! (off div 512)"
  shows "\<exists>s' s2. get_block_index k (int (off div 512)) s = Some b \<and>
    write_loop k (int (off div 512)) n (overwrite (B s b @ zeros (512 * n - 512)) (off mod 512) buf) s = Some s2 \<and>
    upd_stat k (\<lambda>t. t\<lparr>st_size := st_size t + int (length buf)\<rparr>) s2 = Some s' \<and> overwritten s k off buf s'"
proof -
  define a where "a = off div 512"
  define bo where "bo = off mod 512"
  define m where "m = (file_size s k + 511) div 512"
  define nd where "nd = inode_table s ! nat k"
  define D where "D = data (B s) (i_blocks nd) m"
  define old where "old = file_bytes s k"
  note F = file_okD [OF ok, folded nd_def, folded m_def]
  note C = write_counts [OF l off fit, folded n_def, folded a_def bo_def m_def]
  have fb: "file_blocks s k = D" using F(9) by (simp add: D_def)
  have lD: "length D = m" by (simp add: D_def data_def)
  have dis: "distinct D" "set D \<inter> set (meta (B s) (i_blocks nd) m) = {}" using F(6) by (auto simp: map_ok_def D_def)
  have am: "a < m" using C(1,2) by simp
  have gb: "get_block_index k (int a) s = Some b"
    using get_block_index_law [OF F(1,2,3) refl, of a] F(7,8) am by (simp add: nd_def [symmetric] b_def fb D_def data_def a_def [symmetric])
  have lo: "length old = 512 * m" using file_bytes_length [OF ok] by (simp add: old_def m_def)
  have fit2: "512 * (a + n) \<le> length old" using C(1) lo by simp
  have Bb: "B s b = take 512 (drop (512 * a) old)"
  proof -
    have bl: "\<forall>x \<in> set (map (B s) D). length x = 512" by simp
    have "drop (512 * a) old = concat (map (B s) (drop a D))"
      using drop_blocks [OF bl, of a] by (simp add: old_def file_bytes_def fb drop_map)
    then show ?thesis using am lD by (simp add: Cons_nth_drop_Suc [symmetric] b_def fb a_def)
  qed
  define cont where "cont = overwrite (B s b @ zeros (512 * n - 512)) bo buf"
  have bo: "bo < 512" by (simp add: bo_def)
  note W = window_bytes [OF bo C(5,2) fit2, folded Bb, folded cont_def]
  obtain d where d: "write_loop k (int a) n cont s = Some (s\<lparr>sdisk := d\<rparr>)" "disk_ok d"
      "\<And>x. x \<notin> set (take n (drop a D)) \<Longrightarrow> blk d x = B s x" "concat (map (blk d) (take n (drop a D))) = cont"
    using write_window_law [OF file_has_blocks [OF ok] _ W(1), of a] C(1) by (auto simp: m_def [symmetric] nd_def [symmetric] D_def)
  define nd' where "nd' = nd\<lparr>i_stat := (i_stat nd)\<lparr>st_size := st_size (i_stat nd) + int (length buf)\<rparr>\<rparr>"
  define s' where "s' = s\<lparr>sdisk := d, inode_table := (inode_table s)[nat k := nd']\<rparr>"
  have kl: "nat k < length (inode_table s)" using F(2,3) by simp
  have us: "upd_stat k (\<lambda>t. t\<lparr>st_size := st_size t + int (length buf)\<rparr>) (s\<lparr>sdisk := d\<rparr>) = Some s'"
    using F(2,3) by (simp add: upd_stat_def upd_inode_def arr_get_in arr_set_in s'_def nd'_def nd_def)
  have s': "inode_table s' ! nat k = nd'" "B s' = blk d" "fs_base s'"
    using kl F(1) d(2) by (simp_all add: s'_def fs_base_def)
  have part: "take a D @ take n (drop a D) @ drop (a + n) D = D" by (metis add.commute append_take_drop_id drop_drop)
  then have dj: "distinct (take a D @ take n (drop a D) @ drop (a + n) D)" using dis(1) by simp
  have out: "blk d x = B s x" if "x \<in> set (take a D) \<union> set (drop (a + n) D)" for x
    using that dj d(3) [of x] by (auto simp: disjoint_iff)
  have sub: "set (take n (drop a D)) \<subseteq> set D" by (metis set_drop_subset set_take_subset order_trans)
  have "blk d x = B s x" if "x \<in> set (meta (B s) (i_blocks nd) m)" for x
    using that dis(2) sub d(3) by blast
  note M = map_cong_meta [OF F(6) this]
  have fb': "file_blocks s' k = D"
    using M(3) F(5) by (simp add: file_blocks_def s' Let_def nd'_def D_def m_def)
  have "concat (map (blk d) D) = take (512 * a) old @ cont @ drop (512 * (a + n)) old"
    unfolding old_def file_bytes_def fb by (rule window_concat) (use out d(4) in auto)
  then have nb: "file_bytes s' k = take (512 * a) old @ cont @ drop (512 * (a + n)) old"
    by (simp add: file_bytes_def fb' s')
  have "length (file_bytes s' k) = length old" unfolding nb using W(1) fit2 by simp
  moreover have e: "512 * ((off + length buf + 511) div 512) = 512 * (a + n)" using C(4) by simp
  then have "\<forall>p < length old. file_bytes s' k ! p = (if off \<le> p \<and> p < off + length buf then buf ! (p - off)
      else if 512 * (off div 512 + 1) \<le> p \<and> off + length buf \<le> p \<and> p < 512 * ((off + length buf + 511) div 512) then NUL
      else old ! p)"
    using W(2) [folded C(3)] unfolding nb a_def [symmetric] e by blast
  moreover have "\<forall>x. x \<notin> set D \<longrightarrow> B s' x = B s x" using sub d(3) s'(2) by auto
  moreover have "s' = s\<lparr>sdisk := sdisk s', inode_table := (inode_table s)[nat k :=
      nd\<lparr>i_stat := (i_stat nd)\<lparr>st_size := st_size (i_stat nd) + int (length buf)\<rparr>\<rparr>]\<rparr>" by (simp add: s'_def nd'_def)
  ultimately have "overwritten s k off buf s'"
    unfolding overwritten_def Let_def fb fb' nd_def [symmetric] old_def [symmetric] using s'(3) by blast
  then show ?thesis using gb d(1) us by (auto simp: cont_def a_def bo_def)
qed

lemma no_growth:
  fixes off len sz :: nat
  assumes "off + len \<le> 512 * ((sz + 511) div 512)" "off + len < 549755813888" "sz < 549755813888"
  shows "\<not> u64 (int off + int len) > u64 ((c_div (int sz) 512 + (if c_mod (int sz) 512 \<noteq> 0 then 1 else 0)) * 512)"
proof -
  define nb where "nb = (sz + 511) div 512"
  have a: "c_div (int sz) 512 + (if c_mod (int sz) 512 \<noteq> 0 then 1 else 0) = int nb"
    using grow_counts(1) [of sz 0] assms(3) by (simp add: nb_def)
  have "512 * nb \<le> sz + 511" unfolding nb_def by (rule times_div_less_eq_dividend)
  then have "u64 (int nb * 512) = int nb * 512" using assms(3) by (intro u64_id) auto
  moreover have "u64 (int off + int len) = int off + int len" using assms(2) by (intro u64_id) auto
  moreover have "int off + int len \<le> int nb * 512"
    using assms(1) unfolding nb_def [symmetric] by (simp flip: of_nat_add of_nat_mult add: mult.commute)
  ultimately show ?thesis unfolding a by simp
qed

lemma sfs_write_inside:
  assumes ok: "file_ok s k" and fh: "opened s fh k" and buf: "buf \<noteq> []" and off: "off \<le> file_size s k"
    and fit: "off + length buf \<le> 512 * ((file_size s k + 511) div 512)"
  shows "\<exists>s'. sfs_write fh buf (int off) s = Some (int (length buf), s') \<and> overwritten s k off buf s'"
proof -
  note D = file_okD [OF ok]
  define sz where "sz = file_size s k"
  define n where "n = (off mod 512 + length buf + 511) div 512"
  define a where "a = off div 512"
  have l: "0 < length buf" using buf by simp
  have "sz \<le> 512 * ((sz + 511) div 512)" by (rule ceil_ge)
  then have small: "off + length buf \<le> 568320" "sz \<le> 568320" using fit D(8) by (simp_all add: sz_def)
  note C = write_counts [OF l off fit, folded n_def]
  from overwrite_blocks_law [OF ok l off fit, folded n_def a_def] obtain s2 s' where
    w: "get_block_index k (int a) s = Some (file_blocks s k ! a)"
      "write_loop k (int a) n (overwrite (B s (file_blocks s k ! a) @ zeros (512 * n - 512)) (off mod 512) buf) s = Some s2"
      "upd_stat k (\<lambda>t. t\<lparr>st_size := st_size t + int (length buf)\<rparr>) s2 = Some s'" "overwritten s k off buf s'" by blast
  have xb: "xfer_blocks (int (length buf)) (int off) = int n"
    using xfer_blocks_law [of "int (length buf)" "int off"] small(1) by (simp add: n_def zdiv_int zmod_int)
  have st: "to_int (c_div (int off) 512) = int a" "c_mod (int off) 512 = int (off mod 512)"
      "to_int (int (length buf)) = int (length buf)"
    using small by (simp_all add: c_div_nonneg c_mod_nonneg zdiv_int zmod_int to_int_id a_def)
  have f: "arr_get (open_files s) fh = Some (open_files s ! nat fh)" "f_ino (open_files s ! nat fh) = k" "\<not> fh > 127" "\<not> k < 0"
    using fh by (auto simp: opened_def arr_get_in)
  have ng: "\<not> u64 (int off + int (length buf)) > u64 ((c_div (int sz) 512 + (if c_mod (int sz) 512 \<noteq> 0 then 1 else 0)) * 512)"
    by (rule no_growth) (use fit small in \<open>simp_all add: sz_def\<close>)
  have wr: "\<not> int n \<le> 0" "nat (int n * 512) - 512 = 512 * n - 512" "\<not> int (off mod 512) + int (length buf) > int n * 512"
      "nat (int n) = n" "nat (int (off mod 512)) = off mod 512" "\<not> int off > int sz"
    using C(2,5) off by (simp_all add: nat_mult_distrib zmod_int [symmetric] sz_def)
  have "sfs_write fh buf (int off) s = Some (int (length buf), s')"
    unfolding sfs_write_def Let_def
    using f D(2,3) w(1,2,3) ng wr xb rd_blk_law [OF D(1), of "zeros 512"]
    by (simp only: arr_get_in D(4) sz_def [symmetric] st if_False bind.bind_lunit prod.case
        less_irrefl length_replicate simp_thms)
  with w(4) show ?thesis by blast
qed

text \<open>
  Claim C14. Writing inside a file. The call returns the number of bytes and no inode but the file's, no block but the
  file's changes. Inside the blocks of the file, the bytes of the buffer are where they belong, but all
  bytes behind them in the last block written are zero when it is not the first one, and
  the size grows by the length of the buffer although the file does not.
\<close>

theorem sfs_write_overwrites:
  assumes "file_ok s k" "opened s fh k" "buf \<noteq> []" "off \<le> file_size s k"
    and "off + length buf \<le> 512 * ((file_size s k + 511) div 512)"
  shows "\<exists>s'. sfs_write fh buf (int off) s = Some (int (length buf), s') \<and> overwritten s k off buf s'"
  by (rule sfs_write_inside [OF assms])

theorem sfs_write_overwrites_witness:
  "\<exists>s'. sfs_write 0 ''J'' 0 (demo_fs 5 1 (0 # replicate 11 (-1))) = Some (1, s') \<and>
     overwritten (demo_fs 5 1 (0 # replicate 11 (-1))) 0 0 ''J'' s'"
  using sfs_write_overwrites [OF demo_hello_ok(1) demo_opened, of "''J''" 0] by (simp add: demo_hello_ok)

end
