(* ===== verification/Sfs_Dir_Sessions.thy ===== *)
theory Sfs_Dir_Sessions
  imports Sfs_Mount Sfs_Mkdir Sfs_Overwrite
begin

unbundle bit_operations_syntax

text \<open>
  Sessions with directories on a new disk, from the first mount on: a file in a new directory, and what
  the removal of a directory does to the files made after it.
\<close>

abbreviation root_entries :: "(string \<times> int) list" where "root_entries \<equiv> [(''.'', 0), (''..'', 0)]"

section \<open>A directory on a new disk\<close>

lemma formatted_no_path:
  assumes "formatted e s" "j < 128" "n \<noteq> []"
  shows "p_path (name_table s ! j) \<noteq> SLASH # n"
proof -
  have "p_path (name_table s ! 0) = ''/''"
    using assms(1) scan_eq_int [of "\<lambda>m. p_path m = ''/''" "name_table s" 0] by (simp add: formatted_def path_lookup_def)
  then show ?thesis using assms by (cases "j = 0") (auto simp: formatted_def)
qed

lemma lookup_none: "(\<And>j. j < length (name_table s) \<Longrightarrow> p_path (name_table s ! j) \<noteq> path) \<Longrightarrow> path_lookup path s = -1"
  unfolding path_lookup_def scan_none by (metis in_set_conv_nth)

lemma formatted_can_mkdir:
  assumes f: "formatted e s" "dir_at s 0 root_entries" and n: "name_ok n" "NUL \<notin> set n" "CHR ''%'' \<notin> set n" "length n < 127"
  shows "can_mkdir s [] n 1 1 0 0 root_entries"
  using formatted_can_create [OF f n] f(1) by (simp add: can_create_def can_mkdir_def formatted_def dir_block_def)

text \<open>The state after \<open>sfs_mkdir\<close> of \<open>/n\<close> on a new disk.\<close>

definition new_dir :: "fuse_env \<Rightarrow> 32 word \<Rightarrow> sfs \<Rightarrow> string \<Rightarrow> sfs \<Rightarrow> bool" where
  "new_dir e mode s n s' \<longleftrightarrow> (\<exists>b. dir_made e mode s [] n 1 1 0 root_entries b s' \<and> 0 < b) \<and>
     path_lookup ''/'' s' = 0 \<and> p_ino (name_table s' ! 0) = 0 \<and> st_size (i_stat (inode_table s' ! 0)) = 10 + int (length (dir_entry n 1)) \<and>
     nfree s' = 32766 \<and> (\<forall>j. 1 < j \<longrightarrow> j < 128 \<longrightarrow> i_avail (inode_table s' ! j) = 0 \<and> p_avail (name_table s' ! j) = 0 \<and> p_path (name_table s' ! j) = []) \<and>
     (\<forall>f \<in> set (open_files s'). f_ino f = -1) \<and> length (inode_table s') = 128 \<and> length (name_table s') = 128 \<and> length (open_files s') = 128 \<and>
     i_avail (inode_table s' ! 0) = 1 \<and> p_avail (name_table s' ! 0) = 1 \<and> p_path (name_table s' ! 0) = ''/'' \<and> dir_block s' 0 = 0"

lemma new_dir_law:
  assumes f: "formatted e s" "dir_at s 0 root_entries" and n: "name_ok n" "NUL \<notin> set n" "CHR ''%'' \<notin> set n" "length n < 127"
  shows "\<exists>s'. sfs_mkdir e (SLASH # n) mode s = Some (0, s') \<and> new_dir e mode s n s'"
proof -
  obtain s' b where s': "sfs_mkdir e (SLASH # n) mode s = Some (0, s')" "dir_made e mode s [] n 1 1 0 root_entries b s'"
      "path_lookup ''/'' s' = 0" "p_ino (name_table s' ! 0) = 0"
    using mkdir_law [OF formatted_can_mkdir [OF f n], of e mode] by auto
  note F = f(1) [unfolded formatted_def]
  note M = s'(2) [unfolded dir_made_def]
  have "allocd s' b" "\<not> allocd s b" "allocd s 0" using M F by blast+
  then have b: "0 < b" by (metis allocd_def order_le_less)
  have p0: "p_path (name_table s ! 0) = ''/''"
    using F scan_eq_int [of "\<lambda>m. p_path m = ''/''" "name_table s" 0] by (simp add: path_lookup_def)
  have z: "dir_block s 0 = 0" "st_size (i_stat (inode_table s ! 0)) = 9" using F by (simp_all add: dir_block_def new_stat_def)
  have lens: "length (inode_table s') = 128" "length (name_table s') = 128" "open_files s' = open_files s"
      "dir_block s' 0 = dir_block s 0" "Suc (nfree s') = nfree s"
      "st_size (i_stat (inode_table s' ! 0)) = st_size (i_stat (inode_table s ! 0)) + int (length (dir_entry n 1)) + 1"
      "i_avail (inode_table s' ! 0) = i_avail (inode_table s ! 0)" "name_table s' ! 0 = name_table s ! 0"
    using M F by simp_all
  have rest: "inode_table s' ! j = inode_table s ! j" "name_table s' ! j = name_table s ! j" if "1 < j" for j
    using M that by simp_all
  have "new_dir e mode s n s'"
    unfolding new_dir_def using s' b F z p0 lens rest by auto
  then show ?thesis using s'(1) by blast
qed

lemma new_dirD:
  assumes "new_dir e mode s n s'" "n \<noteq> []"
  shows "path_lookup (SLASH # n) s' = 1" "p_ino (name_table s' ! 1) = 1" "dir_at s' 1 [(''.'', 1), (''..'', 0)]"
    "dir_at s' 0 (root_entries @ [(n, 1)])" "i_stat (inode_table s' ! 1) = new_stat e (mode OR S_IFDIR) 2 512 1"
    "i_avail (inode_table s' ! 1) = 1" "p_avail (name_table s' ! 1) = 1" "p_path (name_table s' ! 1) = SLASH # n"
    "0 < dir_block s' 1" "allocd s' (dir_block s' 1)" "allocd s 0 \<Longrightarrow> allocd s' 0"
    "\<And>j. j < 128 \<Longrightarrow> j \<noteq> 1 \<Longrightarrow> p_path (name_table s' ! j) \<noteq> SLASH # n"
proof -
  obtain b where "dir_made e mode s [] n 1 1 0 root_entries b s'" "0 < b" using assms(1) by (auto simp: new_dir_def)
  note M = this(1) [unfolded dir_made_def]
  show "path_lookup (SLASH # n) s' = 1" "p_ino (name_table s' ! 1) = 1" "i_stat (inode_table s' ! 1) = new_stat e (mode OR S_IFDIR) 2 512 1"
    "i_avail (inode_table s' ! 1) = 1" "p_avail (name_table s' ! 1) = 1" "p_path (name_table s' ! 1) = SLASH # n"
    "0 < dir_block s' 1" "allocd s' (dir_block s' 1)" "allocd s 0 \<Longrightarrow> allocd s' 0"
    using M \<open>0 < b\<close> by simp_all
  show "dir_at s' 1 [(''.'', 1), (''..'', 0)]" "dir_at s' 0 (root_entries @ [(n, 1)])" using M by simp_all
  show "p_path (name_table s' ! j) \<noteq> SLASH # n" if "j < 128" "j \<noteq> 1" for j
    using assms that by (cases "j = 0") (auto simp: new_dir_def)
qed

lemma new_dir_can_remove:
  assumes d: "new_dir e mode s n s'" and n: "name_ok n" "length n < 125" "n \<notin> {''.'', ''..'', ''0'', ''1''}"
  shows "can_remove s' [] n 1 1 0 0 root_entries []"
proof -
  have "n \<noteq> []" using n(1) by (simp add: name_ok_def)
  note D = new_dirD [OF d this]
  show ?thesis
    by (rule new_entry_can_remove) (use D n d in \<open>simp_all add: new_dir_def\<close>)
qed

section \<open>Removing it again\<close>

lemma removed_can_create:
  assumes d: "new_dir e mode s n s2" and r: "dir_removed s2 [] n 1 1 0 root_entries s3" and rt: "path_lookup ''/'' s3 = 0" "p_ino (name_table s3 ! 0) = 0"
    and n: "n \<noteq> []" "length n < 125" and f: "name_ok f" "NUL \<notin> set f" "CHR ''%'' \<notin> set f" "length f < 125"
  shows "can_create s3 [] f 2 0 1 0 0 root_entries"
proof -
  note D = new_dirD [OF d n(1)] and N = d [unfolded new_dir_def] and R = r [unfolded dir_removed_def]
  have nt: "name_table s3 = (name_table s2)[1 := \<lparr>p_avail = 0, p_ino = -1, p_path = []\<rparr>]" using R by simp
  have fn: "f \<noteq> []" using f(1) by (simp add: name_ok_def)
  have "p_path (name_table s3 ! j) \<noteq> SLASH # f" if "j < length (name_table s3)" for j
  proof -
    consider "j = 0" | "j = 1" | "1 < j" by linarith
    then show ?thesis using N fn that by cases (simp_all add: nt)
  qed
  then have "path_lookup (SLASH # f) s3 = -1" by (rule lookup_none)
  moreover have "scan (\<lambda>x. i_avail x = 0) (inode_table s3) = int 2"
  proof -
    have e: "inode_table s3 ! 2 = inode_table s2 ! 2" "i_avail (inode_table s3 ! 1) = i_avail (inode_table s2 ! 1)"
        "i_avail (inode_table s3 ! 0) = i_avail (inode_table s2 ! 0)" "length (inode_table s3) = 128" using R N by simp_all
    have "i_avail (inode_table s3 ! j) \<noteq> 0" if "j < 2" for j
    proof -
      have "j = 0 \<or> j = 1" using that by linarith
      then show ?thesis using e N D(6) by auto
    qed
    then show ?thesis unfolding scan_eq_int using e N by simp
  qed
  moreover have "scan (\<lambda>x. p_avail x = 0) (name_table s3) = int 1" unfolding scan_eq_int using N by (simp add: nt)
  moreover have "get_fh s3 = int 0"
  proof -
    have "open_files s3 = open_files s2" using R by simp
    moreover have "open_files s2 ! 0 \<in> set (open_files s2)" using N by (intro nth_mem) simp
    ultimately show ?thesis unfolding get_fh_def scan_eq_int using N by auto
  qed
  moreover have "length (dir_entry n 1) = length n + 3" by (simp add: dir_entry_def print_int_def print_nat.simps)
  then have "st_size (i_stat (inode_table s3 ! 0)) = int (length n) - 491"
    using R N by (simp add: demo_text)
  moreover have "length (dir_entry f 2) = length f + 3" by (simp add: dir_entry_def print_int_def print_nat.simps)
  moreover have "length (dir_text root_entries) = 8" by (simp add: demo_text)
  moreover have "c_mod (int (length n) - 491) 512 \<le> 0" "dir_blocks (int (length n) + int (length f) - 487) \<noteq> 0"
    using n f by (simp_all add: c_mod_def c_div_def dir_blocks_def)
  moreover have "open_files s3 = open_files s2" "dir_at s3 0 root_entries" using R by simp_all
  ultimately show ?thesis
    using rt f N by (simp add: can_create_def can_enter_def Let_def)
qed

text \<open>
  Claim C8. What a removed directory does to later files. On a new disk, make a directory, remove it and create a file: all calls
  return 0 and the root lists the file, but the block of the directory stays allocated, and \<open>sfs_getattr\<close>,
  which takes the number of the name for the number of the inode, reports the file as the removed
  directory, with its mode, one link and 512 bytes.
\<close>

theorem getattr_after_rmdir:
  assumes d: "disk_open fd (sdisk s) = Some d" "fd_open d" and ju: "length (junk s) = 512" and al: "512 dvd length (dfile d)" "length (disk_blocks s) = 32768"
    and key: "\<forall>j. 1 \<le> j \<longrightarrow> j \<le> 32768 \<longrightarrow> take 8 (blk d (int j)) \<noteq> key_bytes"
    and n: "name_ok n" "NUL \<notin> set n" "CHR ''%'' \<notin> set n" "length n < 125" "n \<notin> {''.'', ''..'', ''0'', ''1''}"
    and f: "name_ok f" "NUL \<notin> set f" "CHR ''%'' \<notin> set f" "length f < 125"
  shows "\<exists>s1 s2 s3 s4. sfs_init load e fd s = Some s1 \<and> sfs_mkdir e (SLASH # n) mode s1 = Some (0, s2) \<and>
    sfs_rmdir (SLASH # n) s2 = Some (0, s3) \<and> sfs_create e (SLASH # f) fmode s3 = Some (0, Some 0, s4) \<and>
    sfs_readdir ''/'' s4 = Some (0, [''.'', ''..'', f]) \<and> Suc (nfree s4) = nfree s1 \<and>
    sfs_getattr e' (SLASH # f) s4 = Some (0, (new_stat e (mode OR S_IFDIR) 2 512 1)\<lparr>st_nlink := 1\<rparr>)"
proof -
  from first_mount_law [OF d ju al key, of load e] obtain s1 where
    s1: "sfs_init load e fd s = Some s1" "formatted e s1" "dir_at s1 0 root_entries" by blast
  from new_dir_law [OF s1(2,3) n(1-3), of mode] n(4) obtain s2 where
    s2: "sfs_mkdir e (SLASH # n) mode s1 = Some (0, s2)" "new_dir e mode s1 n s2" by auto
  have nn: "n \<noteq> []" using n(1) by (simp add: name_ok_def)
  note D = new_dirD [OF s2(2) nn]
  from rmdir_law [OF new_dir_can_remove [OF s2(2) n(1,4,5)]] D(5) obtain s3 where
    s3: "sfs_rmdir (SLASH # n) s2 = Some (0, s3)" "dir_removed s2 [] n 1 1 0 root_entries s3" "path_lookup ''/'' s3 = 0" "p_ino (name_table s3 ! 0) = 0"
    by (auto simp: new_stat_def)
  from create_file_law [OF removed_can_create [OF s2(2) s3(2,3,4) nn n(4) f], of e fmode] obtain s4 where
    s4: "sfs_create e (SLASH # f) fmode s3 = Some (0, Some 0, s4)" "path_lookup (SLASH # f) s4 = 1" "sfs_readdir ''/'' s4 = Some (0, [''.'', ''..'', f])"
      "\<forall>j. j \<noteq> 2 \<longrightarrow> j \<noteq> 0 \<longrightarrow> inode_table s4 ! j = inode_table s3 ! j" "disk_blocks s4 = disk_blocks s3" "length (inode_table s4) = length (inode_table s3)"
    by auto
  have "inode_table s4 ! 1 = (inode_table s2 ! 1)\<lparr>i_stat := (i_stat (inode_table s2 ! 1))\<lparr>st_nlink := 1\<rparr>\<rparr>" "length (inode_table s4) = 128"
    using s4(4,6) s3(2) s2(2) by (simp_all add: dir_removed_def new_dir_def)
  then have "sfs_getattr e' (SLASH # f) s4 = Some (0, (new_stat e (mode OR S_IFDIR) 2 512 1)\<lparr>st_nlink := 1\<rparr>)"
    using s4(2) D(5) by (simp add: sfs_getattr_def arr_get_in)
  moreover have "disk_blocks s3 = disk_blocks s2" using s3(2) by (simp add: dir_removed_def)
  then have "nfree s4 = nfree s2" using s4(5) by (simp add: nfree_def)
  then have "Suc (nfree s4) = nfree s1" using s1(2) s2(2) by (simp add: formatted_def new_dir_def)
  ultimately show ?thesis using s1(1) s2(1) s3(1) s4(1,3) by blast
qed

theorem getattr_after_rmdir_witness:
  "\<exists>s1 s2 s3 s4. sfs_init (\<lambda>_ s. s) demo_env 3 blank = Some s1 \<and> sfs_mkdir demo_env ''/d'' 0x1ED s1 = Some (0, s2) \<and>
     sfs_rmdir ''/d'' s2 = Some (0, s3) \<and> sfs_create demo_env ''/f'' 0x81A4 s3 = Some (0, Some 0, s4) \<and>
     sfs_getattr demo_env ''/f'' s4 = Some (0, (new_stat demo_env 0x41ED 2 512 1)\<lparr>st_nlink := 1\<rparr>)"
proof -
  have "(0x1ED :: 32 word) OR 0x4000 = 0x41ED" by simp
  then show ?thesis
    using getattr_after_rmdir [OF blank_facts(1) _ blank_facts(2) _ blank_facts(3,4), of "''d''" "''f''" "\<lambda>_ s. s" demo_env "0x1ED" "0x81A4" demo_env]
    by (auto simp: name_ok_def)
qed

section \<open>A file in it\<close>

lemma new_dir_can_create:
  assumes d: "new_dir e mode s n s'" and n: "name_ok n" and f: "name_ok f" "NUL \<notin> set f" "CHR ''%'' \<notin> set (n @ f)" "length n + length f < 126"
  shows "can_create s' (SLASH # n) f 2 0 2 1 1 [(''.'', 1), (''..'', 0)]"
proof -
  have nn: "n \<noteq> []" "SLASH \<notin> set n" using n by (simp_all add: name_ok_def)
  note D = new_dirD [OF d nn(1)] and N = d [unfolded new_dir_def]
  have "p_path (name_table s' ! j) \<noteq> SLASH # n @ SLASH # f" if "j < length (name_table s')" for j
  proof -
    consider "j = 0" | "j = 1" | "1 < j" by linarith
    then show ?thesis using N D(8) nn that by cases auto
  qed
  then have "path_lookup (SLASH # n @ SLASH # f) s' = -1" by (rule lookup_none)
  moreover have "scan (\<lambda>x. i_avail x = 0) (inode_table s') = int 2" "scan (\<lambda>x. p_avail x = 0) (name_table s') = int 2"
  proof -
    have "i_avail (inode_table s' ! j) \<noteq> 0 \<and> p_avail (name_table s' ! j) \<noteq> 0" if "j < 2" for j
    proof -
      have "j = 0 \<or> j = 1" using that by linarith
      then show ?thesis using N D(6,7) by auto
    qed
    then show "scan (\<lambda>x. i_avail x = 0) (inode_table s') = int 2" "scan (\<lambda>x. p_avail x = 0) (name_table s') = int 2"
      unfolding scan_eq_int using N by simp_all
  qed
  moreover have "open_files s' ! 0 \<in> set (open_files s')" using N by (intro nth_mem) simp
  then have "get_fh s' = int 0" unfolding get_fh_def scan_eq_int using N by auto
  moreover have "st_size (i_stat (inode_table s' ! 1)) = 512" using D(5) by (simp add: new_stat_def)
  moreover have "length (dir_entry f 2) = length f + 3" by (simp add: dir_entry_def print_int_def print_nat.simps)
  moreover have "length (dir_text [(''.'', 1), (''..'', 0)]) = 8" by (simp add: demo_text)
  moreover have "dir_blocks (512 + (int (length f) + 4)) \<noteq> 0" using f(4) by (simp add: c_mod_def c_div_def dir_blocks_def)
  ultimately show ?thesis
    using f N D(1-3) by (simp add: can_create_def can_enter_def Let_def c_mod_nonneg add.commute)
qed

text \<open>
  Claim C7. A session with a directory on a new disk: make a directory in the root, create a file in it, write to
  it and read back. Every call succeeds, both directories list what was made in them, the bytes read are the bytes written, and
  removing the directory with the file in it is refused.
\<close>

theorem session_in_directory:
  assumes d: "disk_open fd (sdisk s) = Some d" "fd_open d" and ju: "length (junk s) = 512" and al: "512 dvd length (dfile d)" "length (disk_blocks s) = 32768"
    and key: "\<forall>j. 1 \<le> j \<longrightarrow> j \<le> 32768 \<longrightarrow> take 8 (blk d (int j)) \<noteq> key_bytes"
    and n: "name_ok n" "NUL \<notin> set n" "length n < 125" "n \<notin> {''.'', ''..'', ''0'', ''1''}"
    and f: "name_ok f" "NUL \<notin> set f" "CHR ''%'' \<notin> set (n @ f)" "length n + length f < 126"
    and buf: "buf \<noteq> []" "length buf \<le> 568320"
  shows "\<exists>s1 s2 s3 s4. sfs_init load e fd s = Some s1 \<and> sfs_mkdir e (SLASH # n) mode s1 = Some (0, s2) \<and>
    sfs_create e (SLASH # n @ SLASH # f) fmode s2 = Some (0, Some 0, s3) \<and>
    sfs_readdir ''/'' s3 = Some (0, [''.'', ''..'', n]) \<and> sfs_readdir (SLASH # n) s3 = Some (0, [''.'', ''..'', f]) \<and>
    sfs_rmdir (SLASH # n) s3 = Some (-ENOTEMPTY, s3\<lparr>cwd_inode := 0\<rparr>) \<and>
    sfs_write 0 buf 0 s3 = Some (int (length buf), s4) \<and> sfs_read 0 (int (length buf)) 0 s4 = Some (int (length buf), buf)"
proof -
  from first_mount_law [OF d ju al key, of load e] obtain s1 where
    s1: "sfs_init load e fd s = Some s1" "formatted e s1" "dir_at s1 0 root_entries" by blast
  from new_dir_law [OF s1(2,3) n(1,2), of mode] n(3) f(3) obtain s2 where
    s2: "sfs_mkdir e (SLASH # n) mode s1 = Some (0, s2)" "new_dir e mode s1 n s2" by auto
  have nn: "n \<noteq> []" using n(1) by (simp add: name_ok_def)
  note D = new_dirD [OF s2(2) nn] and N = s2(2) [unfolded new_dir_def]
  from create_file_law [OF new_dir_can_create [OF s2(2) n(1) f], of e fmode] obtain s3 where
    s3: "sfs_create e (SLASH # n @ SLASH # f) fmode s2 = Some (0, Some 0, s3)" "file_ok s3 2" "file_data s3 2 = []" "opened s3 0 2"
      "sfs_readdir (SLASH # n) s3 = Some (0, [''.'', ''..'', f])" "\<forall>x. x \<noteq> dir_block s2 1 \<longrightarrow> B s3 x = B s2 x"
      "\<forall>j. j \<noteq> 2 \<longrightarrow> j \<noteq> 1 \<longrightarrow> inode_table s3 ! j = inode_table s2 ! j" "\<forall>j. j \<noteq> 2 \<longrightarrow> name_table s3 ! j = name_table s2 ! j"
      "disk_blocks s3 = disk_blocks s2" "length (inode_table s3) = 128" "length (name_table s3) = 128"
      "st_nlink (i_stat (inode_table s3 ! 1)) = 3" "path_lookup (SLASH # n @ SLASH # f) s3 = 2"
    using N D(5) by (auto simp: new_stat_def)
  have n3: "name_table s3 ! j = name_table s2 ! j" if "j \<noteq> 2" for j using s3(8) that by blast
  have l3: "0 < length (name_table s3)" "1 < length (name_table s3)" "1 < length (inode_table s3)" using s3(10,11) by linarith+
  have "path_lookup ''/'' s3 = int 0" unfolding path_lookup_def scan_eq_int using N n3 [of 0] l3(1) by simp
  then have r3: "path_lookup ''/'' s3 = 0" "p_ino (name_table s3 ! 0) = 0" using N n3 [of 0] by simp_all
  have "path_lookup (SLASH # n) s3 = int 1"
    unfolding path_lookup_def scan_eq_int using N n3 [of 0] n3 [of 1] D(8) nn l3(2) by simp
  then have p3: "path_lookup (SLASH # n) s3 = 1" "p_ino (name_table s3 ! 1) = 1" using D(2) n3 [of 1] by simp_all
  have u3: "p_path (name_table s3 ! j) \<noteq> SLASH # n" if "j < 128" "j \<noteq> 1" for j
  proof (cases "j = 2")
    case True
    have "p_path (name_table s3 ! 2) = SLASH # n @ SLASH # f"
      using s3(13) scan_eq_int [of "\<lambda>m. p_path m = SLASH # n @ SLASH # f" "name_table s3" 2] by (simp add: path_lookup_def)
    then show ?thesis using True by simp
  next
    case False
    then show ?thesis using D(12) [OF that] n3 by simp
  qed
  have i0: "inode_table s3 ! 0 = inode_table s2 ! 0" using s3(7) by simp
  have "B s3 (dir_block s2 0) = B s2 (dir_block s2 0)" using s3(6) D(9) N by simp
  then have d3: "dir_at s3 0 (root_entries @ [(n, 1)])"
    by (intro dir_at_other [OF D(4)]) (use i0 N s3(10) file_okD(1) [OF s3(2)] in simp_all)
  have "sfs_readdir ''/'' s3 = Some (0, map fst (root_entries @ [(n, 1)]))"
    by (rule readdir_law [of _ _ 0, OF _ l3(1) r3(2) d3]) (use r3(1) in simp)
  moreover have "can_remove s3 [] n 1 1 0 0 root_entries []"
    by (rule new_entry_can_remove [OF s3(11) p3 u3 r3 l3(3) d3]) (use i0 N n in simp_all)
  from rmdir_refuses [OF this] s3(12) have "sfs_rmdir (SLASH # n) s3 = Some (-ENOTEMPTY, s3\<lparr>cwd_inode := 0\<rparr>)" by simp
  moreover have "nfree s3 = 32766" using N s3(9) by (simp add: nfree_def)
  with write_new_file [OF s3(2-4) buf]
  have "\<exists>s4. sfs_write 0 buf 0 s3 = Some (int (length buf), s4) \<and> sfs_read 0 (int (length buf)) 0 s4 = Some (int (length buf), buf)"
    by auto
  ultimately show ?thesis using s1(1) s2(1) s3(1,5) by auto
qed

theorem session_in_directory_witness:
  "\<exists>s1 s2 s3 s4. sfs_init (\<lambda>_ s. s) demo_env 3 blank = Some s1 \<and> sfs_mkdir demo_env ''/d'' 0x1ED s1 = Some (0, s2) \<and>
     sfs_create demo_env ''/d/f'' 0x81A4 s2 = Some (0, Some 0, s3) \<and> sfs_readdir ''/d'' s3 = Some (0, [''.'', ''..'', ''f'']) \<and>
     sfs_write 0 ''hello'' 0 s3 = Some (5, s4) \<and> sfs_read 0 5 0 s4 = Some (5, ''hello'')"
  using session_in_directory [OF blank_facts(1) _ blank_facts(2) _ blank_facts(3,4), of "''d''" "''f''" "''hello''" "\<lambda>_ s. s" demo_env "0x1ED" "0x81A4"]
  by (auto simp: name_ok_def)

end
