(* ===== verification/Sfs_Handles.thy ===== *)
theory Sfs_Handles
  imports Sfs_Examples
begin

unbundle bit_operations_syntax

text \<open>
  Handles, and what the operations do when a table is full: opening and releasing on every branch, and the
  calls that do not notice that there is no handle, no inode or no block left.
\<close>

section \<open>Opening and releasing\<close>

definition is_dir :: "sfs \<Rightarrow> int \<Rightarrow> bool" where
  "is_dir s k \<longleftrightarrow> st_mode (i_stat (inode_table s ! nat k)) AND S_IFMT = S_IFDIR"

definition handle_used :: "sfs \<Rightarrow> nat \<Rightarrow> bool" where
  "handle_used s h \<longleftrightarrow> 0 \<le> f_ino (open_files s ! h)"

lemma get_fh_cases:
  obtains (full) "get_fh s = -1" "\<And>h. h < length (open_files s) \<Longrightarrow> handle_used s h"
  | (found) h where "get_fh s = int h" "h < length (open_files s)" "\<not> handle_used s h" "\<And>j. j < h \<Longrightarrow> handle_used s j"
proof (cases rule: scan_cases [of "\<lambda>f. f_ino f < 0" "open_files s"])
  case none
  then show thesis by (intro that(1)) (auto simp: get_fh_def handle_used_def not_less scan_none)
next
  case (found h)
  then show thesis by (intro that(2) [of h]) (auto simp: get_fh_def handle_used_def not_less scan_eq_int)
qed

definition open_at :: "nat \<Rightarrow> int \<Rightarrow> sfs \<Rightarrow> sfs" where
  "open_at h k s = s\<lparr>open_files := (open_files s)[h := \<lparr>refcnt = 1, f_ino = k, f_pos = 0\<rparr>]\<rparr>"

definition closed_at :: "nat \<Rightarrow> sfs \<Rightarrow> sfs" where
  "closed_at h s = s\<lparr>open_files := (open_files s)[h := \<lparr>refcnt = 0, f_ino = -1, f_pos = 0\<rparr>]\<rparr>"

lemma reopen_same:
  assumes "length (open_files s) = 128" "get_fh s = int h"
  shows "get_fh (closed_at h (open_at h k s)) = int h" "j \<noteq> h \<Longrightarrow> open_files (closed_at h (open_at h k s)) ! j = open_files s ! j"
  using assms by (simp_all add: get_fh_def scan_eq_int closed_at_def open_at_def)

lemma sfs_open_law:
  assumes m: "path_lookup path s = int m" "0 \<le> k" "k < int (length (inode_table s))" "p_ino (name_table s ! m) = k"
    and acc: "e_access e \<noteq> EACCES" "\<not> is_dir s k"
  shows "get_fh s = -1 \<Longrightarrow> sfs_open e path s = Some (-ENOMEM, None, s)"
    "get_fh s = int h \<Longrightarrow> sfs_open e path s = Some (int h, Some (int h), open_at h k s)"
proof -
  have ml: "m < length (name_table s)" using m(1) by (simp add: path_lookup_def scan_eq_int)
  show "get_fh s = -1 \<Longrightarrow> sfs_open e path s = Some (-ENOMEM, None, s)"
    using m ml acc by (simp add: sfs_open_def Let_def arr_get_in is_dir_def)
  assume h: "get_fh s = int h"
  then have "h < length (open_files s)" by (simp add: get_fh_def scan_eq_int)
  then show "sfs_open e path s = Some (int h, Some (int h), open_at h k s)"
    using m ml acc h by (simp add: sfs_open_def Let_def arr_get_in is_dir_def open_at_def)
qed


section \<open>Full tables\<close>

lemma get_block_full: "nfree s = 0 \<Longrightarrow> get_block s = None"
proof -
  assume "nfree s = 0"
  then have "scan (\<lambda>b. b = 0) (disk_blocks s) = -1" unfolding scan_none by (auto simp: nfree_def filter_empty_conv)
  then show ?thesis by (simp add: get_block_def)
qed

lemma arr_neg: "arr_get xs (-1) = None" "arr_set xs (-1) v = None"
  by (simp_all add: arr_get_def arr_set_def)

lemma upd_stat_neg: "upd_stat (-1) f s = None"
  by (simp add: upd_stat_def upd_inode_def arr_neg)

lemma create_full:
  assumes "path_lookup path s \<le> 0" "get_fh s = -1 \<or> scan (\<lambda>n. i_avail n = 0) (inode_table s) = -1"
  shows "sfs_create e path mode s = None"
proof (cases "get_fh s = -1")
  case True
  then show ?thesis using assms(1) by (simp add: sfs_create_def Let_def arr_neg split: prod.split)
next
  case False
  then have "get_inode s = (-1, s)" using assms(2) by (simp add: get_inode_def)
  then show ?thesis using assms(1) by (cases "arr_set (open_files s) (get_fh s) \<lparr>refcnt = 1, f_ino = -1, f_pos = 0\<rparr>")
    (simp_all add: sfs_create_def Let_def upd_stat_neg)
qed

lemma mkdir_full:
  assumes "path_lookup path s \<le> 0" "scan (\<lambda>n. i_avail n = 0) (inode_table s) = -1 \<or> nfree s = 0"
  shows "sfs_mkdir e path mode s = None"
proof (cases "scan (\<lambda>n. i_avail n = 0) (inode_table s) = -1")
  case True
  then have "get_inode s = (-1, s)" by (simp add: get_inode_def)
  then show ?thesis using assms(1) by (simp add: sfs_mkdir_def Let_def upd_stat_neg)
next
  case False
  have "disk_blocks (snd (get_inode s)) = disk_blocks s" by (simp add: get_inode_def Let_def)
  moreover have "disk_blocks s' = disk_blocks s0" if "upd_stat k f s0 = Some s'" for k f s0 s'
    using that by (auto simp: upd_stat_def upd_inode_def split: bind_splits)
  ultimately have "get_block s' = None" if "upd_stat k f (snd (get_inode s)) = Some s'" for k f s'
    using get_block_full [of s'] assms(2) False that by (simp add: nfree_def)
  then show ?thesis using assms(1) by (auto simp: sfs_mkdir_def Let_def split: prod.split bind_splits)
qed

lemma write_full:
  assumes ok: "file_ok s k" and fh: "opened s fh k" and need: "512 * ((file_size s k + 511) div 512) < file_size s k + length buf"
    and small: "length buf < 1000000" and full: "nfree s = 0"
  shows "sfs_write fh buf (int (file_size s k)) s = None"
proof -
  note D = file_okD [OF ok]
  define sz where "sz = file_size s k"
  define nb where "nb = (sz + 511) div 512"
  define nb' where "nb' = (sz + length buf + 511) div 512"
  have "sz \<le> 512 * nb" unfolding nb_def by (rule ceil_ge)
  then have sz: "sz + length buf < 549755813888" using small D(8) by (simp add: nb_def sz_def)
  note C = grow_counts [OF sz, folded nb_def nb'_def]
  have "nb < nb'"
  proof (rule ccontr)
    assume "\<not> nb < nb'"
    then have "512 * nb' \<le> 512 * nb" by simp
    moreover have "sz + length buf \<le> 512 * nb'" unfolding nb'_def by (rule ceil_ge)
    ultimately show False using need by (simp add: nb_def sz_def)
  qed
  then obtain r where r: "nb' - nb = Suc r" by (metis Suc_diff_Suc)
  have f: "arr_get (open_files s) fh = Some (open_files s ! nat fh)" "f_ino (open_files s ! nat fh) = k" "\<not> fh > 127" "\<not> k < 0"
    using fh by (auto simp: opened_def arr_get_in)
  have gl: "grow_loop k i (nat (int (nb' - nb))) s = None" for i
    unfolding nat_int r by (simp add: get_block_full [OF full])
  have grow: "(if u64 (int sz + int (length buf)) > u64 ((c_div (int sz) 512 + (if c_mod (int sz) 512 \<noteq> 0 then 1 else 0)) * 512)
      then grow_loop k i (nat (to_int (u64 (u64 (int sz + int (length buf)) div 512 - c_div (int sz) 512 -
        (if c_mod (int sz) 512 \<noteq> 0 then 1 else 0) + (if u64 (int sz + int (length buf)) mod 512 \<noteq> 0 then 1 else 0))))) s
      else Some (0, s)) = None" for i
    using C(2) \<open>nb < nb'\<close> gl unfolding C(4) by simp
  show ?thesis
    unfolding sfs_write_def Let_def
    using f D(2,3) by (simp only: arr_get_in D(4) sz_def [symmetric] grow if_False bind.bind_lunit bind.bind_lzero less_irrefl)
qed

text \<open>
  Claim C36. Tables that are full. None of the tests of the code notices: creating a file with no handle or no inode left, making a
  directory with no inode or no block left, and writing when the file needs a block and there is none
  all leave an array instead of reporting an error.
\<close>

theorem full_tables_unnoticed:
  "(path_lookup path s \<le> 0 \<longrightarrow> get_fh s = -1 \<or> scan (\<lambda>n. i_avail n = 0) (inode_table s) = -1 \<longrightarrow> sfs_create e path mode s = None) \<and>
   (path_lookup path s \<le> 0 \<longrightarrow> scan (\<lambda>n. i_avail n = 0) (inode_table s) = -1 \<or> nfree s = 0 \<longrightarrow> sfs_mkdir e path mode s = None) \<and>
   (file_ok s k \<longrightarrow> opened s fh k \<longrightarrow> 512 * ((file_size s k + 511) div 512) < file_size s k + length buf \<longrightarrow>
      length buf < 1000000 \<longrightarrow> nfree s = 0 \<longrightarrow> sfs_write fh buf (int (file_size s k)) s = None)"
  using create_full mkdir_full write_full by blast

section \<open>The theorems applied\<close>


text \<open>A file of 5 bytes on a disk with no free block.\<close>

abbreviation (input) demo_full :: sfs where
  "demo_full \<equiv> (demo_fs 5 1 (0 # replicate 11 (-1)))\<lparr>disk_blocks := replicate 32768 1\<rparr>"

lemma demo_full_ok: "file_ok demo_full 0" "file_size demo_full 0 = 5" "nfree demo_full = 0"
proof -
  let ?s = "demo_fs 5 1 (0 # replicate 11 (-1))"
  have "file_size demo_full 0 = file_size ?s 0" "file_blocks demo_full 0 = file_blocks ?s 0" "file_tables demo_full 0 = file_tables ?s 0"
    by (simp_all add: file_size_def file_blocks_def file_tables_def)
  moreover have "allocd ?s x \<Longrightarrow> allocd demo_full x" for x by (simp add: allocd_def nat_less_iff)
  moreover have "fs_base demo_full" using demo_fs_base [of 5 1 "0 # replicate 11 (-1)"] by (simp add: fs_base_def)
  ultimately show "file_ok demo_full 0" "file_size demo_full 0 = 5"
    using demo_hello_ok(1,2) by (simp_all add: file_ok_def Let_def)
  show "nfree demo_full = 0" by (simp add: nfree_def)
qed

theorem full_tables_unnoticed_witness:
  "sfs_create \<lparr>e_uid = 0, e_gid = 0, e_time = 0, e_access = 0\<rparr> ''/a'' 0x81A4 demo_full = None \<and>
   sfs_mkdir \<lparr>e_uid = 0, e_gid = 0, e_time = 0, e_access = 0\<rparr> ''/a'' 0x81A4 demo_full = None \<and>
   sfs_write 0 (replicate 600 CHR ''x'') 5 demo_full = None"
proof -
  have "path_lookup ''/a'' demo_full \<le> 0" by (simp add: path_lookup_def scan_def demo_fs_def)
  moreover have "scan (\<lambda>n. i_avail n = 0) (inode_table demo_full) = -1" by (simp add: scan_none demo_fs_def)
  moreover have "opened demo_full 0 0" using demo_opened by (simp add: opened_def)
  ultimately show ?thesis
    using full_tables_unnoticed [of "''/a''" demo_full "\<lparr>e_uid = 0, e_gid = 0, e_time = 0, e_access = 0\<rparr>" "0x81A4" 0 0 "replicate 600 CHR ''x''"]
      demo_full_ok by simp
qed

end
