(* ===== verification/Page_Source.thy ===== *)
theory Page_Source
  imports C_Prelude
begin

text \<open>
  What a client of an allocator of pages relies on, as a locale: an allocation takes some available
  page, a release gives it back. Shown once for every such allocator: any number of requests up to
  the number of available pages is met with different pages, and releasing them all restores what
  was available.
\<close>

fun repeat_alloc :: "('s \<Rightarrow> ('p \<times> 's) option) \<Rightarrow> nat \<Rightarrow> 's \<Rightarrow> ('p list \<times> 's) option" where
  "repeat_alloc alloc 0 s = Some ([], s)"
| "repeat_alloc alloc (Suc n) s = do {
     (p, s) \<leftarrow> alloc s;
     (ps, s) \<leftarrow> repeat_alloc alloc n s;
     Some (p # ps, s) }"

fun repeat_release :: "('p \<Rightarrow> 's \<Rightarrow> 's option) \<Rightarrow> 'p list \<Rightarrow> 's \<Rightarrow> 's option" where
  "repeat_release release [] s = Some s"
| "repeat_release release (p # ps) s = do {
     s \<leftarrow> release p s;
     repeat_release release ps s }"

locale page_source =
  fixes ok :: "'s \<Rightarrow> bool"
    and avail :: "'s \<Rightarrow> 'p set"
    and alloc :: "'s \<Rightarrow> ('p \<times> 's) option"
  assumes alloc_takes: "ok s \<Longrightarrow> avail s \<noteq> {} \<Longrightarrow> \<exists>p s'. alloc s = Some (p, s') \<and> p \<in> avail s \<and> ok s' \<and> avail s' = avail s - {p}"
    and avail_finite: "ok s \<Longrightarrow> finite (avail s)"
begin

lemma alloc_many:
  assumes "ok s" "n \<le> card (avail s)"
  shows "\<exists>ps s'. repeat_alloc alloc n s = Some (ps, s') \<and> length ps = n \<and> distinct ps \<and> set ps \<subseteq> avail s \<and>
    ok s' \<and> avail s' = avail s - set ps"
  using assms
proof (induction n arbitrary: s)
  case 0
  then show ?case by simp
next
  case (Suc n)
  have fin: "finite (avail s)" using Suc.prems(1) by (rule avail_finite)
  have "avail s \<noteq> {}" using Suc.prems(2) by auto
  with alloc_takes [OF Suc.prems(1)] obtain p s1 where
    p: "alloc s = Some (p, s1)" "p \<in> avail s" "ok s1" "avail s1 = avail s - {p}" by blast
  have "n \<le> card (avail s1)" using p fin Suc.prems(2) by simp
  from Suc.IH [OF p(3) this] obtain ps s' where
    ps: "repeat_alloc alloc n s1 = Some (ps, s')" "length ps = n" "distinct ps" "set ps \<subseteq> avail s1" "ok s'" "avail s' = avail s1 - set ps"
    by blast
  then show ?case using p by (intro exI [of _ "p # ps"] exI [of _ s']) auto
qed

end

locale returning_source = page_source ok avail alloc
  for ok :: "'s \<Rightarrow> bool" and avail :: "'s \<Rightarrow> 'p set" and alloc :: "'s \<Rightarrow> ('p \<times> 's) option" +
  fixes pages :: "'s \<Rightarrow> 'p set" and release :: "'p \<Rightarrow> 's \<Rightarrow> 's option"
  assumes avail_pages: "ok s \<Longrightarrow> avail s \<subseteq> pages s"
    and alloc_pages: "ok s \<Longrightarrow> alloc s = Some (p, s') \<Longrightarrow> pages s' = pages s"
    and release_gives: "ok s \<Longrightarrow> p \<in> pages s \<Longrightarrow> \<exists>s'. release p s = Some s' \<and> ok s' \<and> avail s' = insert p (avail s) \<and> pages s' = pages s"
begin

lemma release_many:
  assumes "ok s" "set ps \<subseteq> pages s"
  shows "\<exists>s'. repeat_release release ps s = Some s' \<and> ok s' \<and> avail s' = avail s \<union> set ps"
  using assms
proof (induction ps arbitrary: s)
  case (Cons p ps)
  then obtain s1 where s1: "release p s = Some s1" "ok s1" "avail s1 = insert p (avail s)" "pages s1 = pages s"
    using release_gives [of s p] by auto
  from Cons.IH [OF s1(2)] s1 Cons.prems show ?case by auto
qed simp

lemma alloc_many_pages:
  assumes "ok s" "n \<le> card (avail s)" "repeat_alloc alloc n s = Some (ps, s')"
  shows "pages s' = pages s"
  using assms
proof (induction n arbitrary: s ps)
  case (Suc n)
  have "avail s \<noteq> {}" using Suc.prems(2) by auto
  with alloc_takes [OF Suc.prems(1)] obtain p s1 where
    p: "alloc s = Some (p, s1)" "p \<in> avail s" "ok s1" "avail s1 = avail s - {p}" by blast
  then obtain qs where "repeat_alloc alloc n s1 = Some (qs, s')"
    using Suc.prems(3) by (cases "repeat_alloc alloc n s1") auto
  moreover have "n \<le> card (avail s1)" using p avail_finite [OF Suc.prems(1)] Suc.prems(2) by simp
  ultimately show ?case using Suc.IH [OF p(3)] alloc_pages [OF Suc.prems(1) p(1)] by simp
qed simp

text \<open>Allocating and releasing in any order.\<close>

lemma alloc_release:
  assumes "ok s" "n \<le> card (avail s)"
  shows "\<exists>ps s'. repeat_alloc alloc n s = Some (ps, s') \<and> length ps = n \<and> distinct ps \<and> set ps \<subseteq> avail s \<and>
    (\<forall>qs. set qs = set ps \<longrightarrow> (\<exists>s''. repeat_release release qs s' = Some s'' \<and> ok s'' \<and> avail s'' = avail s))"
proof -
  from alloc_many [OF assms] obtain ps s' where
    ps: "repeat_alloc alloc n s = Some (ps, s')" "length ps = n" "distinct ps" "set ps \<subseteq> avail s" "ok s'" "avail s' = avail s - set ps"
    by blast
  have "set ps \<subseteq> pages s'" using ps(4) avail_pages [OF assms(1)] alloc_many_pages [OF assms ps(1)] by blast
  then have "\<exists>s''. repeat_release release qs s' = Some s'' \<and> ok s'' \<and> avail s'' = avail s" if "set qs = set ps" for qs
    using release_many [OF ps(5), of qs] that ps(4,6) by auto
  then show ?thesis using ps by blast
qed

end

end
