(* ===== verification/Mymalloc.thy ===== *)
theory Mymalloc
  imports Page_Source
begin

text \<open>
  The page allocator of asst2 (\<^verbatim>\<open>src/asst2/mymalloc.c\<close> and \<^verbatim>\<open>mymalloc.h\<close>). The static array
  \<open>mem\<close> of 8 MB starts with an array of \<open>mem_block\<close> structs of 40 bytes each, the metadata;
  the pages of 4092 bytes start at offset 83886. \<open>slots\<close> is the metadata array: slot \<open>i\<close> lies at
  \<open>mem + 40 * i\<close>. The first 2097 slots lie before the pages; the two behind them, which \<open>myfree\<close>
  can reach, overlap the first page and so hold whatever the client stored there. A pointer to a
  \<open>mem_block\<close> is the index of its slot, \<open>None\<close> for \<open>NULL\<close>; any other pointer is its address.
  The content of the pages and the messages on \<open>stderr\<close> are left out.
\<close>

section \<open>Data\<close>

record mem_block =
  mb_size :: int
  mb_next :: "nat option"
  mb_next_page :: "nat option"
  alloc_start :: int
  is_free :: int
  page_num :: int
  mb_TID :: int

abbreviation (input) TOTSIZE :: int where "TOTSIZE \<equiv> 8388608"
abbreviation (input) M_PAGE_SIZE :: int where "M_PAGE_SIZE \<equiv> 4092"
abbreviation (input) PAGEAREASTART :: int where "PAGEAREASTART \<equiv> 83886"
abbreviation (input) LIBPAGESTART :: int where "LIBPAGESTART \<equiv> 6291456"

record pool =
  mem :: int
  slots :: "mem_block list"

definition zero_block :: mem_block where
  "zero_block = \<lparr>mb_size = 0, mb_next = None, mb_next_page = None, alloc_start = 0, is_free = 0, page_num = 0, mb_TID = 0\<rparr>"

definition get_blk :: "pool \<Rightarrow> nat \<Rightarrow> mem_block option" where
  "get_blk m i = arr_get (slots m) (int i)"

definition upd_blk :: "nat \<Rightarrow> (mem_block \<Rightarrow> mem_block) \<Rightarrow> pool \<Rightarrow> pool option" where
  "upd_blk i f m = do {
     b \<leftarrow> get_blk m i;
     bs \<leftarrow> arr_set (slots m) (int i) (f b);
     Some (m\<lparr>slots := bs\<rparr>) }"

definition blk_addr :: "pool \<Rightarrow> nat \<Rightarrow> int" where
  "blk_addr m i = mem m + 40 * int i"

lemma get_blk_Some: "get_blk m i = Some b \<longleftrightarrow> i < length (slots m) \<and> b = slots m ! i"
  by (auto simp: get_blk_def c_arr)

section \<open>Allocation\<close>

text \<open>The first call lays out the pages; \<open>prev_block\<close> equals \<open>curr_block\<close> at the head of the loop.\<close>

function init_pages :: "int \<Rightarrow> int \<Rightarrow> nat \<Rightarrow> pool \<Rightarrow> pool option" where
  "init_pages mem_index num cur m =
     (if mem_index < TOTSIZE - M_PAGE_SIZE then do {
        m \<leftarrow> upd_blk cur (\<lambda>b. b\<lparr>is_free := 1, page_num := to_short num, mb_TID := 0,
               alloc_start := mem m + mem_index, mb_next_page := None\<rparr>) m;
        m \<leftarrow> upd_blk cur (\<lambda>b. b\<lparr>mb_next := Some (cur + 1)\<rparr>) m;
        m \<leftarrow> upd_blk (cur + 1) (\<lambda>b. b\<lparr>mb_next := None\<rparr>) m;
        init_pages (mem_index + M_PAGE_SIZE) (num + 1) (cur + 1) m }
      else Some m)"
  by pat_completeness auto
termination
  by (relation "measure (\<lambda>(mem_index, _). nat (TOTSIZE - mem_index))") auto

declare init_pages.simps [simp del]

text \<open>The search for the first free page.\<close>

function first_free :: "pool \<Rightarrow> nat \<Rightarrow> nat option" where
  "first_free m cur = do {
     b \<leftarrow> get_blk m cur;
     if (is_free b = 0 \<and> mb_next b \<noteq> None) \<and> blk_addr m cur < mem m + LIBPAGESTART
     then first_free m (cur + 1) else Some cur }"
  by pat_completeness auto
termination
  by (relation "measure (\<lambda>(m, cur). length (slots m) - cur)") (auto simp: get_blk_Some)

declare first_free.simps [simp del]

text \<open>The search for \<open>need\<close> consecutive free pages: the number found and \<open>saved_block\<close>.\<close>

function find_run :: "pool \<Rightarrow> int \<Rightarrow> nat \<Rightarrow> int \<Rightarrow> nat option \<Rightarrow> (int \<times> nat option) option" where
  "find_run m need cur found saved = do {
     b \<leftarrow> get_blk m cur;
     if mb_next b = None \<or> need = found then Some (found, saved)
     else if is_free b \<noteq> 0 \<and> found = 0 then find_run m need (cur + 1) (found + 1) (Some cur)
     else if is_free b \<noteq> 0 \<and> found \<noteq> 0 then find_run m need (cur + 1) (found + 1) saved
     else if is_free b = 0 \<and> found \<noteq> 0 then find_run m need (cur + 1) 0 saved
     else find_run m need (cur + 1) found saved }"
  by pat_completeness auto
termination
  by (relation "measure (\<lambda>(m, _, cur, _). length (slots m) - cur)") (auto simp: get_blk_Some)

declare find_run.simps [simp del]

text \<open>The loop that links the pages of an allocation and marks them; it makes \<open>n\<close> rounds.\<close>

fun mark_pages :: "nat \<Rightarrow> nat option \<Rightarrow> pool \<Rightarrow> pool option" where
  "mark_pages 0 saved m = Some m"
| "mark_pages (Suc n) saved m = do {
     k \<leftarrow> saved;
     m \<leftarrow> upd_blk k (\<lambda>b. b\<lparr>mb_next_page := mb_next b, is_free := 0\<rparr>) m;
     mark_pages n (Some (k + 1)) m }"

definition pages_needed :: "int \<Rightarrow> int" where
  "pages_needed len = (if len mod M_PAGE_SIZE = 0 then len div M_PAGE_SIZE else len div M_PAGE_SIZE + 1)"

text \<open>\<open>len\<close> is the parameter \<open>size\<close>, of type \<open>size_t\<close>; the value 0 of the result is \<open>NULL\<close>.\<close>

definition mymalloc :: "int \<Rightarrow> int \<Rightarrow> pool \<Rightarrow> (int \<times> pool) option" where
  "mymalloc len request m = do {
     meta \<leftarrow> get_blk m 0;
     m \<leftarrow> (if page_num meta = 0 then init_pages PAGEAREASTART 1 0 m else Some m);
     if len > TOTSIZE - (TOTSIZE - TOTSIZE div 100) then Some (0, m)
     else do {
       cur \<leftarrow> (if request = 0 then first_free m 0 else Some 0);
       b \<leftarrow> get_blk m cur;
       meta \<leftarrow> get_blk m 0;
       if alloc_start b + len > alloc_start meta + 7920000 then Some (0, m)
       else if len \<le> M_PAGE_SIZE then do {
         m \<leftarrow> upd_blk cur (\<lambda>b. b\<lparr>is_free := 0\<rparr>) m;
         Some (alloc_start b, m) }
       else do {
         let need = pages_needed len;
         (found, saved) \<leftarrow> find_run m need cur 0 None;
         ret \<leftarrow> (if need = found then do { k \<leftarrow> saved; b \<leftarrow> get_blk m k; Some (alloc_start b) } else Some 0);
         m \<leftarrow> mark_pages (nat (need + 1)) saved m;
         Some (ret, m) } } }"

section \<open>Splitting a block\<close>

text \<open>
  \<open>mem_split\<close>, which no code calls any more. \<open>list_end\<close> is the loop to the end of the list,
  \<open>shift_blocks\<close> the loop that moves the blocks behind block \<open>k\<close> up by one slot, \<open>d\<close> of them.
\<close>

function list_end :: "pool \<Rightarrow> nat \<Rightarrow> nat option" where
  "list_end m k = do {
     b \<leftarrow> get_blk m k;
     if mb_next b \<noteq> None then list_end m (k + 1) else Some k }"
  by pat_completeness auto
termination
  by (relation "measure (\<lambda>(m, k). length (slots m) - k)") (auto simp: get_blk_Some)

declare list_end.simps [simp del]

definition next_of :: "nat option \<Rightarrow> pool \<Rightarrow> nat option option" where
  "next_of p m = (case p of None \<Rightarrow> Some None | Some j \<Rightarrow> map_option mb_next (get_blk m j))"

fun shift_blocks :: "nat \<Rightarrow> nat \<Rightarrow> pool \<Rightarrow> pool option" where
  "shift_blocks k 0 m = Some m"
| "shift_blocks k (Suc d) m = do {
     let best = k + Suc d;
     b \<leftarrow> get_blk m best;
     nn \<leftarrow> next_of (mb_next b) m;
     m \<leftarrow> upd_blk (best + 1) (\<lambda>n. n\<lparr>is_free := is_free b, mb_next := nn, mb_size := mb_size b, alloc_start := alloc_start b\<rparr>) m;
     m \<leftarrow> upd_blk best (\<lambda>b. b\<lparr>mb_next := Some (best + 1)\<rparr>) m;
     shift_blocks k d m }"

definition mem_split :: "nat \<Rightarrow> int \<Rightarrow> pool \<Rightarrow> (nat \<times> pool) option" where
  "mem_split best len m = do {
     b \<leftarrow> get_blk m best;
     vacant \<leftarrow> (case mb_next b of None \<Rightarrow> Some True | Some j \<Rightarrow> do { n \<leftarrow> get_blk m j; Some (mb_size n = 0) });
     if vacant then do {
       m \<leftarrow> upd_blk (best + 1) (\<lambda>n. n\<lparr>is_free := 1, mb_next := mb_next b, mb_size := (mb_size b - len) mod 2 ^ 64,
              alloc_start := alloc_start b + len\<rparr>) m;
       m \<leftarrow> upd_blk best (\<lambda>b. b\<lparr>mb_size := len, is_free := 0, mb_next := Some (best + 1)\<rparr>) m;
       Some (best, m) }
     else do {
       last \<leftarrow> list_end m best;
       m \<leftarrow> shift_blocks best (last - best) m;
       b \<leftarrow> get_blk m best;
       j \<leftarrow> mb_next b;
       nn \<leftarrow> map_option mb_next (get_blk m j);
       m \<leftarrow> upd_blk (best + 1) (\<lambda>n. n\<lparr>is_free := 1, mb_next := nn, mb_size := (mb_size b - len) mod 2 ^ 64,
              alloc_start := alloc_start b + len\<rparr>) m;
       m \<leftarrow> upd_blk best (\<lambda>b. b\<lparr>is_free := 0, mb_next := Some (best + 1)\<rparr>) m;
       Some (best, m) } }"

section \<open>Freeing\<close>

function find_blk :: "pool \<Rightarrow> int \<Rightarrow> nat \<Rightarrow> nat option" where
  "find_blk m index cur = do {
     b \<leftarrow> get_blk m cur;
     meta \<leftarrow> get_blk m 0;
     if alloc_start b \<noteq> index \<and> blk_addr m cur < alloc_start meta then find_blk m index (cur + 1) else Some cur }"
  by pat_completeness auto
termination
  by (relation "measure (\<lambda>(m, _, cur). length (slots m) - cur)") (auto simp: get_blk_Some)

declare find_blk.simps [simp del]

function clear_chain :: "nat \<Rightarrow> pool \<Rightarrow> pool option" where
  "clear_chain cur m = do {
     b \<leftarrow> get_blk m cur;
     if mb_next_page b \<noteq> None
     then clear_chain (cur + 1) (m\<lparr>slots := (slots m)[cur := b\<lparr>mb_next_page := None\<rparr>]\<rparr>)
     else Some m }"
  by pat_completeness auto
termination
  by (relation "measure (\<lambda>(cur, m). length (slots m) - cur)") (auto simp: get_blk_Some)

declare clear_chain.simps [simp del]

definition myfree :: "int \<Rightarrow> pool \<Rightarrow> pool option" where
  "myfree index m =
     (if index < mem m \<or> mem m + TOTSIZE \<le> index then Some m
      else do {
        cur \<leftarrow> find_blk m index 0;
        b \<leftarrow> get_blk m cur;
        if alloc_start b \<noteq> index then Some m
        else do {
          m \<leftarrow> upd_blk cur (\<lambda>b. b\<lparr>is_free := 1\<rparr>) m;
          clear_chain cur m } })"

section \<open>The layout\<close>

text \<open>
  Page \<open>i\<close> of the 2029 pages is described by slot \<open>i\<close>; slot 2029 ends the list and the slots from there
  up to the page area are zero but for what the client cannot see.
\<close>

definition page_addr :: "pool \<Rightarrow> nat \<Rightarrow> int" where
  "page_addr m i = mem m + PAGEAREASTART + M_PAGE_SIZE * int i"

definition page_ok :: "pool \<Rightarrow> nat \<Rightarrow> bool" where
  "page_ok m i \<longleftrightarrow> page_num (slots m ! i) = int i + 1 \<and> alloc_start (slots m ! i) = page_addr m i \<and>
     mb_next (slots m ! i) = Some (Suc i)"

definition tail_ok :: "mem_block \<Rightarrow> bool" where
  "tail_ok b \<longleftrightarrow> mb_next b = None \<and> mb_next_page b = None \<and> alloc_start b = 0 \<and> is_free b = 0"

definition pool_ok :: "pool \<Rightarrow> bool" where
  "pool_ok m \<longleftrightarrow> 0 < mem m \<and> length (slots m) = 2099 \<and> (\<forall>i < 2029. page_ok m i) \<and>
     (\<forall>i. 2029 \<le> i \<longrightarrow> i < 2097 \<longrightarrow> tail_ok (slots m ! i))"

text \<open>The abstract state: the set of free pages.\<close>

definition free_set :: "pool \<Rightarrow> nat set" where
  "free_set m = {i. i < 2029 \<and> is_free (slots m ! i) \<noteq> 0}"

text \<open>The static array before the first call.\<close>

definition pool_start :: "pool \<Rightarrow> bool" where
  "pool_start m \<longleftrightarrow> 0 < mem m \<and> length (slots m) = 2099 \<and> (\<forall>i < 2097. slots m ! i = zero_block)"

lemma upd_blk_in: "i < length (slots m) \<Longrightarrow> upd_blk i f m = Some (m\<lparr>slots := (slots m)[i := f (slots m ! i)]\<rparr>)"
  by (simp add: upd_blk_def get_blk_def)

lemma get_blk_in: "i < length (slots m) \<Longrightarrow> get_blk m i = Some (slots m ! i)"
  by (simp add: get_blk_def)

text \<open>
  With room behind it a block is cut in two adjacent blocks of together the same size.
\<close>

lemma mem_split_vacant:
  assumes k: "Suc k < length (slots m)" and b: "mb_next (slots m ! k) = None" "0 \<le> len" "len \<le> mb_size (slots m ! k)"
      "mb_size (slots m ! k) < 2 ^ 64"
  shows "\<exists>m'. mem_split k len m = Some (k, m') \<and> mb_size (slots m' ! k) = len \<and> is_free (slots m' ! k) = 0 \<and>
    mb_next (slots m' ! k) = Some (Suc k) \<and> mb_size (slots m' ! k) + mb_size (slots m' ! Suc k) = mb_size (slots m ! k) \<and>
    is_free (slots m' ! Suc k) = 1 \<and> mb_next (slots m' ! Suc k) = None \<and>
    alloc_start (slots m' ! Suc k) = alloc_start (slots m' ! k) + len"
  using assms by (simp add: mem_split_def get_blk_in upd_blk_in)

lemma pool_okD:
  assumes "pool_ok m"
  shows "0 < mem m" "length (slots m) = 2099"
    and "i < 2029 \<Longrightarrow> alloc_start (slots m ! i) = page_addr m i" "i < 2029 \<Longrightarrow> mb_next (slots m ! i) = Some (Suc i)"
    and "i < 2029 \<Longrightarrow> page_num (slots m ! i) = int i + 1"
    and "2029 \<le> i \<Longrightarrow> i < 2097 \<Longrightarrow> tail_ok (slots m ! i)"
  using assms by (simp_all add: pool_ok_def page_ok_def)

text \<open>Stores to \<open>is_free\<close> and \<open>next_page\<close> keep the layout.\<close>

lemma pool_ok_upd:
  assumes "pool_ok m" "page_num (f (slots m ! k)) = page_num (slots m ! k)"
    "alloc_start (f (slots m ! k)) = alloc_start (slots m ! k)" "mb_next (f (slots m ! k)) = mb_next (slots m ! k)"
    "2029 \<le> k \<Longrightarrow> k < 2097 \<Longrightarrow> tail_ok (f (slots m ! k))" "k < 2099"
  shows "pool_ok (m\<lparr>slots := (slots m)[k := f (slots m ! k)]\<rparr>)"
  using assms by (auto simp: pool_ok_def page_ok_def page_addr_def nth_list_update)

lemma free_set_upd:
  assumes "pool_ok m" "k < 2029"
  shows "free_set (m\<lparr>slots := (slots m)[k := b]\<rparr>) =
    (if is_free b = 0 then free_set m - {k} else insert k (free_set m))"
  using assms pool_okD(2) [OF assms(1)] by (auto simp: free_set_def nth_list_update split: if_splits)

text \<open>The state of the initialisation loop when \<open>c\<close> pages are laid out.\<close>

definition laid :: "pool \<Rightarrow> nat \<Rightarrow> bool" where
  "laid m c \<longleftrightarrow> 0 < mem m \<and> length (slots m) = 2099 \<and>
     (\<forall>i < c. page_ok m i \<and> is_free (slots m ! i) = 1) \<and> (\<forall>i. c \<le> i \<longrightarrow> i < 2097 \<longrightarrow> slots m ! i = zero_block)"

lemma init_pages_step:
  assumes l: "laid m c" and c: "c < 2029"
  obtains m' where "laid m' (Suc c)" "mem m' = mem m" "drop 2097 (slots m') = drop 2097 (slots m)"
    "init_pages (83886 + 4092 * int c) (int c + 1) c m = init_pages (83886 + 4092 * int (Suc c)) (int (Suc c) + 1) (Suc c) m'"
proof -
  define b where "b = (slots m ! c)\<lparr>is_free := 1, page_num := to_short (int c + 1), mb_TID := 0,
      alloc_start := mem m + (83886 + 4092 * int c), mb_next_page := None, mb_next := Some (c + 1)\<rparr>"
  define m' where "m' = m\<lparr>slots := (slots m)[c := b]\<rparr>"
  have len: "length (slots m) = 2099" and z: "slots m ! Suc c = zero_block" using l c by (auto simp: laid_def)
  have "(slots m)[c := b, Suc c := (slots m ! Suc c)\<lparr>mb_next := None\<rparr>] = (slots m)[c := b]"
    using len z c by (intro nth_equalityI) (auto simp: nth_list_update zero_block_def)
  then have "init_pages (83886 + 4092 * int c) (int c + 1) c m = init_pages (83886 + 4092 * int (Suc c)) (int (Suc c) + 1) (Suc c) m'"
    using len c by (subst init_pages.simps) (simp add: upd_blk_in m'_def b_def algebra_simps)
  moreover have "laid m' (Suc c)"
    using l c by (auto simp: laid_def m'_def b_def page_ok_def page_addr_def nth_list_update less_Suc_eq to_short_id)
  ultimately show ?thesis using that [of m'] c by (simp add: m'_def)
qed

lemma init_pages_run:
  assumes "laid m c" "c \<le> 2029"
  shows "\<exists>m'. init_pages (83886 + 4092 * int c) (int c + 1) c m = Some m' \<and> laid m' 2029 \<and> mem m' = mem m \<and>
    drop 2097 (slots m') = drop 2097 (slots m)"
  using assms
proof (induction "2029 - c" arbitrary: c m)
  case 0
  then show ?case by (subst init_pages.simps) simp
next
  case (Suc d)
  then have "c < 2029" by simp
  from init_pages_step [OF Suc(3) this] obtain m' where m': "laid m' (Suc c)" "mem m' = mem m"
      "drop 2097 (slots m') = drop 2097 (slots m)"
      "init_pages (83886 + 4092 * int c) (int c + 1) c m = init_pages (83886 + 4092 * int (Suc c)) (int (Suc c) + 1) (Suc c) m'" .
  then show ?case using Suc(1) [OF _ m'(1)] Suc(2) \<open>c < 2029\<close> by simp
qed

lemma init_pages_law:
  assumes "pool_start m"
  shows "\<exists>m'. init_pages 83886 1 0 m = Some m' \<and> pool_ok m' \<and> free_set m' = {..<2029} \<and> mem m' = mem m"
proof -
  have "laid m 0" using assms by (simp add: pool_start_def laid_def)
  from init_pages_run [OF this] obtain m' where m': "init_pages 83886 1 0 m = Some m'" "laid m' 2029" "mem m' = mem m" by auto
  moreover have "pool_ok m'" "free_set m' = {..<2029}"
    using m'(2) by (auto simp: laid_def pool_ok_def free_set_def tail_ok_def zero_block_def)
  ultimately show ?thesis by blast
qed

lemma mymalloc_first:
  assumes "pool_start m" "init_pages 83886 1 0 m = Some m'" "pool_ok m'"
  shows "mymalloc len req m = mymalloc len req m'"
proof -
  have "get_blk m 0 = Some zero_block" using assms(1) by (simp add: pool_start_def get_blk_def arr_get_def)
  moreover have "get_blk m' 0 = Some (slots m' ! 0)" "page_num (slots m' ! 0) = 1"
    using pool_okD(2) [OF assms(3)] pool_okD(5) [OF assms(3), of 0] by (simp_all add: get_blk_def arr_get_def)
  ultimately show ?thesis by (simp add: mymalloc_def assms(2) zero_block_def)
qed

section \<open>The searches\<close>

lemma first_free_law:
  assumes ok: "pool_ok m" and c: "c \<le> k" "k \<le> 2029" and no: "\<forall>i. c \<le> i \<longrightarrow> i < k \<longrightarrow> i \<notin> free_set m"
    and k: "k = 2029 \<or> k \<in> free_set m"
  shows "first_free m c = Some k"
  using c no
proof (induction "k - c" arbitrary: c)
  case 0
  then have "c = k" by simp
  then show ?case using k pool_okD(2) [OF ok] pool_okD(6) [OF ok, of 2029]
    by (subst first_free.simps) (auto simp: get_blk_in free_set_def tail_ok_def)
next
  case (Suc d)
  then have "c < 2029" "is_free (slots m ! c) = 0" by (auto simp: free_set_def)
  moreover have "first_free m (c + 1) = Some k" using Suc by simp
  ultimately show ?case using pool_okD(2) [OF ok] pool_okD(4) [OF ok, of c]
    by (subst first_free.simps) (simp add: get_blk_in blk_addr_def)
qed

text \<open>\<open>n\<close> consecutive free pages from page \<open>r\<close> on.\<close>

definition run_at :: "nat set \<Rightarrow> nat \<Rightarrow> nat \<Rightarrow> bool" where
  "run_at F n r \<longleftrightarrow> r + n \<le> 2029 \<and> {r..<r + n} \<subseteq> F"

lemma find_run_at_end:
  assumes "pool_ok m"
  shows "find_run m need 2029 found saved = Some (found, saved)"
  using pool_okD(2) [OF assms] pool_okD(6) [OF assms, of 2029]
  by (subst find_run.simps) (simp add: get_blk_in tail_ok_def)

lemma find_run_page:
  assumes "pool_ok m" "c < 2029"
  shows "find_run m need c found saved =
    (if need = found then Some (found, saved)
     else if c \<in> free_set m then find_run m need (Suc c) (found + 1) (if found = 0 then Some c else saved)
     else find_run m need (Suc c) 0 saved)"
  using pool_okD(2) [OF assms(1)] pool_okD(4) [OF assms(1), of c] assms(2)
  by (subst find_run.simps) (simp add: get_blk_in free_set_def)

text \<open>The search returns the first run from \<open>lo\<close> on.\<close>

lemma find_run_found:
  assumes ok: "pool_ok m" and r: "run_at (free_set m) n r" "0 < n"
    and first: "\<And>j. lo \<le> j \<Longrightarrow> run_at (free_set m) n j \<Longrightarrow> r \<le> j"
    and inv: "c \<le> r + n" "lo + f \<le> c" "f \<le> n" "c - f \<le> r" "{c - f..<c} \<subseteq> free_set m" "0 < f \<Longrightarrow> saved = Some (c - f)"
  shows "find_run m (int n) c (int f) saved = Some (int n, Some r)"
  using inv
proof (induction "2029 - c" arbitrary: c f saved)
  case 0
  then have "c = 2029" "f = n" "r = c - f" using r by (auto simp: run_at_def)
  then show ?case using find_run_at_end [OF ok] 0 r(2) by simp
next
  case (Suc d)
  then have c: "c < 2029" by simp
  show ?case
  proof (cases "f = n")
    case True
    then have "run_at (free_set m) n (c - f)" using Suc(7,4) c by (simp add: run_at_def)
    with first [of "c - f"] Suc(4,6) have "r = c - f" by simp
    then show ?thesis using find_run_page [OF ok c] True Suc(8) r(2) by simp
  next
    case f: False
    show ?thesis
    proof (cases "c \<in> free_set m")
      case True
      have "{Suc c - Suc f..<Suc c} \<subseteq> free_set m" using True Suc(7) by (auto simp: less_Suc_eq)
      then have "find_run m (int n) (Suc c) (int (Suc f)) (if f = 0 then Some c else saved) = Some (int n, Some r)"
        using Suc(2-8) f by (intro Suc(1)) auto
      then show ?thesis using find_run_page [OF ok c, of "int n" "int f" saved] True f by (simp add: add.commute)
    next
      case False
      have "c < r + n" using Suc(5,6) f by linarith
      then have "\<not> r \<le> c" using False r(1) by (auto simp: run_at_def)
      then have "find_run m (int n) (Suc c) (int 0) saved = Some (int n, Some r)"
        using Suc(2,3,4) by (intro Suc(1)) auto
      then show ?thesis using find_run_page [OF ok c, of "int n" "int f" saved] False f by simp
    qed
  qed
qed

text \<open>Without a run the search ends at the end of the list, with the last place where a run began.\<close>

lemma find_run_missing:
  assumes ok: "pool_ok m" and none: "\<And>j. lo \<le> j \<Longrightarrow> \<not> run_at (free_set m) n j"
    and inv: "c \<le> 2029" "lo + f \<le> c" "f < n" "{c - f..<c} \<subseteq> free_set m" "0 < f \<Longrightarrow> saved = Some (c - f)"
      "\<forall>k. saved = Some k \<longrightarrow> k \<in> free_set m"
  shows "\<exists>f' sv. find_run m (int n) c (int f) saved = Some (int f', sv) \<and> f' < n \<and> (\<forall>k. sv = Some k \<longrightarrow> k \<in> free_set m) \<and>
    (sv = None \<longrightarrow> saved = None \<and> (\<forall>i. c \<le> i \<longrightarrow> i \<notin> free_set m))"
  using inv
proof (induction "2029 - c" arbitrary: c f saved)
  case 0
  then show ?case using find_run_at_end [OF ok] by (auto simp: free_set_def)
next
  case (Suc d)
  then have c: "c < 2029" and d: "d = 2029 - Suc c" by simp_all
  show ?case
  proof (cases "c \<in> free_set m")
    case True
    have sub: "{Suc c - Suc f..<Suc c} \<subseteq> free_set m" using True Suc(6) by (auto simp: less_Suc_eq)
    have "Suc f \<noteq> n"
    proof
      assume n: "Suc f = n"
      then have "c - f + n = Suc c" "Suc c - Suc f = c - f" using Suc(4) by simp_all
      then have "run_at (free_set m) n (c - f)" using sub c by (simp add: run_at_def)
      moreover have "lo \<le> c - f" using Suc(4) by linarith
      ultimately show False using none by blast
    qed
    then have "Suc f < n" using Suc(5) by simp
    moreover have sv: "(if f = 0 then Some c else saved) = Some (c - f)" using Suc(7) by simp
    moreover have "c - f \<in> free_set m" using sub by auto
    ultimately obtain f' sv where "find_run m (int n) (Suc c) (int (Suc f)) (Some (c - f)) = Some (int f', sv)"
        "f' < n" "\<forall>k. sv = Some k \<longrightarrow> k \<in> free_set m" "sv \<noteq> None"
      using Suc(1) [of "Suc c" "Suc f" "Some (c - f)"] d Suc(4) c sub by auto
    then show ?thesis using find_run_page [OF ok c, of "int n" "int f" saved] True Suc(5) sv by (auto simp: add.commute)
  next
    case False
    then obtain f' sv where "find_run m (int n) (Suc c) (int 0) saved = Some (int f', sv)"
        "f' < n" "\<forall>k. sv = Some k \<longrightarrow> k \<in> free_set m" "sv = None \<longrightarrow> saved = None \<and> (\<forall>i. Suc c \<le> i \<longrightarrow> i \<notin> free_set m)"
      using Suc(1) [of "Suc c" 0 saved] d c Suc(4,5,8) by auto
    then show ?thesis using find_run_page [OF ok c, of "int n" "int f" saved] False Suc(5)
      by (auto simp: le_eq_less_or_eq [of c])
  qed
qed

lemma mark_pages_law:
  assumes "pool_ok m" "k + n \<le> 2097"
  shows "\<exists>m'. mark_pages n (Some k) m = Some m' \<and> pool_ok m' \<and> mem m' = mem m \<and> free_set m' = free_set m - {k..<k + n} \<and>
    (\<forall>i. i < k \<or> k + n \<le> i \<longrightarrow> slots m' ! i = slots m ! i) \<and>
    (\<forall>i. k \<le> i \<longrightarrow> i < k + n \<longrightarrow> mb_next_page (slots m' ! i) = mb_next (slots m ! i))"
  using assms
proof (induction n arbitrary: k m)
  case (Suc n)
  define f where "f = (\<lambda>b :: mem_block. b\<lparr>mb_next_page := mb_next b, is_free := 0\<rparr>)"
  define m1 where "m1 = m\<lparr>slots := (slots m)[k := f (slots m ! k)]\<rparr>"
  have len: "length (slots m) = 2099" using Suc(2) by (rule pool_okD)
  have ok1: "pool_ok m1" unfolding m1_def
    by (rule pool_ok_upd [OF Suc(2)]) (use pool_okD(6) [OF Suc(2), of k] Suc(3) in \<open>simp_all add: f_def tail_ok_def\<close>)
  have F: "free_set m1 = free_set m - {k}"
    using len Suc(3) by (auto simp: m1_def f_def free_set_def nth_list_update split: if_splits)
  from Suc(1) [OF ok1, of "Suc k"] Suc(3) obtain m' where m': "mark_pages n (Some (Suc k)) m1 = Some m'" "pool_ok m'"
      "mem m' = mem m" "free_set m' = free_set m1 - {Suc k..<Suc k + n}"
      "\<forall>i. i < Suc k \<or> Suc k + n \<le> i \<longrightarrow> slots m' ! i = slots m1 ! i"
      "\<forall>i. Suc k \<le> i \<longrightarrow> i < Suc k + n \<longrightarrow> mb_next_page (slots m' ! i) = mb_next (slots m1 ! i)"
    by (auto simp: m1_def)
  have "{k..<k + Suc n} = insert k {Suc k..<Suc k + n}" by auto
  then have "free_set m' = free_set m - {k..<k + Suc n}" unfolding m'(4) F by blast
  moreover have "mark_pages (Suc n) (Some k) m = Some m'"
    using m'(1) len Suc(3) by (simp add: upd_blk_in m1_def f_def)
  moreover have "\<forall>i. i < k \<or> k + Suc n \<le> i \<longrightarrow> slots m' ! i = slots m ! i"
    using m'(5) by (auto simp: m1_def)
  moreover have "mb_next_page (slots m' ! i) = mb_next (slots m ! i)" if "k \<le> i" "i < k + Suc n" for i
  proof (cases "i = k")
    case True
    then have "slots m' ! i = slots m1 ! k" using m'(5) by simp
    then show ?thesis using True len Suc(3) by (simp add: m1_def f_def)
  next
    case False
    then have "mb_next_page (slots m' ! i) = mb_next (slots m1 ! i)" using m'(6) that by simp
    then show ?thesis using False by (simp add: m1_def)
  qed
  ultimately show ?case using m'(2,3) by blast
qed simp

section \<open>Allocating pages\<close>

text \<open>\<open>k\<close> is the first free page, or the end of the list.\<close>

definition first_page :: "pool \<Rightarrow> nat \<Rightarrow> bool" where
  "first_page m k \<longleftrightarrow> k \<le> 2029 \<and> (k = 2029 \<or> k \<in> free_set m) \<and> (\<forall>i < k. i \<notin> free_set m)"

lemma first_page_law: "pool_ok m \<Longrightarrow> first_page m k \<Longrightarrow> first_free m 0 = Some k"
  by (rule first_free_law) (auto simp: first_page_def)

lemma first_page_ex: "\<exists>k. first_page m k"
proof (cases "free_set m = {}")
  case True
  then show ?thesis by (intro exI [of _ 2029]) (simp add: first_page_def)
next
  case False
  define k where "k = (LEAST i. i \<in> free_set m)"
  have "k \<in> free_set m" using False unfolding k_def by (auto intro: LeastI)
  moreover have "i \<notin> free_set m" if "i < k" for i using that not_less_Least unfolding k_def by blast
  moreover have "k \<le> 2029" using \<open>k \<in> free_set m\<close> by (simp add: free_set_def)
  ultimately show ?thesis unfolding first_page_def by blast
qed

text \<open>The part of \<open>mymalloc\<close> behind the checks.\<close>

lemma mymalloc_ready:
  assumes ok: "pool_ok m" and k: "k < 2099" "request = 0 \<Longrightarrow> first_free m 0 = Some k" "request \<noteq> 0 \<Longrightarrow> k = 0"
    and len: "len \<le> 83886"
  shows "mymalloc len request m =
    (if alloc_start (slots m ! k) + len > page_addr m 0 + 7920000 then Some (0, m)
     else if len \<le> 4092 then Some (alloc_start (slots m ! k), m\<lparr>slots := (slots m)[k := (slots m ! k)\<lparr>is_free := 0\<rparr>]\<rparr>)
     else do {
       (found, saved) \<leftarrow> find_run m (pages_needed len) k 0 None;
       ret \<leftarrow> (if pages_needed len = found then do { k \<leftarrow> saved; b \<leftarrow> get_blk m k; Some (alloc_start b) } else Some 0);
       m \<leftarrow> mark_pages (nat (pages_needed len + 1)) saved m;
       Some (ret, m) })"
proof -
  have l: "length (slots m) = 2099" using ok by (rule pool_okD)
  then have "get_blk m 0 = Some (slots m ! 0)" "page_num (slots m ! 0) = 1" "alloc_start (slots m ! 0) = page_addr m 0"
    using pool_okD(3,5) [OF ok, of 0] by (simp_all add: get_blk_in)
  moreover have "get_blk m k = Some (slots m ! k)" using l k(1) by (simp add: get_blk_in)
  ultimately show ?thesis using k len l by (cases "request = 0") (simp_all add: mymalloc_def upd_blk_in Let_def)
qed

lemma mymalloc_small_law:
  assumes ok: "pool_ok m" and k: "first_page m k" and len: "0 \<le> len" "len \<le> 4092"
  shows "\<exists>p m'. mymalloc len 0 m = Some (p, m') \<and> pool_ok m' \<and> mem m' = mem m \<and>
    (if k < 2029 \<and> 4092 * int k + len \<le> 7920000
     then p = page_addr m k \<and> k \<in> free_set m \<and> free_set m' = free_set m - {k} \<and>
       slots m' = (slots m)[k := (slots m ! k)\<lparr>is_free := 0\<rparr>]
     else p = 0 \<and> free_set m' = free_set m \<and> m' = m)"
proof -
  have kk: "k \<le> 2029" "k = 2029 \<or> k \<in> free_set m" using k by (auto simp: first_page_def)
  have ev: "mymalloc len 0 m =
    (if alloc_start (slots m ! k) + len > page_addr m 0 + 7920000 then Some (0, m)
     else Some (alloc_start (slots m ! k), m\<lparr>slots := (slots m)[k := (slots m ! k)\<lparr>is_free := 0\<rparr>]\<rparr>))"
    using mymalloc_ready [OF ok, of k 0 len] first_page_law [OF ok k] kk(1) len by simp
  show ?thesis
  proof (cases "k = 2029")
    case True
    have t: "tail_ok (slots m ! k)" "0 < mem m" using pool_okD(1) [OF ok] pool_okD(6) [OF ok, of k] True by simp_all
    then have "(slots m)[k := (slots m ! k)\<lparr>is_free := 0\<rparr>] = slots m"
      by (intro list_update_same_conv [THEN iffD2]) (simp_all add: tail_ok_def True pool_okD(2) [OF ok])
    then show ?thesis using ev t True ok len by (simp add: tail_ok_def page_addr_def)
  next
    case False
    then have k2: "k < 2029" "k \<in> free_set m" using kk by auto
    have "pool_ok (m\<lparr>slots := (slots m)[k := (slots m ! k)\<lparr>is_free := 0\<rparr>]\<rparr>)"
      by (rule pool_ok_upd [OF ok, where f = "\<lambda>b. b\<lparr>is_free := 0\<rparr>"]) (use k2 in simp_all)
    then show ?thesis
      using ev k2 pool_okD(3) [OF ok k2(1)] free_set_upd [OF ok k2(1)] ok by (auto simp: page_addr_def)
  qed
qed

text \<open>
  A request of at most a page gets the first free page and only that page stops being free; when
  no page is free, or the page would end more than 7920000 bytes behind the first one, the result is
  \<open>NULL\<close> and nothing changes.
\<close>

theorem mymalloc_small:
  assumes "pool_ok m" "first_page m k" "0 \<le> len" "len \<le> 4092"
  shows "\<exists>p m'. mymalloc len 0 m = Some (p, m') \<and> pool_ok m' \<and> mem m' = mem m \<and>
    (if k < 2029 \<and> 4092 * int k + len \<le> 7920000
     then p = page_addr m k \<and> k \<in> free_set m \<and> free_set m' = free_set m - {k} \<and>
       slots m' = (slots m)[k := (slots m ! k)\<lparr>is_free := 0\<rparr>]
     else p = 0 \<and> free_set m' = free_set m \<and> m' = m)"
  by (rule mymalloc_small_law [OF assms])

lemma pages_needed_ceil: "pages_needed len = (len + 4091) div 4092"
  using ceil_div [of 4092 len] by (simp add: pages_needed_def)

lemma pages_needed_range:
  assumes "4092 < len" "len \<le> 83886"
  obtains n where "pages_needed len = int n" "2 \<le> n" "n \<le> 21"
proof -
  have "2 \<le> (len + 4091) div 4092" "(len + 4091) div 4092 \<le> 21" using assms by linarith+
  then show ?thesis using that [of "nat ((len + 4091) div 4092)"] pages_needed_ceil [of len] assms by simp
qed

lemma mymalloc_large_law:
  assumes ok: "pool_ok m" and k: "first_page m k" and len: "4092 < len" "len \<le> 83886" "4092 * int k + len \<le> 7920000"
    and n: "pages_needed len = int n" and r: "run_at (free_set m) n r" and first: "\<forall>j < r. \<not> run_at (free_set m) n j"
  shows "\<exists>m'. mymalloc len 0 m = Some (page_addr m r, m') \<and> pool_ok m' \<and> mem m' = mem m \<and>
    free_set m' = free_set m - {r..r + n} \<and> (\<forall>i. i < r \<or> r + n < i \<longrightarrow> slots m' ! i = slots m ! i)"
proof -
  obtain n' where n': "pages_needed len = int n'" "2 \<le> n'" "n' \<le> 21" using pages_needed_range [OF len(1,2)] .
  then have n2: "2 \<le> n" "n \<le> 21" using n by simp_all
  have rn: "r + n \<le> 2029" "r \<in> free_set m" using r n2 by (auto simp: run_at_def)
  then have kr: "k \<le> r" using k unfolding first_page_def by (meson not_le)
  then have k2: "k < 2029" "k < 2099" using rn n2 by simp_all
  have "r \<le> j" if "run_at (free_set m) n j" for j using that first by (meson not_le)
  then have fr: "find_run m (int n) k 0 None = Some (int n, Some r)"
    using find_run_found [OF ok r, of k k 0 None] n2 kr by simp
  have al: "alloc_start (slots m ! k) = page_addr m k" "alloc_start (slots m ! r) = page_addr m r"
    using pool_okD(3) [OF ok] k2 rn n2 by simp_all
  obtain m' where m': "mark_pages (Suc n) (Some r) m = Some m'" "pool_ok m'" "mem m' = mem m"
      "free_set m' = free_set m - {r..<r + Suc n}" "\<forall>i. i < r \<or> r + Suc n \<le> i \<longrightarrow> slots m' ! i = slots m ! i"
    using mark_pages_law [OF ok, of r "Suc n"] rn by auto
  have "get_blk m r = Some (slots m ! r)" using rn n2 pool_okD(2) [OF ok] by (simp add: get_blk_in)
  then have "mymalloc len 0 m = Some (page_addr m r, m')"
    using mymalloc_ready [OF ok k2(2), of 0 len] first_page_law [OF ok k] fr n al len m'(1)
    by (simp add: page_addr_def nat_add_distrib del: mark_pages.simps)
  then show ?thesis using m'(2-5) by (auto simp: atLeastLessThanSuc_atLeastAtMost)
qed

lemma mymalloc_large_none:
  assumes ok: "pool_ok m" and k: "first_page m k" and len: "4092 < len" "len \<le> 83886" "4092 * int k + len \<le> 7920000"
    and n: "pages_needed len = int n" and none: "\<forall>j. \<not> run_at (free_set m) n j"
  shows "if free_set m = {} then mymalloc len 0 m = None
    else \<exists>j m'. mymalloc len 0 m = Some (0, m') \<and> j \<in> free_set m \<and> free_set m' = free_set m - {j..j + n}"
proof -
  obtain n' where n': "pages_needed len = int n'" "2 \<le> n'" "n' \<le> 21" using pages_needed_range [OF len(1,2)] .
  then have n2: "2 \<le> n" "n \<le> 21" using n by simp_all
  have k2: "k \<le> 2029" "k < 2099" "k = 2029 \<or> k \<in> free_set m" using k by (auto simp: first_page_def)
  have al: "alloc_start (slots m ! k) \<le> page_addr m k"
    using pool_okD(1) [OF ok] pool_okD(3) [OF ok, of k] pool_okD(6) [OF ok, of k] k2
    by (cases "k = 2029") (auto simp: tail_ok_def page_addr_def)
  obtain f sv where fr: "find_run m (int n) k 0 None = Some (int f, sv)" "f < n" "\<forall>j. sv = Some j \<longrightarrow> j \<in> free_set m"
      "sv = None \<longrightarrow> (\<forall>i. k \<le> i \<longrightarrow> i \<notin> free_set m)"
    using find_run_missing [OF ok, of k n k 0 None] none n2 k2 by auto
  have ev: "mymalloc len 0 m = do { m \<leftarrow> mark_pages (Suc n) sv m; Some (0, m) }"
    using mymalloc_ready [OF ok k2(2), of 0 len] first_page_law [OF ok k] fr(1,2) n al len
    by (simp add: page_addr_def nat_add_distrib del: mark_pages.simps)
  show ?thesis
  proof (cases sv)
    case None
    then have "free_set m = {}" using fr(4) k by (auto simp: first_page_def not_le) (meson not_le)
    then show ?thesis using ev None by simp
  next
    case (Some j)
    then have j: "j \<in> free_set m" "j < 2029" using fr(3) by (auto simp: free_set_def)
    then obtain m' where "mark_pages (Suc n) sv m = Some m'" "free_set m' = free_set m - {j..<j + Suc n}"
      using mark_pages_law [OF ok, of j "Suc n"] n2 Some by auto
    then show ?thesis using ev j by (auto simp: atLeastLessThanSuc_atLeastAtMost)
  qed
qed


text \<open>
  Requests of the thread library are not looked for at all: every one of at most a page gets page 0,
  free or not, so any two of them get the same address.
\<close>

theorem mymalloc_library_alias:
  assumes ok: "pool_ok m" and len: "0 \<le> len" "len \<le> 4092" "0 \<le> len'" "len' \<le> 4092" and req: "request \<noteq> 0"
  shows "\<exists>m' m''. mymalloc len request m = Some (page_addr m 0, m') \<and> mymalloc len' request m' = Some (page_addr m 0, m'')"
proof -
  have one: "\<exists>m'. mymalloc x request m = Some (page_addr m 0, m') \<and> pool_ok m' \<and> page_addr m' 0 = page_addr m 0"
    if "pool_ok m" "0 \<le> x" "x \<le> 4092" for x m
  proof -
    have "pool_ok (m\<lparr>slots := (slots m)[0 := (slots m ! 0)\<lparr>is_free := 0\<rparr>]\<rparr>)"
      by (rule pool_ok_upd [OF that(1), where f = "\<lambda>b. b\<lparr>is_free := 0\<rparr>"]) simp_all
    then show ?thesis
      using mymalloc_ready [OF that(1), of 0 request x] req that pool_okD(3) [OF that(1), of 0] by (simp add: page_addr_def)
  qed
  from one [OF ok len(1,2)] obtain m' where m': "mymalloc len request m = Some (page_addr m 0, m')" "pool_ok m'"
      "page_addr m' 0 = page_addr m 0" by blast
  with one [OF m'(2) len(3,4)] show ?thesis by auto
qed

lemma find_run_any:
  assumes ok: "pool_ok m" and c: "c \<le> 2029" and n: "0 < n"
  obtains (found) r where "find_run m (int n) c 0 None = Some (int n, Some r)" "c \<le> r" "run_at (free_set m) n r"
    | (missing) f sv where "find_run m (int n) c 0 None = Some (int f, sv)" "f < n" "\<forall>k. sv = Some k \<longrightarrow> k \<in> free_set m"
proof (cases "\<exists>r. c \<le> r \<and> run_at (free_set m) n r")
  case True
  define r where "r = (LEAST r. c \<le> r \<and> run_at (free_set m) n r)"
  have r: "c \<le> r" "run_at (free_set m) n r" using LeastI_ex [OF True] by (simp_all add: r_def)
  have "r \<le> j" if "c \<le> j" "run_at (free_set m) n j" for j unfolding r_def by (rule Least_le) (use that in simp)
  then have "find_run m (int n) c (int 0) None = Some (int n, Some r)"
    using find_run_found [OF ok r(2) n, of c c 0 None] r(1) by simp
  then show ?thesis using found r by simp
next
  case False
  then show ?thesis using find_run_missing [OF ok, of c n c 0 None] missing c n by auto
qed

lemma mymalloc_keeps_law:
  assumes ok: "pool_ok m" and len: "0 \<le> len" and ev: "mymalloc len request m = Some (p, m')"
  shows "pool_ok m' \<and> mem m' = mem m \<and> (p = 0 \<or> mem m + 83886 \<le> p \<and> p + len \<le> mem m + 8388608)"
proof (cases "len \<le> 83886")
  case False
  have "get_blk m 0 = Some (slots m ! 0)" "page_num (slots m ! 0) \<noteq> 0"
    using pool_okD(2) [OF ok] pool_okD(5) [OF ok, of 0] by (simp_all add: get_blk_in)
  then show ?thesis using ev False ok by (simp add: mymalloc_def)
next
  case True
  obtain k0 where k0: "first_page m k0" using first_page_ex by blast
  define k where "k = (if request = 0 then k0 else 0)"
  have k: "k \<le> 2029" "request = 0 \<Longrightarrow> first_free m 0 = Some k" "request \<noteq> 0 \<Longrightarrow> k = 0"
    using k0 first_page_law [OF ok k0] by (auto simp: k_def first_page_def)
  have k9: "k < 2099" using k(1) by simp
  have al: "k < 2029 \<and> alloc_start (slots m ! k) = page_addr m k \<or> k = 2029 \<and> alloc_start (slots m ! k) = 0 \<and> tail_ok (slots m ! k)"
    using k(1) pool_okD(3) [OF ok, of k] pool_okD(6) [OF ok, of k] by (cases "k = 2029") (auto simp: tail_ok_def)
  note R = mymalloc_ready [OF ok k9 k(2,3) True]
  consider (over) "alloc_start (slots m ! k) + len > page_addr m 0 + 7920000"
    | (small) "\<not> alloc_start (slots m ! k) + len > page_addr m 0 + 7920000" "len \<le> 4092"
    | (large) "\<not> alloc_start (slots m ! k) + len > page_addr m 0 + 7920000" "4092 < len" by linarith
  then show ?thesis
  proof cases
    case over
    then show ?thesis using R ev ok by simp
  next
    case small
    have "pool_ok (m\<lparr>slots := (slots m)[k := (slots m ! k)\<lparr>is_free := 0\<rparr>]\<rparr>)"
      by (rule pool_ok_upd [OF ok, where f = "\<lambda>b. b\<lparr>is_free := 0\<rparr>"]) (use al k9 in \<open>auto simp: tail_ok_def\<close>)
    then show ?thesis using R ev small al by (auto simp: page_addr_def)
  next
    case large
    obtain n where n: "pages_needed len = int n" "2 \<le> n" "n \<le> 21" using pages_needed_range [OF large(2) True] .
    have n0: "0 < n" "nat (int n + 1) = Suc n" using n(2) by simp_all
    from ok k(1) n0(1) show ?thesis
    proof (cases rule: find_run_any)
      case (found r)
      have rn: "r + n \<le> 2029" using found(3) by (simp add: run_at_def)
      then have b: "get_blk m r = Some (slots m ! r)" "alloc_start (slots m ! r) = page_addr m r"
        using n(2) pool_okD(2) [OF ok] pool_okD(3) [OF ok, of r] by (simp_all add: get_blk_in)
      obtain m2 where m2: "mark_pages (Suc n) (Some r) m = Some m2" "pool_ok m2" "mem m2 = mem m"
        using mark_pages_law [OF ok, of r "Suc n"] rn by auto
      have "len \<le> 4092 * int n" using n(1) pages_needed_ceil [of len] by linarith
      then show ?thesis using R ev large n(1) n0(2) found(1) b m2 rn
        by (auto simp: page_addr_def simp del: mark_pages.simps)
    next
      case (missing f sv)
      have ev2: "do { m \<leftarrow> mark_pages (Suc n) sv m; Some (0, m) } = Some (p, m')"
        using R ev large n(1) n0(2) missing(1,2) by (simp del: mark_pages.simps)
      then obtain j where j: "sv = Some j" by (cases sv) auto
      then have "j < 2029" using missing(3) by (auto simp: free_set_def)
      then show ?thesis using ev2 j mark_pages_law [OF ok, of j "Suc n"] n(3) by (auto simp del: mark_pages.simps)
    qed
  qed
qed

text \<open>
  Claim C39. Whatever the request, a call of \<open>mymalloc\<close> that returns keeps the layout of the metadata, and a
  pointer it returns has room for the request inside the page area.
\<close>

theorem mymalloc_in_bounds:
  assumes "pool_ok m" "0 \<le> len" "mymalloc len request m = Some (p, m')"
  shows "pool_ok m' \<and> mem m' = mem m \<and> (p = 0 \<or> mem m + 83886 \<le> p \<and> p + len \<le> mem m + 8388608)"
  by (rule mymalloc_keeps_law [OF assms])

section \<open>Freeing pages\<close>

lemma page_addr_inj: "page_addr m i = page_addr m j \<Longrightarrow> i = j"
  by (simp add: page_addr_def)

lemma find_blk_page:
  assumes ok: "pool_ok m" and k: "c \<le> k" "k < 2029"
  shows "find_blk m (page_addr m k) c = Some k"
  using k(1)
proof (induction "k - c" arbitrary: c)
  case 0
  then show ?case using pool_okD(2) [OF ok] pool_okD(3) [OF ok k(2)] k by (subst find_blk.simps) (simp add: get_blk_in)
next
  case (Suc d)
  have l: "length (slots m) = 2099" using ok by (rule pool_okD)
  have c: "c < 2029" "c \<noteq> k" "c + 1 \<le> k" using Suc k by simp_all
  have "alloc_start (slots m ! c) \<noteq> page_addr m k" "alloc_start (slots m ! 0) = page_addr m 0"
    using pool_okD(3) [OF ok, of c] pool_okD(3) [OF ok, of 0] c page_addr_inj [of m c k] by auto
  moreover have "blk_addr m c < page_addr m 0" using c by (simp add: blk_addr_def page_addr_def)
  moreover have "find_blk m (page_addr m k) (c + 1) = Some k" using Suc c by simp
  ultimately show ?case using l c by (subst find_blk.simps) (simp add: get_blk_in)
qed

text \<open>Following the links ends at slot 2029 at the latest and changes nothing but the links.\<close>

lemma clear_chain_law:
  assumes "pool_ok m" "c \<le> 2029"
  shows "\<exists>m'. clear_chain c m = Some m' \<and> pool_ok m' \<and> mem m' = mem m \<and> free_set m' = free_set m"
  using assms
proof (induction "2029 - c" arbitrary: c m)
  case 0
  then show ?case using pool_okD(2) [OF 0(2)] pool_okD(6) [OF 0(2), of 2029]
    by (subst clear_chain.simps) (auto simp: get_blk_in tail_ok_def)
next
  case (Suc d)
  define m1 where "m1 = m\<lparr>slots := (slots m)[c := (slots m ! c)\<lparr>mb_next_page := None\<rparr>]\<rparr>"
  have c: "c < 2029" "c < length (slots m)" "d = 2029 - Suc c" using Suc(2) pool_okD(2) [OF Suc(3)] by simp_all
  have ok1: "pool_ok m1" unfolding m1_def
    by (rule pool_ok_upd [OF Suc(3), where f = "\<lambda>b. b\<lparr>mb_next_page := None\<rparr>"]) (use c in simp_all)
  have f1: "free_set m1 = free_set m" "mem m1 = mem m"
    using c by (auto simp: m1_def free_set_def nth_list_update split: if_splits)
  from Suc(1) [OF c(3) ok1] c(1) obtain m' where "clear_chain (Suc c) m1 = Some m'" "pool_ok m'" "mem m' = mem m" "free_set m' = free_set m"
    using f1 by auto
  then show ?case using c(2) Suc(3) by (subst clear_chain.simps) (simp add: get_blk_in m1_def)
qed

lemma myfree_law:
  assumes ok: "pool_ok m" and k: "k < 2029"
  shows "\<exists>m'. myfree (page_addr m k) m = Some m' \<and> pool_ok m' \<and> mem m' = mem m \<and> free_set m' = insert k (free_set m)"
proof -
  define m1 where "m1 = m\<lparr>slots := (slots m)[k := (slots m ! k)\<lparr>is_free := 1\<rparr>]\<rparr>"
  have l: "length (slots m) = 2099" using ok by (rule pool_okD)
  have ok1: "pool_ok m1" unfolding m1_def
    by (rule pool_ok_upd [OF ok, where f = "\<lambda>b. b\<lparr>is_free := 1\<rparr>"]) (use k in simp_all)
  have f1: "free_set m1 = insert k (free_set m)" using free_set_upd [OF ok k] by (simp add: m1_def)
  obtain m' where m': "clear_chain k m1 = Some m'" "pool_ok m'" "mem m' = mem m" "free_set m' = free_set m1"
    using clear_chain_law [OF ok1, of k] k by (auto simp: m1_def)
  have "\<not> (page_addr m k < mem m \<or> mem m + 8388608 \<le> page_addr m k)" using k by (simp add: page_addr_def)
  then have "myfree (page_addr m k) m = Some m'"
    using find_blk_page [OF ok _ k, of 0] l k m'(1) pool_okD(3) [OF ok k] by (simp add: myfree_def get_blk_in upd_blk_in m1_def)
  then show ?thesis using m' f1 by simp
qed

text \<open>
  Allocating and freeing a page is a round trip: the set of free pages is as before, and the same
  request gets the same page again.
\<close>

lemma malloc_free_same_page:
  assumes ok: "pool_ok m" and k: "first_page m k" "k < 2029" and len: "0 \<le> len" "len \<le> 4092" "4092 * int k + len \<le> 7920000"
  shows "\<exists>p m' m'' m3. mymalloc len 0 m = Some (p, m') \<and> p \<noteq> 0 \<and> myfree p m' = Some m'' \<and> pool_ok m'' \<and>
    free_set m'' = free_set m \<and> mymalloc len 0 m'' = Some (p, m3)"
proof -
  from mymalloc_small_law [OF ok k(1) len(1,2)] k len obtain m' where
    m': "mymalloc len 0 m = Some (page_addr m k, m')" "pool_ok m'" "mem m' = mem m" "free_set m' = free_set m - {k}" "k \<in> free_set m"
    by auto
  have ad: "page_addr m' i = page_addr m i" for i using m'(3) by (simp add: page_addr_def)
  from myfree_law [OF m'(2) k(2)] obtain m'' where
    m'': "myfree (page_addr m k) m' = Some m''" "pool_ok m''" "mem m'' = mem m" "free_set m'' = free_set m"
    using m' ad by (auto simp: insert_absorb)
  have "first_page m'' k" using k(1) m''(4) by (simp add: first_page_def)
  from mymalloc_small_law [OF m''(2) this len(1,2)] k len obtain m3 where "mymalloc len 0 m'' = Some (page_addr m'' k, m3)" by auto
  moreover have "page_addr m'' k = page_addr m k" using m''(3) by (simp add: page_addr_def)
  moreover have "page_addr m k \<noteq> 0" using pool_okD(1) [OF ok] by (simp add: page_addr_def)
  ultimately show ?thesis using m' m'' by auto
qed

text \<open>
  Freeing an allocation of several pages makes only its first page free again: the other pages, and
  the one taken in excess, stay allocated.
\<close>

theorem myfree_leaks:
  assumes ok: "pool_ok m" and k: "first_page m k" and len: "4092 < len" "len \<le> 83886" "4092 * int k + len \<le> 7920000"
    and n: "pages_needed len = int n" and r: "run_at (free_set m) n r" and first: "\<forall>j < r. \<not> run_at (free_set m) n j"
  shows "\<exists>p m' m''. mymalloc len 0 m = Some (p, m') \<and> myfree p m' = Some m'' \<and> free_set m'' = free_set m - {Suc r..r + n}"
proof -
  from mymalloc_large_law [OF assms] obtain m' where
    m': "mymalloc len 0 m = Some (page_addr m r, m')" "pool_ok m'" "mem m' = mem m" "free_set m' = free_set m - {r..r + n}" by blast
  have n2: "2 \<le> n" using pages_needed_range [OF len(1,2)] n by (metis of_nat_eq_iff)
  have r2: "r < 2029" "r \<in> free_set m" using r n2 by (auto simp: run_at_def)
  have "page_addr m' r = page_addr m r" using m'(3) by (simp add: page_addr_def)
  with myfree_law [OF m'(2) r2(1)] m'(4) obtain m'' where
    m'': "myfree (page_addr m r) m' = Some m''" "free_set m'' = insert r (free_set m - {r..r + n})" by auto
  have "{r..r + n} = insert r {Suc r..r + n}" by auto
  then have "free_set m'' = free_set m - {Suc r..r + n}" using m''(2) r2(2) by auto
  then show ?thesis using m'(1) m''(1) by blast
qed

text \<open>The refusals: too large a request, and a pointer that is not the start of a page.\<close>

theorem mymalloc_refuses:
  assumes "pool_ok m"
  shows "(len > 83886 \<longrightarrow> mymalloc len request m = Some (0, m)) \<and>
    ((\<forall>k < 2029. p \<noteq> page_addr m k) \<longrightarrow> p \<noteq> alloc_start (slots m ! 2097) \<longrightarrow> p \<noteq> alloc_start (slots m ! 2098) \<longrightarrow>
       myfree p m = Some m)"
proof -
  have l: "length (slots m) = 2099" and p0: "page_num (slots m ! 0) = 1" "alloc_start (slots m ! 0) = page_addr m 0" "0 < mem m"
    using pool_okD(1,2) [OF assms] pool_okD(3,5) [OF assms, of 0] by simp_all
  have "mymalloc len request m = Some (0, m)" if "len > 83886"
    using that l p0 by (simp add: mymalloc_def get_blk_in)
  moreover have "myfree p m = Some m"
    if p: "\<forall>k < 2029. p \<noteq> page_addr m k" "p \<noteq> alloc_start (slots m ! 2097)" "p \<noteq> alloc_start (slots m ! 2098)"
  proof (cases "p < mem m \<or> mem m + 8388608 \<le> p")
    case False
    have other: "alloc_start (slots m ! i) \<noteq> p" if "i < 2099" for i
    proof -
      consider "i < 2029" | "2029 \<le> i" "i < 2097" | "i = 2097" | "i = 2098" using \<open>i < 2099\<close> by linarith
      then show ?thesis using p pool_okD(3) [OF assms, of i] pool_okD(6) [OF assms, of i] False p0(3)
        by cases (auto simp: tail_ok_def)
    qed
    have "find_blk m p c = Some 2098" if "c \<le> 2098" for c
      using that
    proof (induction "2098 - c" arbitrary: c)
      case 0
      then show ?case using l p0 by (subst find_blk.simps) (auto simp: get_blk_in blk_addr_def page_addr_def)
    next
      case (Suc d)
      then have "find_blk m p (c + 1) = Some 2098" by simp
      moreover have "blk_addr m c < page_addr m 0" using Suc(2) by (simp add: blk_addr_def page_addr_def)
      ultimately show ?case using l p0 other [of c] Suc(2) by (subst find_blk.simps) (simp add: get_blk_in)
    qed
    then show ?thesis using l other [of 2098] False by (simp add: myfree_def get_blk_in)
  qed (simp add: myfree_def)
  ultimately show ?thesis by blast
qed

section \<open>The allocator as a source of pages\<close>

text \<open>A request for one whole page, as a client sees it; the pages that such requests can get.\<close>

definition page_request :: "pool \<Rightarrow> (int \<times> pool) option" where
  "page_request m = do { (p, m) \<leftarrow> mymalloc 4092 0 m; if p = 0 then None else Some (p, m) }"

definition usable :: "pool \<Rightarrow> int set" where
  "usable m = page_addr m ` {k \<in> free_set m. k \<le> 1934}"

definition page_addrs :: "pool \<Rightarrow> int set" where
  "page_addrs m = page_addr m ` {..1934}"

lemma usable_upd:
  assumes "mem m' = mem m"
  shows "free_set m' = free_set m - {k} \<Longrightarrow> usable m' = usable m - {page_addr m k}"
    and "free_set m' = insert k (free_set m) \<Longrightarrow> k \<le> 1934 \<Longrightarrow> usable m' = insert (page_addr m k) (usable m)"
    and "page_addrs m' = page_addrs m"
proof -
  have pa: "page_addr m' = page_addr m" using assms by (simp add: page_addr_def fun_eq_iff)
  have inj: "inj (page_addr m)" by (simp add: inj_def page_addr_def)
  show "page_addrs m' = page_addrs m" by (simp add: page_addrs_def pa)
  assume F: "free_set m' = free_set m - {k}"
  have "{i \<in> free_set m - {k}. i \<le> 1934} = {i \<in> free_set m. i \<le> 1934} - {k}" by blast
  then show "usable m' = usable m - {page_addr m k}" using image_set_diff [OF inj] by (simp add: usable_def pa F)
next
  have pa: "page_addr m' = page_addr m" using assms by (simp add: page_addr_def fun_eq_iff)
  assume F: "free_set m' = insert k (free_set m)" and k: "k \<le> 1934"
  have "{i \<in> insert k (free_set m). i \<le> 1934} = insert k {i \<in> free_set m. i \<le> 1934}" using k by blast
  then show "usable m' = insert (page_addr m k) (usable m)" by (simp add: usable_def pa F)
qed

lemma page_request_cases:
  assumes ok: "pool_ok m"
  obtains k m' where "mymalloc 4092 0 m = Some (page_addr m k, m')" "k \<le> 1934" "k \<in> free_set m" "pool_ok m'" "mem m' = mem m"
      "free_set m' = free_set m - {k}"
  | "mymalloc 4092 0 m = Some (0, m)" "usable m = {}"
proof -
  obtain k where k: "first_page m k" using first_page_ex by blast
  show thesis
  proof (cases "k \<le> 1934")
    case True
    with mymalloc_small_law [OF ok k, of 4092] that(1) show ?thesis by auto
  next
    case False
    then have "i \<notin> free_set m" if "i \<le> 1934" for i using k that by (auto simp: first_page_def)
    moreover from mymalloc_small_law [OF ok k, of 4092] False have "mymalloc 4092 0 m = Some (0, m)" by auto
    ultimately show ?thesis using that(2) by (auto simp: usable_def)
  qed
qed

lemma page_addr_pos: "pool_ok m \<Longrightarrow> page_addr m k \<noteq> 0"
  using pool_okD(1) [of m] by (simp add: page_addr_def)

lemma page_request_takes:
  assumes ok: "pool_ok m" and "usable m \<noteq> {}"
  shows "\<exists>p m'. page_request m = Some (p, m') \<and> p \<in> usable m \<and> pool_ok m' \<and> usable m' = usable m - {p}"
  using ok
proof (cases rule: page_request_cases)
  case (1 k m')
  then show ?thesis using usable_upd(1) [OF 1(5,6)] page_addr_pos [OF ok] by (simp add: page_request_def usable_def)
qed (use assms(2) in simp)

lemma page_request_pages:
  assumes ok: "pool_ok m" and r: "page_request m = Some (p, m')"
  shows "page_addrs m' = page_addrs m"
  using ok
proof (cases rule: page_request_cases)
  case (1 k m'')
  then have "m' = m''" using r page_addr_pos [OF ok] by (simp add: page_request_def)
  then show ?thesis using usable_upd(3) [OF 1(5)] by simp
qed (use r in \<open>simp add: page_request_def\<close>)

lemma myfree_gives:
  assumes ok: "pool_ok m" and "p \<in> page_addrs m"
  shows "\<exists>m'. myfree p m = Some m' \<and> pool_ok m' \<and> usable m' = insert p (usable m) \<and> page_addrs m' = page_addrs m"
proof -
  obtain k where k: "p = page_addr m k" "k \<le> 1934" using assms(2) by (auto simp: page_addrs_def)
  then obtain m' where m': "myfree p m = Some m'" "pool_ok m'" "mem m' = mem m" "free_set m' = insert k (free_set m)"
    using myfree_law [OF ok, of k] by auto
  then show ?thesis using usable_upd(2) [OF m'(3,4) k(2)] usable_upd(3) [OF m'(3)] k(1) by simp
qed

lemma usable_pages: "finite (usable m)" "usable m \<subseteq> page_addrs m"
  by (auto simp: usable_def page_addrs_def)

interpretation one_page: returning_source pool_ok usable page_request page_addrs myfree
  by unfold_locales (rule page_request_takes page_request_pages myfree_gives usable_pages; assumption)+

text \<open>
  Claim C21. From the static array on, any number of requests for one page up to 1935 gets that many
  different pages, and freeing them, in any order, makes all of them usable again.
\<close>

theorem mymalloc_many:
  assumes st: "pool_start m" and n: "0 < n" "n \<le> 1935"
  shows "\<exists>ps m'. repeat_alloc page_request n m = Some (ps, m') \<and> length ps = n \<and> distinct ps \<and> set ps \<subseteq> page_addrs m \<and>
    (\<forall>qs. set qs = set ps \<longrightarrow> (\<exists>m''. repeat_release myfree qs m' = Some m'' \<and> pool_ok m'' \<and> usable m'' = page_addrs m))"
proof -
  from init_pages_law [OF st] obtain mi where
    mi: "init_pages 83886 1 0 m = Some mi" "pool_ok mi" "free_set mi = {..<2029}" "mem mi = mem m" by blast
  have pr: "page_request m = page_request mi"
    unfolding page_request_def using mymalloc_first [OF st mi(1,2)] by simp
  then have "repeat_alloc page_request n m = repeat_alloc page_request n mi" using n(1) by (cases n) simp_all
  moreover have "{k \<in> {..<2029}. k \<le> 1934} = {..1934 :: nat}" by auto
  then have us: "usable mi = page_addrs m" "card (usable mi) = 1935"
    using mi(3,4) by (simp_all add: usable_def page_addrs_def page_addr_def card_image inj_on_def)
  ultimately show ?thesis using one_page.alloc_release [OF mi(2), of n] n(2) unfolding us by simp
qed

definition fresh_pool :: pool where
  "fresh_pool = \<lparr>mem = 4096, slots = replicate 2099 zero_block\<rparr>"

lemma fresh_pool_start: "pool_start fresh_pool"
  by (simp add: pool_start_def fresh_pool_def)

theorem mymalloc_many_witness:
  "\<exists>p q m'. repeat_alloc page_request 2 fresh_pool = Some ([p, q], m') \<and> p \<noteq> q"
  using mymalloc_many [OF fresh_pool_start, of 2] by (auto simp: numeral_2_eq_2 length_Suc_conv)

end
