(* ===== verification/Mymalloc_Examples.thy ===== *)
theory Mymalloc_Examples
  imports Mymalloc
begin

text \<open>A concrete pool at address 4096, after the first call, with the pages that satisfy \<open>P\<close> free.\<close>

definition demo_pool :: "(nat \<Rightarrow> bool) \<Rightarrow> pool" where
  "demo_pool P = \<lparr>mem = 4096, slots = map (\<lambda>i. \<lparr>mb_size = 0, mb_next = Some (Suc i), mb_next_page = None,
     alloc_start = 87982 + 4092 * int i, is_free = (if P i then 1 else 0), page_num = int i + 1, mb_TID = 0\<rparr>) [0..<2029] @
     replicate 70 zero_block\<rparr>"

lemma demo_pool_ok: "pool_ok (demo_pool P)"
  by (auto simp: pool_ok_def demo_pool_def page_ok_def page_addr_def tail_ok_def nth_append zero_block_def)

lemma demo_pool_free: "free_set (demo_pool P) = {i. i < 2029 \<and> P i}"
  by (auto simp: free_set_def demo_pool_def nth_append)

lemma demo_pool_addr: "page_addr (demo_pool P) i = 87982 + 4092 * int i"
  by (simp add: page_addr_def demo_pool_def)

lemma demo_first: "first_page (demo_pool (\<lambda>i. 5 \<le> i)) 5" "first_page (demo_pool (\<lambda>i. i = 5)) 5"
  by (auto simp: first_page_def demo_pool_free)

lemma run_two: "run_at F 2 j \<longleftrightarrow> j + 2 \<le> 2029 \<and> j \<in> F \<and> Suc j \<in> F"
  by (auto simp: run_at_def less_Suc_eq)

lemma demo_run: "run_at (free_set (demo_pool (\<lambda>i. 5 \<le> i))) 2 5" "\<forall>j < 5. \<not> run_at (free_set (demo_pool (\<lambda>i. 5 \<le> i))) 2 j"
  by (auto simp: run_two demo_pool_free)

theorem mymalloc_small_witness:
  "\<exists>m'. mymalloc 100 0 (demo_pool (\<lambda>i. 5 \<le> i)) = Some (108442, m') \<and> 5 \<notin> free_set m'"
  using mymalloc_small [OF demo_pool_ok demo_first(1), of 100] by (auto simp: demo_pool_addr)

theorem mymalloc_in_bounds_witness:
  "\<exists>p m'. mymalloc 5000 0 (demo_pool (\<lambda>i. 5 \<le> i)) = Some (p, m') \<and> pool_ok m' \<and> 87982 \<le> p \<and> p + 5000 \<le> 8392704"
proof -
  obtain m' where m': "mymalloc 5000 0 (demo_pool (\<lambda>i. 5 \<le> i)) = Some (108442, m')"
    using mymalloc_large_law [OF demo_pool_ok demo_first(1) _ _ _ _ demo_run, of 5000] by (auto simp: demo_pool_addr pages_needed_def)
  then show ?thesis using mymalloc_in_bounds [OF demo_pool_ok _ m'] by (auto simp: demo_pool_def)
qed


theorem mymalloc_library_alias_witness:
  "\<exists>m' m''. mymalloc 8 1 (demo_pool (\<lambda>_. True)) = Some (87982, m') \<and> mymalloc 16 1 m' = Some (87982, m'')"
  using mymalloc_library_alias [OF demo_pool_ok, of 8 16 1] by (simp add: demo_pool_addr)

theorem myfree_leaks_witness:
  "\<exists>p m' m''. mymalloc 5000 0 (demo_pool (\<lambda>i. 5 \<le> i)) = Some (p, m') \<and> myfree p m' = Some m'' \<and>
     free_set m'' = {i. i < 2029 \<and> 5 \<le> i} - {6..7}"
  using myfree_leaks [OF demo_pool_ok demo_first(1) _ _ _ _ demo_run, of 5000]
  by (simp add: demo_pool_free pages_needed_def)

theorem mymalloc_refuses_witness:
  "mymalloc 100000 0 (demo_pool (\<lambda>_. True)) = Some (0, demo_pool (\<lambda>_. True)) \<and>
   myfree 5000 (demo_pool (\<lambda>_. True)) = Some (demo_pool (\<lambda>_. True))"
proof -
  have "5000 \<noteq> page_addr (demo_pool (\<lambda>_. True)) k" for k by (simp add: demo_pool_addr)
  moreover have "alloc_start (slots (demo_pool (\<lambda>_. True)) ! 2097) = 0" "alloc_start (slots (demo_pool (\<lambda>_. True)) ! 2098) = 0"
    by (simp_all add: demo_pool_def nth_append zero_block_def)
  ultimately show ?thesis using mymalloc_refuses [OF demo_pool_ok, of 100000 0 "\<lambda>_. True" 5000] by simp
qed

end
