(* ===== verification/Paging.thy ===== *)
theory Paging
  imports C_Prelude
begin

text \<open>
  The paged memory of asst2 (\<^verbatim>\<open>src/asst2/my_pthread.c\<close>, lines 33 to 284): 256 pages of 4096 bytes at
  \<open>memory\<close>, one \<open>page_meta\<close> for each, and for every thread the doubly linked list of the pages it owns.
  A pointer into \<open>page_data\<close> is an index, \<open>None\<close> for \<open>NULL\<close>; \<open>frames\<close> holds the bytes of the pages by
  their place in memory and \<open>locked\<close> the places with \<open>PROT_NONE\<close>. Of the context of a thread only \<open>uc_stack.ss_sp\<close> is kept.
  What \<open>memalign\<close> returns is the argument \<open>base\<close>; installing the signal handler is left out.
\<close>

section \<open>Data\<close>

record page_meta =
  pg_page :: int
  pg_next :: "nat option"
  pg_prev :: "nat option"
  pg_free :: int
  pg_more :: int
  pg_TID :: int

datatype status2 = Active2 | Yield2 | Wait_thread2 | Wait_mutex2 | Thread_exit2

record pthread2 =
  t_id :: int
  t_priority :: int
  t_intervals :: int
  t_wait_id :: int
  t_status :: status2
  t_ret :: addr
  t_stack :: int
  page_list :: "nat option"
  num_pages :: int

record vm =
  memory :: int
  page_data :: "page_meta list"
  page_init :: int
  vthreads :: "addr \<rightharpoonup> pthread2"
  vrunning :: addr
  frames :: "string list"
  locked :: "nat set"
  errno :: int

abbreviation (input) PAGE_SIZE :: int where "PAGE_SIZE \<equiv> 4096"
abbreviation (input) NUM_PAGES :: nat where "NUM_PAGES \<equiv> 256"

definition meta :: "nat option \<Rightarrow> vm \<Rightarrow> page_meta option" where
  "meta p v = do { i \<leftarrow> p; arr_get (page_data v) (int i) }"

definition set_meta :: "nat option \<Rightarrow> (page_meta \<Rightarrow> page_meta) \<Rightarrow> vm \<Rightarrow> vm option" where
  "set_meta p f v = do {
     i \<leftarrow> p;
     d \<leftarrow> arr_get (page_data v) (int i);
     ds \<leftarrow> arr_set (page_data v) (int i) (f d);
     Some (v\<lparr>page_data := ds\<rparr>) }"

definition runner :: "vm \<Rightarrow> pthread2 option" where
  "runner v = (if vrunning v = NULL then None else vthreads v (vrunning v))"

definition set_runner :: "pthread2 \<Rightarrow> vm \<Rightarrow> vm" where
  "set_runner t v = v\<lparr>vthreads := (vthreads v)(vrunning v \<mapsto> t)\<rparr>"

section \<open>Page faults\<close>

fun walk :: "nat \<Rightarrow> nat option \<Rightarrow> vm \<Rightarrow> nat option option" where
  "walk 0 p v = Some p"
| "walk (Suc n) p v = do { d \<leftarrow> meta p v; walk n (pg_next d) v }"

definition frame_no :: "int \<Rightarrow> vm \<Rightarrow> int" where
  "frame_no a v = (a - memory v) div PAGE_SIZE"

text \<open>
  An address of no page leaves \<open>swapout\<close> or \<open>swapin\<close> without a value. The copy reads the right page
  without unlocking it; a second fault inside the handler ends the program.
\<close>

definition vmem_sig_handler :: "int \<Rightarrow> vm \<Rightarrow> vm option" where
  "vmem_sig_handler si_addr v = do {
     let index = to_int (c_div (si_addr - memory v) PAGE_SIZE + 1);
     let wrong_page = memory v + (index - 1) * PAGE_SIZE;
     t \<leftarrow> runner v;
     ptr \<leftarrow> walk (nat (index - 1)) (page_list t) v;
     d \<leftarrow> meta ptr v;
     let right_page = pg_page d;
     let swapout = scan (\<lambda>d. pg_page d = wrong_page) (page_data v);
     let swapin = scan (\<lambda>d. pg_page d = right_page) (page_data v);
     let w = frame_no wrong_page v;
     let r = frame_no right_page v;
     wf \<leftarrow> arr_get (frames v) w;
     rf \<leftarrow> arr_get (frames v) r;
     let lk = locked v - {nat w};
     if nat r \<in> lk then None
     else do {
       fs \<leftarrow> arr_set (frames v) w rf;
       fs \<leftarrow> arr_set fs r wf;
       d \<leftarrow> arr_get (page_data v) swapin;
       ds \<leftarrow> arr_set (page_data v) swapin (d\<lparr>pg_page := right_page\<rparr>);
       d \<leftarrow> arr_get ds swapout;
       ds \<leftarrow> arr_set ds swapout (d\<lparr>pg_page := wrong_page\<rparr>);
       Some (v\<lparr>frames := fs, page_data := ds, locked := insert (nat r) lk\<rparr>) } }"

section \<open>Allocation\<close>

definition page_malloc_init :: "int \<Rightarrow> vm \<Rightarrow> vm" where
  "page_malloc_init base v = v\<lparr>memory := base,
     page_data := map (\<lambda>i. \<lparr>pg_page = base + int i * PAGE_SIZE, pg_next = None, pg_prev = None, pg_free = 1,
       pg_more = 0, pg_TID = -1\<rparr>) [0..<NUM_PAGES]\<rparr>"

text \<open>The search for free pages: the indices it stores in \<open>free_pages\<close>, from index \<open>i\<close> on.\<close>

fun find_pages :: "page_meta list \<Rightarrow> nat \<Rightarrow> int \<Rightarrow> nat list" where
  "find_pages [] i remaining = []"
| "find_pages (d # ds) i remaining =
     (if pg_free d \<noteq> 0
      then i # (if remaining - 1 = 0 then [] else find_pages ds (Suc i) (remaining - 1))
      else find_pages ds (Suc i) remaining)"

text \<open>The loop that links the pages found: \<open>n\<close> rounds from round \<open>i\<close> on.\<close>

fun link_pages :: "int \<Rightarrow> nat list \<Rightarrow> nat \<Rightarrow> nat \<Rightarrow> page_meta list \<Rightarrow> page_meta list" where
  "link_pages tid fps 0 i ds = ds"
| "link_pages tid fps (Suc n) i ds = link_pages tid fps n (Suc i) (ds[fps ! i := (ds ! (fps ! i))
     \<lparr>pg_free := 0, pg_TID := tid, pg_more := (if i = length fps - 1 then 0 else 1),
      pg_next := (if i = length fps - 1 then None else Some (fps ! Suc i)),
      pg_prev := (if i = 0 then None else Some (fps ! (i - 1)))\<rparr>])"

partial_function (option) last_page :: "nat \<Rightarrow> vm \<Rightarrow> nat option" where
  "last_page p v = do {
     d \<leftarrow> meta (Some p) v;
     (case pg_next d of None \<Rightarrow> Some p | Some q \<Rightarrow> last_page q v) }"

text \<open>
  \<open>len\<close> is the parameter \<open>size\<close>. With \<open>len = 0\<close> the array \<open>free_pages\<close> has no element and the search
  stores outside it.
\<close>

definition page_malloc :: "int \<Rightarrow> int \<Rightarrow> vm \<Rightarrow> (int \<times> vm) option" where
  "page_malloc base len v = do {
     let v = (if page_init v = 0 then (page_malloc_init base v)\<lparr>page_init := 1\<rparr> else v);
     let need = (if len mod PAGE_SIZE = 0 then to_int (len div PAGE_SIZE) else to_int (to_int (len div PAGE_SIZE) + 1));
     if need \<le> 0 then None
     else do {
       let free_pages = find_pages (page_data v) 0 need;
       if int (length free_pages) \<noteq> need then Some (0, v\<lparr>errno := ENOMEM\<rparr>)
       else do {
         t \<leftarrow> runner v;
         let v = v\<lparr>page_data := link_pages (t_id t) free_pages (length free_pages) 0 (page_data v)\<rparr>;
         v \<leftarrow> (case page_list t of
                 None \<Rightarrow> Some (set_runner (t\<lparr>page_list := Some (free_pages ! 0)\<rparr>) v)
               | Some p \<Rightarrow> do {
                   q \<leftarrow> last_page p v;
                   v \<leftarrow> set_meta (Some q) (\<lambda>d. d\<lparr>pg_next := Some (free_pages ! 0)\<rparr>) v;
                   set_meta (Some (free_pages ! 0)) (\<lambda>d. d\<lparr>pg_prev := Some q\<rparr>) v });
         t \<leftarrow> runner v;
         Some (memory v + num_pages t * PAGE_SIZE + 1, set_runner (t\<lparr>num_pages := num_pages t + need\<rparr>) v) } } }"

section \<open>Freeing\<close>

partial_function (option) find_alloc :: "int \<Rightarrow> nat option \<Rightarrow> vm \<Rightarrow> nat option option" where
  "find_alloc index ptr v =
     (case ptr of None \<Rightarrow> Some None
      | Some p \<Rightarrow> do {
          d \<leftarrow> meta (Some p) v;
          if pg_page d = index then Some (Some p) else find_alloc index (pg_next d) v })"

partial_function (option) alloc_end :: "nat option \<Rightarrow> vm \<Rightarrow> nat option option" where
  "alloc_end ptr v = do {
     d \<leftarrow> meta ptr v;
     if pg_more d \<noteq> 0 then alloc_end (pg_next d) v else Some ptr }"

text \<open>The loop that sets the pages up to \<open>cut2\<close> free and counts them.\<close>

partial_function (option) free_run :: "nat option \<Rightarrow> nat option \<Rightarrow> int \<Rightarrow> vm \<Rightarrow> (int \<times> vm) option" where
  "free_run cut2 ptr n v =
     (if ptr = None \<or> ptr = cut2 then Some (n, v)
      else do {
        d \<leftarrow> meta ptr v;
        v \<leftarrow> set_meta ptr (\<lambda>d. d\<lparr>pg_free := 1\<rparr>) v;
        free_run cut2 (pg_next d) (n + 1) v })"

definition page_free :: "int \<Rightarrow> vm \<Rightarrow> vm option" where
  "page_free index v = do {
     t \<leftarrow> runner v;
     ptr \<leftarrow> find_alloc index (page_list t) v;
     if ptr = None then Some (v\<lparr>errno := EINVAL\<rparr>)
     else do {
       d \<leftarrow> meta ptr v;
       let cut1 = pg_prev d;
       ptr \<leftarrow> alloc_end ptr v;
       d \<leftarrow> meta ptr v;
       let cut2 = pg_next d;
       d \<leftarrow> meta cut1 v;
       (free_pages, v) \<leftarrow> free_run cut2 (pg_next d) 0 v;
       v \<leftarrow> set_meta cut1 (\<lambda>d. d\<lparr>pg_next := cut2\<rparr>) v;
       v \<leftarrow> set_meta cut2 (\<lambda>d. d\<lparr>pg_prev := cut1\<rparr>) v;
       t \<leftarrow> runner v;
       Some (set_runner (t\<lparr>num_pages := num_pages t - free_pages\<rparr>) v) } }"

section \<open>The scheduler's part\<close>

text \<open>The loops of the signal handler that set the protection of every page of a thread.\<close>

partial_function (option) protect_list :: "bool \<Rightarrow> nat option \<Rightarrow> vm \<Rightarrow> vm option" where
  "protect_list lock ptr v =
     (case ptr of None \<Rightarrow> Some v
      | Some p \<Rightarrow> do {
          d \<leftarrow> meta (Some p) v;
          let f = nat (frame_no (pg_page d) v);
          protect_list lock (pg_next d) (v\<lparr>locked := (if lock then insert f (locked v) else locked v - {f})\<rparr>) })"

definition switch_pages :: "addr \<Rightarrow> addr \<Rightarrow> vm \<Rightarrow> vm option" where
  "switch_pages prev_thread running_thread v = do {
     t \<leftarrow> vthreads v prev_thread;
     v \<leftarrow> protect_list True (page_list t) v;
     if running_thread = NULL then Some v
     else do {
       t \<leftarrow> vthreads v running_thread;
       protect_list False (page_list t) v } }"

end
