(* ===== verification/Paging_Laws.thy ===== *)
theory Paging_Laws
  imports Paging
begin

text \<open>
  The lists of pages of the threads as lists of page numbers, the invariant of the paged memory
  over them, and what allocation, freeing, faults and the change of threads do to them.
\<close>

section \<open>Linked lists of pages\<close>

definition hd_opt :: "nat list \<Rightarrow> nat option" where
  "hd_opt xs = (case xs of [] \<Rightarrow> None | x # _ \<Rightarrow> Some x)"

text \<open>\<open>xs\<close> is a doubly linked list between \<open>pr\<close> and \<open>nx\<close>.\<close>

definition dlist :: "page_meta list \<Rightarrow> nat option \<Rightarrow> nat list \<Rightarrow> nat option \<Rightarrow> bool" where
  "dlist ds pr xs nx \<longleftrightarrow> (\<forall>j < length xs. xs ! j < length ds \<and>
     pg_prev (ds ! (xs ! j)) = (if j = 0 then pr else Some (xs ! (j - 1))) \<and>
     pg_next (ds ! (xs ! j)) = (if Suc j < length xs then Some (xs ! Suc j) else nx))"

lemma hd_opt_simps [simp]: "hd_opt [] = None" "hd_opt (x # xs) = Some x"
  by (simp_all add: hd_opt_def)

lemma hd_opt_append: "hd_opt (xs @ ys) = (if xs = [] then hd_opt ys else Some (hd xs))"
  by (cases xs) simp_all

lemma dlist_Nil [simp]: "dlist ds pr [] nx"
  by (simp add: dlist_def)

lemma dlist_Cons:
  "dlist ds pr (x # xs) nx \<longleftrightarrow> x < length ds \<and> pg_prev (ds ! x) = pr \<and>
     pg_next (ds ! x) = (if xs = [] then nx else Some (hd xs)) \<and> dlist ds (Some x) xs nx"
proof -
  have "(\<forall>j < Suc (length xs). Q j) \<longleftrightarrow> Q 0 \<and> (\<forall>j < length xs. Q (Suc j))" for Q :: "nat \<Rightarrow> bool"
    by (auto simp: less_Suc_eq_0_disj)
  moreover have "(x # xs) ! (Suc j - 1) = (if j = 0 then x else xs ! (j - 1))" for j by (cases j) simp_all
  ultimately show ?thesis unfolding dlist_def by (auto simp: hd_conv_nth)
qed

lemma dlist_append:
  "dlist ds pr (xs @ ys) nx \<longleftrightarrow> dlist ds pr xs (if ys = [] then nx else Some (hd ys)) \<and>
     dlist ds (if xs = [] then pr else Some (last xs)) ys nx"
proof (induction xs arbitrary: pr)
  case (Cons x xs)
  then show ?case by (cases xs) (auto simp: dlist_Cons hd_append)
qed simp

lemma dlist_in: "dlist ds pr xs nx \<Longrightarrow> x \<in> set xs \<Longrightarrow> x < length ds"
  by (auto simp: dlist_def in_set_conv_nth)

text \<open>A store to another entry, and one that keeps the links.\<close>

lemma dlist_other: "x \<notin> set xs \<Longrightarrow> dlist (ds[x := d]) pr xs nx = dlist ds pr xs nx"
proof -
  assume "x \<notin> set xs"
  then have "ds[x := d] ! (xs ! j) = ds ! (xs ! j)" if "j < length xs" for j
    using that by (metis nth_list_update_neq nth_mem)
  then show ?thesis by (simp add: dlist_def)
qed

lemma dlist_cong:
  assumes "dlist ds pr xs nx" "length ds' = length ds"
    and "\<And>x. x \<in> set xs \<Longrightarrow> pg_next (ds' ! x) = pg_next (ds ! x) \<and> pg_prev (ds' ! x) = pg_prev (ds ! x)"
  shows "dlist ds' pr xs nx"
  using assms by (auto simp: dlist_def)

lemma dlist_set_next:
  assumes "dlist ds pr xs nx" "xs \<noteq> []" "distinct xs"
  shows "dlist (ds[last xs := (ds ! last xs)\<lparr>pg_next := nx'\<rparr>]) pr xs nx'"
  using assms
proof (induction xs arbitrary: pr)
  case (Cons x xs)
  show ?case
  proof (cases "xs = []")
    case True
    then show ?thesis using Cons(2) by (simp add: dlist_Cons)
  next
    case False
    then have "last xs \<noteq> x" using Cons(4) by auto
    then show ?thesis using Cons False by (simp add: dlist_Cons)
  qed
qed simp

lemma dlist_set_prev:
  assumes "dlist ds pr xs nx" "xs \<noteq> []" "distinct xs"
  shows "dlist (ds[hd xs := (ds ! hd xs)\<lparr>pg_prev := pr'\<rparr>]) pr' xs nx"
  using assms by (cases xs) (simp_all add: dlist_Cons dlist_other)

section \<open>The invariant\<close>

definition owns :: "vm \<Rightarrow> addr \<Rightarrow> nat list \<Rightarrow> bool" where
  "owns v a xs \<longleftrightarrow> (\<exists>t. vthreads v a = Some t \<and> page_list t = hd_opt xs \<and> num_pages t = int (length xs) \<and>
     distinct xs \<and> dlist (page_data v) None xs None \<and>
     (\<forall>x \<in> set xs. pg_free (page_data v ! x) = 0 \<and> pg_TID (page_data v ! x) = t_id t))"

definition vm_ok :: "vm \<Rightarrow> (addr \<Rightarrow> nat list) \<Rightarrow> bool" where
  "vm_ok v L \<longleftrightarrow> page_init v \<noteq> 0 \<and> length (page_data v) = 256 \<and>
     (\<forall>i < 256. pg_page (page_data v ! i) = memory v + int i * 4096) \<and>
     (\<forall>a \<in> dom (vthreads v). owns v a (L a)) \<and>
     (\<forall>a \<in> dom (vthreads v). \<forall>b \<in> dom (vthreads v). a \<noteq> b \<longrightarrow> set (L a) \<inter> set (L b) = {})"

definition free_pages :: "vm \<Rightarrow> nat list" where
  "free_pages v = filter (\<lambda>i. pg_free (page_data v ! i) \<noteq> 0) [0..<256]"

lemma vm_okD:
  assumes "vm_ok v L"
  shows "page_init v \<noteq> 0" "length (page_data v) = 256"
    and "i < 256 \<Longrightarrow> pg_page (page_data v ! i) = memory v + int i * 4096"
    and "vthreads v a = Some t \<Longrightarrow> owns v a (L a)"
    and "vthreads v a = Some t \<Longrightarrow> vthreads v b = Some u \<Longrightarrow> a \<noteq> b \<Longrightarrow> set (L a) \<inter> set (L b) = {}"
  using assms unfolding vm_ok_def by blast+

lemma ownsD:
  assumes "owns v a xs" "vthreads v a = Some t"
  shows "page_list t = hd_opt xs" "num_pages t = int (length xs)" "distinct xs" "dlist (page_data v) None xs None"
    and "x \<in> set xs \<Longrightarrow> pg_free (page_data v ! x) = 0" "x \<in> set xs \<Longrightarrow> pg_TID (page_data v ! x) = t_id t"
  using assms by (auto simp: owns_def)

lemma meta_in: "x < length (page_data v) \<Longrightarrow> meta (Some x) v = Some (page_data v ! x)"
  by (simp add: meta_def)

lemma set_meta_in:
  "x < length (page_data v) \<Longrightarrow> set_meta (Some x) f v = Some (v\<lparr>page_data := (page_data v)[x := f (page_data v ! x)]\<rparr>)"
  by (simp add: set_meta_def)

text \<open>Stores that touch no page of the list of a thread leave it as it is.\<close>

lemma owns_frame:
  assumes "owns v a xs" "vthreads v' a = vthreads v a" "length (page_data v') = length (page_data v)"
    "\<And>x. x \<in> set xs \<Longrightarrow> page_data v' ! x = page_data v ! x"
  shows "owns v' a xs"
  using assms dlist_cong [of "page_data v" None xs None "page_data v'"] by (auto simp: owns_def)

section \<open>Initialisation\<close>

lemma page_malloc_init_law:
  assumes "\<And>a t. vthreads v a = Some t \<Longrightarrow> page_list t = None \<and> num_pages t = 0"
  shows "vm_ok ((page_malloc_init base v)\<lparr>page_init := 1\<rparr>) (\<lambda>_. [])"
    and "free_pages ((page_malloc_init base v)\<lparr>page_init := 1\<rparr>) = [0..<256]"
  using assms by (auto simp: vm_ok_def owns_def page_malloc_init_def free_pages_def intro!: filter_True split: if_splits)

section \<open>Allocation\<close>

lemma enum_filter:
  "map fst (filter (\<lambda>(j, d). P d) (enumerate i ds)) = filter (\<lambda>j. P (ds ! (j - i))) [i..<i + length ds]"
proof (induction ds arbitrary: i)
  case (Cons d ds)
  have "filter (\<lambda>j. P ((d # ds) ! (j - i))) [Suc i..<Suc i + length ds] = filter (\<lambda>j. P (ds ! (j - Suc i))) [Suc i..<Suc i + length ds]"
    by (rule filter_cong) (auto simp: nth_Cons')
  then show ?case using Cons [of "Suc i"] by (simp add: upt_conv_Cons del: upt_Suc)
qed simp

lemma find_pages_enum:
  "0 < n \<Longrightarrow> find_pages ds i (int n) = take n (map fst (filter (\<lambda>(j, d). pg_free d \<noteq> 0) (enumerate i ds)))"
proof (induction ds arbitrary: i n)
  case (Cons d ds)
  then obtain k where n: "n = Suc k" by (cases n) simp
  have "find_pages ds (Suc i) (int k) = take k (map fst (filter (\<lambda>(j, d). pg_free d \<noteq> 0) (enumerate (Suc i) ds)))" if "0 < k"
    using Cons(1) that by simp
  then show ?case using Cons(1) [of n "Suc i"] n by auto
qed simp

lemma find_pages_law:
  assumes "length (page_data v) = 256" "0 < n"
  shows "find_pages (page_data v) 0 (int n) = take n (free_pages v)"
  using find_pages_enum [OF assms(2), of "page_data v" 0] enum_filter [of "\<lambda>d. pg_free d \<noteq> 0" 0 "page_data v"] assms(1)
  by (simp add: free_pages_def)

definition linked :: "int \<Rightarrow> nat list \<Rightarrow> nat \<Rightarrow> page_meta \<Rightarrow> page_meta" where
  "linked tid fps i d = d\<lparr>pg_free := 0, pg_TID := tid, pg_more := (if i = length fps - 1 then 0 else 1),
      pg_next := (if i = length fps - 1 then None else Some (fps ! Suc i)),
      pg_prev := (if i = 0 then None else Some (fps ! (i - 1)))\<rparr>"

lemma link_pages_step:
  "link_pages tid fps (Suc n) i ds = link_pages tid fps n (Suc i) (ds[fps ! i := linked tid fps i (ds ! (fps ! i))])"
  by (simp add: linked_def)

lemma link_pages_from:
  assumes "distinct fps" "set fps \<subseteq> {..<length ds}" "i + n = length fps"
  shows "length (link_pages tid fps n i ds) = length ds \<and> (\<forall>x. x \<notin> set fps \<longrightarrow> link_pages tid fps n i ds ! x = ds ! x) \<and>
    (\<forall>j < length fps. link_pages tid fps n i ds ! (fps ! j) = (if i \<le> j then linked tid fps j (ds ! (fps ! j)) else ds ! (fps ! j)))"
  using assms(2,3)
proof (induction n arbitrary: i ds)
  case (Suc n)
  define ds1 where "ds1 = ds[fps ! i := linked tid fps i (ds ! (fps ! i))]"
  have i: "i < length fps" "fps ! i < length ds" using Suc(2,3) by (auto simp: subset_iff)
  have old: "ds1 ! x = ds ! x" if "x \<notin> set fps" for x using that i(1) by (metis ds1_def nth_list_update_neq nth_mem)
  have new: "ds1 ! (fps ! j) = (if j = i then linked tid fps i (ds ! (fps ! i)) else ds ! (fps ! j))" if "j < length fps" for j
    using i that nth_eq_iff_index_eq [OF assms(1) i(1) that] by (auto simp: ds1_def nth_list_update)
  have "length ds1 = length ds" by (simp add: ds1_def)
  then show ?case
    unfolding link_pages_step ds1_def [symmetric] using Suc(1) [of ds1 "Suc i"] Suc(2,3) old new by (auto simp: Suc_le_eq)
qed simp

lemma link_pages_law:
  assumes "distinct fps" "set fps \<subseteq> {..<length ds}"
  shows "length (link_pages tid fps (length fps) 0 ds) = length ds"
    and "x \<notin> set fps \<Longrightarrow> link_pages tid fps (length fps) 0 ds ! x = ds ! x"
    and "j < length fps \<Longrightarrow> link_pages tid fps (length fps) 0 ds ! (fps ! j) = linked tid fps j (ds ! (fps ! j))"
  using link_pages_from [OF assms, of 0 "length fps" tid] by simp_all

lemma linked_dlist:
  assumes "distinct fps" "set fps \<subseteq> {..<length ds}"
  shows "dlist (link_pages tid fps (length fps) 0 ds) None fps None"
  using link_pages_law(1,3) [OF assms] assms(2)
  by (auto simp: dlist_def linked_def subset_iff)

lemma last_page_law:
  "dlist (page_data v) pr xs None \<Longrightarrow> xs \<noteq> [] \<Longrightarrow> last_page (hd xs) v = Some (last xs)"
proof (induction xs arbitrary: pr)
  case (Cons x xs)
  then show ?case by (subst last_page.simps) (auto simp: dlist_Cons meta_in)
qed simp

lemma free_pages_in: "x \<in> set (free_pages v) \<longleftrightarrow> x < 256 \<and> pg_free (page_data v ! x) \<noteq> 0"
  by (auto simp: free_pages_def)

lemma free_pages_distinct: "distinct (free_pages v)"
  by (simp add: free_pages_def)

lemma free_not_owned:
  assumes "vm_ok v L" "vthreads v a = Some t" "x \<in> set (free_pages v)"
  shows "x \<notin> set (L a)"
  using ownsD(5) [OF vm_okD(4) [OF assms(1,2)] assms(2), of x] assms(3) by (auto simp: free_pages_in)

text \<open>A new list of pages for one thread.\<close>

lemma vm_ok_relist:
  assumes ok: "vm_ok v L" and th: "vthreads v r = Some t" and ds: "length ds = 256"
    and pages: "\<And>i. i < 256 \<Longrightarrow> pg_page (ds ! i) = pg_page (page_data v ! i)"
    and dl: "dlist ds None xs None" "distinct xs" and own: "\<And>x. x \<in> set xs \<Longrightarrow> pg_free (ds ! x) = 0 \<and> pg_TID (ds ! x) = t_id t"
    and oth: "\<And>b u x. b \<noteq> r \<Longrightarrow> vthreads v b = Some u \<Longrightarrow> x \<in> set (L b) \<Longrightarrow> ds ! x = page_data v ! x \<and> x \<notin> set xs"
    and v': "page_data v' = ds" "vthreads v' = (vthreads v)(r \<mapsto> t\<lparr>page_list := hd_opt xs, num_pages := int (length xs)\<rparr>)"
      "memory v' = memory v" "page_init v' = page_init v"
  shows "vm_ok v' (L(r := xs))"
proof -
  have "owns v' a ((L(r := xs)) a)" if a: "a \<in> dom (vthreads v')" for a
  proof (cases "a = r")
    case True
    then show ?thesis using dl own v' by (simp add: owns_def)
  next
    case False
    then obtain u where u: "vthreads v a = Some u" using a unfolding v'(2) by (auto simp: dom_def)
    have "owns v' a (L a)"
      by (rule owns_frame [OF vm_okD(4) [OF ok u]]) (use False v' ds oth [OF False u] vm_okD(2) [OF ok] in auto)
    then show ?thesis using False by simp
  qed
  moreover have "set ((L(r := xs)) a) \<inter> set ((L(r := xs)) b) = {}" if ab: "a \<in> dom (vthreads v')" "b \<in> dom (vthreads v')" "a \<noteq> b" for a b
  proof -
    obtain u w where u: "a \<noteq> r \<longrightarrow> vthreads v a = Some u" and w: "b \<noteq> r \<longrightarrow> vthreads v b = Some w" using ab(1,2) unfolding v'(2) dom_def by (cases "a = r"; cases "b = r") auto
    show ?thesis
    proof (cases "a = r \<or> b = r")
      case True
      then show ?thesis using ab(3) oth [of a u] oth [of b w] u w by auto
    next
      case False
      then show ?thesis using vm_okD(5) [OF ok, of a u b w] u w ab(3) by simp
    qed
  qed
  ultimately show ?thesis
    unfolding vm_ok_def using v' ds pages vm_okD(1,3) [OF ok] by auto
qed

definition pages_for :: "int \<Rightarrow> nat" where
  "pages_for len = nat ((len + 4095) div 4096)"

lemma pages_for_law:
  assumes "0 < len" "len < 8796093018112"
  shows "(if len mod 4096 = 0 then to_int (len div 4096) else to_int (to_int (len div 4096) + 1)) = int (pages_for len)"
    and "0 < pages_for len"
proof -
  have "len div 4096 < 2147483647" "0 \<le> len div 4096" "0 < (len + 4095) div 4096" using assms by linarith+
  then show "(if len mod 4096 = 0 then to_int (len div 4096) else to_int (to_int (len div 4096) + 1)) = int (pages_for len)"
      "0 < pages_for len"
    using ceil_div [of 4096 len] by (auto simp: pages_for_def to_int_id split: if_splits)
qed

lemma upd_keeps: "g (f (ds ! k)) = g (ds ! k) \<Longrightarrow> g (ds[k := f (ds ! k)] ! x) = g (ds ! x)"
  by (cases "x = k \<and> k < length ds") (auto simp: nth_list_update list_update_beyond not_less)

text \<open>The pages found, linked behind the list of the running thread.\<close>

definition joined_data :: "vm \<Rightarrow> nat list \<Rightarrow> nat list \<Rightarrow> int \<Rightarrow> page_meta list" where
  "joined_data v xs fps tid =
     (let ds = link_pages tid fps (length fps) 0 (page_data v);
          ds = (if xs = [] then ds else ds[last xs := (ds ! last xs)\<lparr>pg_next := Some (fps ! 0)\<rparr>])
      in if xs = [] then ds else ds[fps ! 0 := (ds ! (fps ! 0))\<lparr>pg_prev := Some (last xs)\<rparr>])"

lemma joined_data_law:
  fixes tid :: int
  assumes dl: "dlist (page_data v) None xs None" "distinct xs" and fps: "distinct fps" "set fps \<subseteq> {..<length (page_data v)}" "fps \<noteq> []"
    and dis: "set xs \<inter> set fps = {}"
  defines "ds \<equiv> joined_data v xs fps tid"
  shows "length ds = length (page_data v)" "dlist ds None (xs @ fps) None"
    and "x \<notin> set xs \<Longrightarrow> x \<notin> set fps \<Longrightarrow> ds ! x = page_data v ! x"
    and "x \<in> set xs \<Longrightarrow> pg_free (ds ! x) = pg_free (page_data v ! x) \<and> pg_TID (ds ! x) = pg_TID (page_data v ! x)"
    and "x \<in> set fps \<Longrightarrow> pg_free (ds ! x) = 0 \<and> pg_TID (ds ! x) = tid"
    and "pg_page (ds ! x) = pg_page (page_data v ! x)"
    and "j < length fps \<Longrightarrow> pg_more (ds ! (fps ! j)) = (if Suc j = length fps then 0 else 1)"
proof -
  define d1 where "d1 = link_pages tid fps (length fps) 0 (page_data v)"
  define d2 where "d2 = d1[last xs := (d1 ! last xs)\<lparr>pg_next := Some (hd fps)\<rparr>]"
  define d3 where "d3 = d2[hd fps := (d2 ! hd fps)\<lparr>pg_prev := Some (last xs)\<rparr>]"
  have h: "fps ! 0 = hd fps" using fps(3) by (simp add: hd_conv_nth)
  have ds: "ds = (if xs = [] then d1 else d3)" by (simp add: ds_def joined_data_def Let_def d1_def d2_def d3_def h)
  note l = link_pages_law [OF fps(1,2), where tid = tid, folded d1_def]
  have len: "length d1 = length (page_data v)" "length d2 = length (page_data v)" "length d3 = length (page_data v)"
    using l(1) by (simp_all add: d2_def d3_def)
  then show "length ds = length (page_data v)" by (simp add: ds)
  have f1: "pg_free (d1 ! x) = 0 \<and> pg_TID (d1 ! x) = tid \<and> pg_page (d1 ! x) = pg_page (page_data v ! x)" if "x \<in> set fps" for x
    using that l(3) by (auto simp: in_set_conv_nth linked_def)
  have same: "pg_free (d3 ! x) = pg_free (d1 ! x)" "pg_TID (d3 ! x) = pg_TID (d1 ! x)" "pg_page (d3 ! x) = pg_page (d1 ! x)"
      "pg_more (d3 ! x) = pg_more (d1 ! x)" for x
    by (simp_all add: d3_def d2_def upd_keeps [where f = "\<lambda>d. d\<lparr>pg_prev := Some (last xs)\<rparr>"]
        upd_keeps [where f = "\<lambda>d. d\<lparr>pg_next := Some (hd fps)\<rparr>"])
  show "x \<in> set fps \<Longrightarrow> pg_free (ds ! x) = 0 \<and> pg_TID (ds ! x) = tid" using f1 same by (simp add: ds)
  show "x \<in> set xs \<Longrightarrow> pg_free (ds ! x) = pg_free (page_data v ! x) \<and> pg_TID (ds ! x) = pg_TID (page_data v ! x)"
    using l(2) [of x] dis same by (simp add: ds disjoint_iff)
  show "pg_page (ds ! x) = pg_page (page_data v ! x)" using f1 [of x] l(2) [of x] same by (cases "x \<in> set fps") (simp_all add: ds)
  show "j < length fps \<Longrightarrow> pg_more (ds ! (fps ! j)) = (if Suc j = length fps then 0 else 1)"
    using l(3) [of j] same by (auto simp: ds linked_def)
  show "ds ! x = page_data v ! x" if "x \<notin> set xs" "x \<notin> set fps"
  proof -
    have "x \<noteq> hd fps" "xs \<noteq> [] \<longrightarrow> x \<noteq> last xs" using that fps(3) by auto
    then show ?thesis using l(2) [OF that(2)] by (cases "xs = []") (simp_all add: ds d3_def d2_def)
  qed
  have dfp: "dlist d1 None fps None" using linked_dlist [OF fps(1,2)] by (simp add: d1_def)
  show "dlist ds None (xs @ fps) None"
  proof (cases "xs = []")
    case True
    then show ?thesis using dfp by (simp add: ds)
  next
    case False
    have "dlist d1 None xs None" by (rule dlist_cong [OF dl(1) len(1)]) (use l(2) dis in \<open>simp_all add: disjoint_iff\<close>)
    then have "dlist d2 None xs (Some (hd fps))" unfolding d2_def by (rule dlist_set_next [OF _ False dl(2)])
    moreover have "dlist d2 None fps None" unfolding d2_def using dfp last_in_set [OF False] dis by (simp add: dlist_other disjoint_iff)
    then have "dlist d3 (Some (last xs)) fps None" unfolding d3_def by (rule dlist_set_prev [OF _ fps(3,1)])
    moreover have "hd fps \<notin> set xs" using dis fps(3) hd_in_set [of fps] by blast
    ultimately show ?thesis using False fps(3) by (simp add: ds dlist_append d3_def dlist_other)
  qed
qed

lemma free_pages_after:
  assumes fv: "\<And>x. x < 256 \<Longrightarrow> (pg_free (page_data v' ! x) \<noteq> 0) = (pg_free (page_data v ! x) \<noteq> 0 \<and> x \<notin> set (take n (free_pages v)))"
  shows "free_pages v' = drop n (free_pages v)"
proof -
  define T where "T = set (take n (free_pages v))"
  have "free_pages v' = filter (\<lambda>x. x \<notin> T \<and> pg_free (page_data v ! x) \<noteq> 0) [0..<256]"
    unfolding free_pages_def using fv by (intro filter_cong) (auto simp: T_def)
  also have "\<dots> = filter (\<lambda>x. x \<notin> T) (free_pages v)" by (simp add: free_pages_def conj_commute)
  finally have "free_pages v' = filter (\<lambda>x. x \<notin> set (take n (free_pages v))) (free_pages v)" by (simp add: T_def)
  then show ?thesis using filter_drop [OF free_pages_distinct] by simp
qed

text \<open>What holds when a thread has got \<open>n\<close> more pages.\<close>

definition granted :: "vm \<Rightarrow> (addr \<Rightarrow> nat list) \<Rightarrow> nat \<Rightarrow> vm \<Rightarrow> bool" where
  "granted v L n v' \<longleftrightarrow> vm_ok v' (L(vrunning v := L (vrunning v) @ take n (free_pages v))) \<and> free_pages v' = drop n (free_pages v) \<and>
     vrunning v' = vrunning v \<and> dom (vthreads v') = dom (vthreads v) \<and> memory v' = memory v \<and> frames v' = frames v \<and> locked v' = locked v \<and>
     (\<forall>j < n. pg_more (page_data v' ! (free_pages v ! j)) = (if Suc j = n then 0 else 1))"

lemma page_malloc_law:
  assumes ok: "vm_ok v L" and run: "vrunning v \<noteq> NULL" "vthreads v (vrunning v) = Some t"
    and len: "0 < len" "len < 8796093018112" and room: "pages_for len \<le> length (free_pages v)"
  shows "\<exists>v'. page_malloc base len v = Some (memory v + int (length (L (vrunning v))) * 4096 + 1, v') \<and> granted v L (pages_for len) v'"
proof -
  define r xs n fps where "r = vrunning v" and "xs = L (vrunning v)" and "n = pages_for len" and "fps = take n (free_pages v)"
  define ds where "ds = joined_data v xs fps (t_id t)"
  define v' where "v' = v\<lparr>page_data := ds, vthreads := (vthreads v)(r \<mapsto> t\<lparr>page_list := hd_opt (xs @ fps), num_pages := int (length (xs @ fps))\<rparr>)\<rparr>"
  have n0: "0 < n" using pages_for_law(2) [OF len] by (simp add: n_def)
  have l256: "length (page_data v) = 256" using ok by (rule vm_okD)
  have fl: "length fps = n" using room by (simp add: fps_def n_def)
  then have fl: "length fps = n" "fps \<noteq> []" "fps ! 0 = hd fps" using n0 by (auto simp: hd_conv_nth)
  note O = ownsD [OF vm_okD(4) [OF ok run(2)] run(2), folded xs_def]
  have fr: "x < 256 \<and> pg_free (page_data v ! x) \<noteq> 0" if "x \<in> set fps" for x
    using that set_take_subset [of n "free_pages v"] by (auto simp: fps_def free_pages_in)
  have fps: "distinct fps" "set fps \<subseteq> {..<length (page_data v)}" "set xs \<inter> set fps = {}"
    using fr O(5) free_pages_distinct [of v] l256 by (auto simp: fps_def)
  note J = joined_data_law [OF O(4,3) fps(1,2) fl(2) fps(3), where tid = "t_id t", folded ds_def]
  have fp: "find_pages (page_data v) 0 (int n) = fps" using find_pages_law [OF l256 n0] by (simp add: fps_def)
  define v1 where "v1 = v\<lparr>page_data := link_pages (t_id t) fps (length fps) 0 (page_data v)\<rparr>"
  have l1: "length (page_data v1) = 256" using link_pages_law(1) [OF fps(1,2)] l256 by (simp add: v1_def)
  have rt: "runner v = Some t" "num_pages t = int (length xs)" "page_list t = hd_opt xs" using run O(1,2) by (simp_all add: runner_def)
  have ev: "page_malloc base len v = Some (memory v + int (length xs) * 4096 + 1, v')"
  proof (cases "xs = []")
    case True
    moreover have "hd_opt fps = Some (hd fps)" using fl(2) by (cases fps) simp_all
    ultimately show ?thesis
      using vm_okD(1) [OF ok] pages_for_law(1) [OF len] n0 fp rt fl run
      by (simp add: page_malloc_def Let_def n_def [symmetric] v'_def ds_def joined_data_def set_runner_def runner_def r_def hd_opt_append)
  next
    case False
    have "dlist (page_data v1) None xs None"
      by (rule dlist_cong [OF O(4)]) (use l1 l256 link_pages_law(2) [OF fps(1,2)] fps(3) in \<open>simp_all add: v1_def disjoint_iff\<close>)
    then have lp: "last_page (hd xs) v1 = Some (last xs)" "last xs < 256"
      using last_page_law False dlist_in l1 last_in_set [OF False] by (blast, metis)
    moreover have "hd fps < 256" using fr fl(2) by simp
    moreover have pl: "page_list t = Some (hd xs)" using rt(3) False by (cases xs) simp_all
    then have tt: "t\<lparr>page_list := Some (hd xs), num_pages := y\<rparr> = t\<lparr>num_pages := y\<rparr>" for y by (cases t) simp
    moreover have ho: "hd_opt xs = Some (hd xs)" using False by (cases xs) simp_all
    ultimately show ?thesis
      using vm_okD(1) [OF ok] pages_for_law(1) [OF len] n0 fp rt(1,2) pl fl run False l1 ho
      by (simp add: page_malloc_def Let_def n_def [symmetric] v1_def [symmetric] set_meta_in)
        (simp add: v'_def ds_def joined_data_def set_runner_def runner_def r_def hd_opt_append v1_def set_meta_in Let_def tt)
  qed
  have "vm_ok v' (L(r := xs @ fps))"
  proof (rule vm_ok_relist [OF ok run(2) [folded r_def], where ds = ds])
    show "distinct (xs @ fps)" using O(3) fps by simp
    show "pg_free (ds ! x) = 0 \<and> pg_TID (ds ! x) = t_id t" if "x \<in> set (xs @ fps)" for x using that J(4,5) O(5,6) by auto
    show "ds ! x = page_data v ! x \<and> x \<notin> set (xs @ fps)" if "b \<noteq> r" "vthreads v b = Some u" "x \<in> set (L b)" for b u x
    proof -
      have "x \<notin> set xs" using vm_okD(5) [OF ok that(2) run(2)] that by (auto simp: xs_def r_def)
      moreover have "x \<notin> set fps" using fr ownsD(5) [OF vm_okD(4) [OF ok that(2)] that(2,3)] by auto
      ultimately show ?thesis using J(3) by simp
    qed
  qed (use J(1,2,6) l256 in \<open>simp_all add: v'_def\<close>)
  moreover have "free_pages v' = drop n (free_pages v)"
  proof (rule free_pages_after)
    show "(pg_free (page_data v' ! x) \<noteq> 0) = (pg_free (page_data v ! x) \<noteq> 0 \<and> x \<notin> set (take n (free_pages v)))" for x
      using J(3,4,5) [of x] fps(3) O(5) [of x] by (cases "x \<in> set xs"; cases "x \<in> set fps") (auto simp: v'_def fps_def)
  qed
  moreover have "pg_more (page_data v' ! (free_pages v ! j)) = (if Suc j = n then 0 else 1)" if "j < n" for j
    using J(7) [of j] that fl(1) by (simp add: v'_def fps_def)
  moreover have "dom (vthreads v') = dom (vthreads v)" using run(2) by (auto simp: v'_def r_def)
  ultimately have "granted v L n v'" by (simp add: granted_def v'_def r_def xs_def fps_def)
  then show ?thesis using ev by (auto simp: xs_def n_def)
qed

end
