(* ===== verification/Paging_Free.thy ===== *)
theory Paging_Free
  imports Paging_Laws
begin

text \<open>
  Refused and successful frees of the paged memory of asst2, page faults, and the protection of the
  pages when the running thread changes.
\<close>

section \<open>Allocation, as promised to the threads\<close>

text \<open>
  Claim C15. \<open>page_malloc\<close> with enough free pages: the lowest free pages, as many as the size needs, are
  appended to the list of the running thread and are free no more; the address returned lies one byte
  behind the thread's last page so far; the lists of all other threads are untouched.
\<close>

theorem page_malloc_grants:
  assumes "vm_ok v L" "vrunning v \<noteq> NULL" "vthreads v (vrunning v) = Some t"
    and "0 < len" "len < 8796093018112" "pages_for len \<le> length (free_pages v)"
  shows "\<exists>v'. page_malloc base len v = Some (memory v + int (length (L (vrunning v))) * 4096 + 1, v') \<and> granted v L (pages_for len) v'"
  by (rule page_malloc_law [OF assms])

text \<open>With too few free pages the call returns \<open>NULL\<close> and sets \<open>ENOMEM\<close>, nothing else.\<close>

theorem page_malloc_out_of_memory:
  assumes ok: "vm_ok v L" and len: "0 < len" "len < 8796093018112" and room: "length (free_pages v) < pages_for len"
  shows "page_malloc base len v = Some (0, v\<lparr>errno := ENOMEM\<rparr>)"
  using vm_okD(1) [OF ok] find_pages_law [OF vm_okD(2) [OF ok] pages_for_law(2) [OF len]] pages_for_law [OF len] room
  by (simp add: page_malloc_def Let_def)

text \<open>
  Before the scheduler has a running thread the allocation of any size reads through the null
  pointer \<open>running_thread\<close>; this is how \<open>scheduler_init\<close> calls it, through the macro \<open>malloc\<close>.
\<close>

theorem page_malloc_without_thread:
  assumes "vrunning v = NULL" "page_init v = 0" and len: "0 < len" "len \<le> 1048576"
  shows "page_malloc base len v = None"
proof -
  define w where "w = (page_malloc_init base v)\<lparr>page_init := 1\<rparr>"
  have l: "length (page_data w) = 256" by (simp add: w_def page_malloc_init_def)
  have f: "free_pages w = [0..<256]" by (simp add: w_def free_pages_def page_malloc_init_def)
  have len2: "len < 8796093018112" using len by simp
  have "(len + 4095) div 4096 \<le> 256" using len by linarith
  then have "pages_for len \<le> 256" by (simp add: pages_for_def)
  then show ?thesis
    using find_pages_law [OF l pages_for_law(2) [OF len(1) len2]] pages_for_law [OF len(1) len2] assms(1,2) f
    by (simp add: page_malloc_def w_def [symmetric] runner_def Let_def) (simp add: w_def page_malloc_init_def)
qed

section \<open>Freeing\<close>

lemma find_alloc_skip:
  assumes "dlist (page_data v) pr xs nx" "\<And>x. x \<in> set xs \<Longrightarrow> pg_page (page_data v ! x) \<noteq> index"
  shows "find_alloc index (if xs = [] then nx else Some (hd xs)) v = find_alloc index nx v"
  using assms
proof (induction xs arbitrary: pr)
  case (Cons x xs)
  have x: "x < length (page_data v)" "pg_next (page_data v ! x) = (if xs = [] then nx else Some (hd xs))" "dlist (page_data v) (Some x) xs nx"
    using Cons(2) by (simp_all add: dlist_Cons)
  have "find_alloc index (Some x) v = find_alloc index (pg_next (page_data v ! x)) v"
    using x(1) Cons(3) by (subst find_alloc.simps) (simp add: meta_in)
  then show ?case using Cons(1) [OF x(3)] Cons(3) x(2) by simp
qed simp

lemma find_alloc_none: "find_alloc index None v = Some None"
  by (subst find_alloc.simps) simp

lemma page_free_other:
  assumes ok: "vm_ok v L" and run: "vrunning v \<noteq> NULL" "vthreads v (vrunning v) = Some t"
    and p: "\<And>x. x \<in> set (L (vrunning v)) \<Longrightarrow> p \<noteq> memory v + int x * 4096"
  shows "page_free p v = Some (v\<lparr>errno := EINVAL\<rparr>)"
proof -
  note O = ownsD [OF vm_okD(4) [OF ok run(2)] run(2)]
  have "pg_page (page_data v ! x) \<noteq> p" if "x \<in> set (L (vrunning v))" for x
    using vm_okD(3) [OF ok, of x] p [OF that] dlist_in [OF O(4) that] vm_okD(2) [OF ok] by simp
  from find_alloc_skip [OF O(4) this] have "find_alloc p (hd_opt (L (vrunning v))) v = Some None"
    by (cases "L (vrunning v)") (simp_all add: find_alloc_none)
  then show ?thesis using O(1) run by (simp add: page_free_def runner_def)
qed

text \<open>
  What \<open>page_malloc\<close> returned is never accepted by \<open>page_free\<close>: the address is one byte off every
  page, so the free only sets \<open>EINVAL\<close> and the pages stay allocated.
\<close>

theorem malloc_never_freed:
  assumes ok: "vm_ok v L" and run: "vrunning v \<noteq> NULL" "vthreads v (vrunning v) = Some t"
    and len: "0 < len" "len < 8796093018112" "pages_for len \<le> length (free_pages v)"
  shows "\<exists>p v'. page_malloc base len v = Some (p, v') \<and> p \<noteq> memory v \<and> page_free p v' = Some (v'\<lparr>errno := EINVAL\<rparr>)"
proof -
  from page_malloc_law [OF assms] obtain v' where
    v': "page_malloc base len v = Some (memory v + int (length (L (vrunning v))) * 4096 + 1, v')" "granted v L (pages_for len) v'" by blast
  let ?L = "L(vrunning v := L (vrunning v) @ take (pages_for len) (free_pages v))"
  have off: "memory v + int i * 4096 + 1 \<noteq> memory v + int j * 4096" for i j by (cases "j \<le> i") linarith+
  have g: "vm_ok v' ?L" "vrunning v' = vrunning v" "dom (vthreads v') = dom (vthreads v)" "memory v' = memory v"
    using v'(2) by (simp_all add: granted_def)
  then obtain t' where "vthreads v' (vrunning v') = Some t'" using run(2) by (metis domD domI)
  then have "page_free (memory v + int (length (L (vrunning v))) * 4096 + 1) v' = Some (v'\<lparr>errno := EINVAL\<rparr>)"
    using page_free_other [OF g(1)] g off run(1) by simp
  then show ?thesis using v'(1) off [of _ 0] by auto
qed

lemma alloc_end_law:
  assumes "dlist (page_data v) pr xs nx" "xs \<noteq> []"
    and "\<And>j. j < length xs \<Longrightarrow> (pg_more (page_data v ! (xs ! j)) \<noteq> 0) = (Suc j < length xs)"
  shows "alloc_end (Some (hd xs)) v = Some (Some (last xs))"
  using assms
proof (induction xs arbitrary: pr)
  case (Cons x xs)
  have x: "x < length (page_data v)" "pg_next (page_data v ! x) = (if xs = [] then nx else Some (hd xs))" "dlist (page_data v) (Some x) xs nx"
    using Cons(2) by (simp_all add: dlist_Cons)
  have m: "(pg_more (page_data v ! x) \<noteq> 0) = (xs \<noteq> [])" using Cons(4) [of 0] by auto
  have "alloc_end (Some (hd xs)) v = Some (Some (last xs))" if "xs \<noteq> []"
    by (rule Cons(1) [OF x(3) that]) (use Cons(4) [of "Suc j" for j] in auto)
  then show ?case using x m by (subst alloc_end.simps) (auto simp: meta_in)
qed simp

definition set_free :: "nat list \<Rightarrow> page_meta list \<Rightarrow> page_meta list" where
  "set_free xs ds = fold (\<lambda>x ds. ds[x := (ds ! x)\<lparr>pg_free := 1\<rparr>]) xs ds"

lemma set_free_law:
  assumes "distinct xs" "set xs \<subseteq> {..<length ds}"
  shows "length (set_free xs ds) = length ds \<and> (\<forall>x. set_free xs ds ! x = (if x \<in> set xs then (ds ! x)\<lparr>pg_free := 1\<rparr> else ds ! x))"
  using assms
proof (induction xs arbitrary: ds)
  case (Cons y xs)
  let ?ds = "ds[y := (ds ! y)\<lparr>pg_free := 1\<rparr>]"
  have "set_free (y # xs) ds = set_free xs ?ds" by (simp add: set_free_def)
  moreover have "length (set_free xs ?ds) = length ds \<and> (\<forall>x. set_free xs ?ds ! x = (if x \<in> set xs then (?ds ! x)\<lparr>pg_free := 1\<rparr> else ?ds ! x))"
    using Cons(1) [of ?ds] Cons(2,3) by simp
  ultimately show ?case using Cons(2,3) by (auto simp: nth_list_update)
qed (simp add: set_free_def)

lemma free_run_law:
  assumes "dlist (page_data v) pr xs (Some c)" "c \<notin> set xs" "distinct xs"
  shows "free_run (Some c) (if xs = [] then Some c else Some (hd xs)) n v =
    Some (n + int (length xs), v\<lparr>page_data := set_free xs (page_data v)\<rparr>)"
  using assms
proof (induction xs arbitrary: pr n v)
  case Nil
  then show ?case by (subst free_run.simps) (simp add: set_free_def)
next
  case (Cons x xs)
  have x: "x < length (page_data v)" "pg_next (page_data v ! x) = (if xs = [] then Some c else Some (hd xs))" "dlist (page_data v) (Some x) xs (Some c)"
    using Cons(2) by (simp_all add: dlist_Cons)
  let ?v = "v\<lparr>page_data := (page_data v)[x := (page_data v ! x)\<lparr>pg_free := 1\<rparr>]\<rparr>"
  have d: "dlist (page_data ?v) (Some x) xs (Some c)" using x(3) Cons(4) by (simp add: dlist_other)
  have "free_run (Some c) (Some x) n v = free_run (Some c) (pg_next (page_data v ! x)) (n + 1) ?v"
    using x(1) Cons(3) by (subst free_run.simps) (simp add: meta_in set_meta_in)
  also have "\<dots> = Some (n + 1 + int (length xs), ?v\<lparr>page_data := set_free xs (page_data ?v)\<rparr>)"
    unfolding x(2) using Cons(1) [OF d] Cons(3,4) by simp
  finally show ?case by (simp add: set_free_def)
qed

text \<open>
  An allocation in the list of a thread: \<open>bs\<close> between \<open>as\<close> and \<open>cs\<close>, all of its pages but the last
  marked to continue.
\<close>

definition allocation_at :: "vm \<Rightarrow> nat list \<Rightarrow> bool" where
  "allocation_at v bs \<longleftrightarrow> bs \<noteq> [] \<and> (\<forall>j < length bs. (pg_more (page_data v ! (bs ! j)) \<noteq> 0) = (Suc j < length bs))"

lemma page_free_walk:
  assumes ok: "vm_ok v L" and run: "vrunning v \<noteq> NULL" "vthreads v (vrunning v) = Some t" "L (vrunning v) = as @ bs @ cs"
    and al: "allocation_at v bs"
  shows "find_alloc (memory v + int (hd bs) * 4096) (page_list t) v = Some (Some (hd bs))"
    and "meta (Some (hd bs)) v = Some (page_data v ! hd bs)" "pg_prev (page_data v ! hd bs) = (if as = [] then None else Some (last as))"
    and "alloc_end (Some (hd bs)) v = Some (Some (last bs))"
    and "meta (Some (last bs)) v = Some (page_data v ! last bs)" "pg_next (page_data v ! last bs) = hd_opt cs"
proof -
  note O = ownsD [OF vm_okD(4) [OF ok run(2)] run(2), unfolded run(3)]
  have bs: "bs \<noteq> []" using al by (simp add: allocation_at_def)
  have l: "length (page_data v) = 256" using ok by (rule vm_okD)
  have D: "dlist (page_data v) None as (Some (hd bs))" "dlist (page_data v) (if as = [] then None else Some (last as)) bs (hd_opt cs)"
    using O(4) bs by (auto simp: dlist_append hd_opt_def split: list.splits)
  have lt: "hd bs < 256" "last bs < 256" using dlist_in [OF D(2)] bs l by auto
  then show "meta (Some (hd bs)) v = Some (page_data v ! hd bs)" "meta (Some (last bs)) v = Some (page_data v ! last bs)"
    using l by (simp_all add: meta_in)
  show "pg_prev (page_data v ! hd bs) = (if as = [] then None else Some (last as))"
    using D(2) bs by (cases bs) (simp_all add: dlist_Cons)
  show "pg_next (page_data v ! last bs) = hd_opt cs"
    using D(2) bs unfolding dlist_def by (auto simp: last_conv_nth dest: spec [of _ "length bs - 1"])
  show "alloc_end (Some (hd bs)) v = Some (Some (last bs))"
    by (rule alloc_end_law [OF D(2) bs]) (use al in \<open>simp add: allocation_at_def\<close>)
  have pg: "pg_page (page_data v ! x) = memory v + int x * 4096" if "x < 256" for x using vm_okD(3) [OF ok that] .
  have "pg_page (page_data v ! x) \<noteq> memory v + int (hd bs) * 4096" if "x \<in> set as" for x
  proof -
    have "x \<noteq> hd bs" "x < 256" using O(3) that bs dlist_in [OF D(1) that] l by auto
    then show ?thesis using pg [of x] by simp
  qed
  then have "find_alloc (memory v + int (hd bs) * 4096) (page_list t) v = find_alloc (memory v + int (hd bs) * 4096) (Some (hd bs)) v"
    using find_alloc_skip [OF D(1)] O(1) bs by (cases as; cases bs) simp_all
  then show "find_alloc (memory v + int (hd bs) * 4096) (page_list t) v = Some (Some (hd bs))"
    using lt l pg by (subst (asm) (2) find_alloc.simps) (simp add: meta_in)
qed

lemma page_free_edge:
  assumes ok: "vm_ok v L" and run: "vrunning v \<noteq> NULL" "vthreads v (vrunning v) = Some t" "L (vrunning v) = as @ bs @ cs"
    and al: "allocation_at v bs" and edge: "as = [] \<or> cs = []"
  shows "page_free (memory v + int (hd bs) * 4096) v = None"
proof -
  note W = page_free_walk [OF ok run al]
  have rt: "runner v = Some t" using run by (simp add: runner_def)
  show ?thesis
  proof (cases "as = []")
    case True
    then show ?thesis using W rt by (simp add: page_free_def Let_def meta_def)
  next
    case False
    then have cs: "hd_opt cs = None" using edge by simp
    have no: "set_meta None f w = None" for f w by (simp add: set_meta_def)
    show ?thesis using W rt cs
      by (auto simp: page_free_def Let_def no bind_eq_None_conv split: prod.splits)
  qed
qed

lemma page_free_law:
  assumes ok: "vm_ok v L" and run: "vrunning v \<noteq> NULL" "vthreads v (vrunning v) = Some t" "L (vrunning v) = as @ bs @ cs"
    and al: "allocation_at v bs" and inner: "as \<noteq> []" "cs \<noteq> []"
  shows "\<exists>v'. page_free (memory v + int (hd bs) * 4096) v = Some v' \<and> vm_ok v' (L(vrunning v := as @ cs)) \<and>
    set (free_pages v') = set (free_pages v) \<union> set bs \<and> frames v' = frames v \<and> locked v' = locked v"
proof -
  note W = page_free_walk [OF ok run al]
  note O = ownsD [OF vm_okD(4) [OF ok run(2)] run(2), unfolded run(3)]
  have bs: "bs \<noteq> []" using al by (simp add: allocation_at_def)
  have l: "length (page_data v) = 256" using ok by (rule vm_okD)
  have D: "dlist (page_data v) None as (Some (hd bs))" "dlist (page_data v) (Some (last as)) bs (Some (hd cs))"
      "dlist (page_data v) (Some (last bs)) cs None"
    using O(4) bs inner by (simp_all add: dlist_append)
  have dis: "distinct as" "distinct bs" "distinct cs" "set as \<inter> set bs = {}" "set as \<inter> set cs = {}" "set bs \<inter> set cs = {}"
    using O(3) by auto
  have lt: "last as < 256" "hd cs < 256" "set bs \<subseteq> {..<length (page_data v)}"
    using dlist_in [OF D(1)] dlist_in [OF D(3)] dlist_in [OF D(2)] inner l by auto
  define d1 where "d1 = set_free bs (page_data v)"
  define d2 where "d2 = d1[last as := (d1 ! last as)\<lparr>pg_next := Some (hd cs)\<rparr>]"
  define d3 where "d3 = d2[hd cs := (d2 ! hd cs)\<lparr>pg_prev := Some (last as)\<rparr>]"
  define v' where "v' = v\<lparr>page_data := d3, vthreads := (vthreads v)(vrunning v \<mapsto> t\<lparr>page_list := hd_opt (as @ cs), num_pages := int (length (as @ cs))\<rparr>)\<rparr>"
  have s1: "length d1 = 256" "\<And>x. d1 ! x = (if x \<in> set bs then (page_data v ! x)\<lparr>pg_free := 1\<rparr> else page_data v ! x)"
    using set_free_law [OF dis(2) lt(3)] l by (simp_all add: d1_def)
  have keep: "pg_free (d3 ! x) = pg_free (d1 ! x)" "pg_TID (d3 ! x) = pg_TID (d1 ! x)" "pg_page (d3 ! x) = pg_page (d1 ! x)" for x
    by (simp_all add: d3_def d2_def upd_keeps [where f = "\<lambda>d. d\<lparr>pg_prev := Some (last as)\<rparr>"]
        upd_keeps [where f = "\<lambda>d. d\<lparr>pg_next := Some (hd cs)\<rparr>"])
  have nx: "meta (Some (last as)) v = Some (page_data v ! last as)" "pg_next (page_data v ! last as) = Some (hd bs)"
    using D(1) inner(1) lt(1) l unfolding dlist_def by (auto simp: meta_in last_conv_nth dest: spec [of _ "length as - 1"])
  have hc: "hd cs \<notin> set bs" using dis(6) inner(2) hd_in_set [of cs] by blast
  have fr: "free_run (Some (hd cs)) (Some (hd bs)) 0 v = Some (int (length bs), v\<lparr>page_data := d1\<rparr>)"
    using free_run_law [OF D(2) hc dis(2), of 0] bs by (simp add: d1_def)
  have tt: "t\<lparr>page_list := hd_opt (as @ cs), num_pages := y\<rparr> = t\<lparr>num_pages := y\<rparr>" for y
    using O(1) inner(1) by (cases t) (simp add: hd_opt_append)
  have ho: "hd_opt cs = Some (hd cs)" using inner(2) by (cases cs) simp_all
  have "page_free (memory v + int (hd bs) * 4096) v = Some v'"
    using W run(1,2) inner nx fr s1(1) lt(1,2) O(2) ho
    by (simp add: page_free_def runner_def Let_def set_meta_in)
      (simp add: v'_def d3_def d2_def set_runner_def tt)
  moreover have "dlist d3 None (as @ cs) None"
  proof -
    have nb: "x \<notin> set bs" if "x \<in> set as \<union> set cs" for x using that dis(4,6) by auto
    have "dlist d1 None as (Some (hd bs))" "dlist d1 (Some (last bs)) cs None"
      by (rule dlist_cong [OF D(1)] dlist_cong [OF D(3)]; use s1 l nb in simp)+
    moreover have ap: "last as \<notin> set cs" "hd cs \<notin> set as" 
      using dis(5) last_in_set [OF inner(1)] hd_in_set [OF inner(2)] by blast+
    ultimately have "dlist d2 None as (Some (hd cs))" "dlist d2 (Some (last bs)) cs None"
      unfolding d2_def using dlist_set_next [OF _ inner(1) dis(1)] by (auto simp: dlist_other)
    then show ?thesis
      unfolding d3_def using dlist_set_prev [OF _ inner(2) dis(3)] ap(2) inner by (auto simp: dlist_append dlist_other)
  qed
  then have "vm_ok v' (L(vrunning v := as @ cs))"
  proof (rule vm_ok_relist [OF ok run(2), rotated 2])
    show "pg_free (d3 ! x) = 0 \<and> pg_TID (d3 ! x) = t_id t" if "x \<in> set (as @ cs)" for x
      using that keep s1(2) dis(4,6) O(5,6) [of x] by auto
    show "d3 ! x = page_data v ! x \<and> x \<notin> set (as @ cs)" if "b \<noteq> vrunning v" "vthreads v b = Some u" "x \<in> set (L b)" for b u x
    proof -
      have "x \<notin> set (as @ bs @ cs)" using vm_okD(5) [OF ok that(2) run(2)] that(1,3) run(3) by auto
      moreover from this have "x \<noteq> last as" "x \<noteq> hd cs" using inner by auto
      ultimately show ?thesis using s1(2) by (simp add: d3_def d2_def)
    qed
  qed (use O(3) keep s1 l in \<open>auto simp: v'_def d3_def d2_def\<close>)
  moreover have "set (free_pages v') = set (free_pages v) \<union> set bs"
    using keep(1) s1(2) lt(3) l by (auto simp: free_pages_in v'_def subset_iff)
  ultimately show ?thesis by (auto simp: v'_def)
qed

text \<open>
  Claim C38. Freeing an allocation by the address of its first page: when there are allocations before and
  behind it in the thread's list, exactly its pages leave the list and become free; but when it is the
  first or the last in the list, the program follows a null pointer.
\<close>

theorem page_free_allocation:
  assumes "vm_ok v L" "vrunning v \<noteq> NULL" "vthreads v (vrunning v) = Some t" "L (vrunning v) = as @ bs @ cs" "allocation_at v bs"
  shows "if as = [] \<or> cs = [] then page_free (memory v + int (hd bs) * 4096) v = None
    else \<exists>v'. page_free (memory v + int (hd bs) * 4096) v = Some v' \<and> vm_ok v' (L(vrunning v := as @ cs)) \<and>
      set (free_pages v') = set (free_pages v) \<union> set bs \<and> frames v' = frames v \<and> locked v' = locked v"
  using page_free_edge [OF assms] page_free_law [OF assms] by simp

section \<open>Page faults\<close>

lemma walk_law:
  assumes "dlist (page_data v) pr xs nx" "j < length xs"
  shows "walk j (Some (hd xs)) v = Some (Some (xs ! j))"
  using assms
proof (induction xs arbitrary: pr j)
  case (Cons x xs)
  have x: "x < length (page_data v)" "pg_next (page_data v ! x) = (if xs = [] then nx else Some (hd xs))" "dlist (page_data v) (Some x) xs nx"
    using Cons(2) by (simp_all add: dlist_Cons)
  show ?case
  proof (cases j)
    case (Suc i)
    then have "xs \<noteq> []" "i < length xs" using Cons(3) by auto
    then show ?thesis using Suc x Cons(1) [OF x(3)] by (simp add: meta_in)
  qed simp
qed simp

lemma scan_page:
  assumes "vm_ok v L" "i < 256"
  shows "scan (\<lambda>d. pg_page d = memory v + int i * 4096) (page_data v) = int i"
  unfolding scan_eq_int using vm_okD(2) [OF assms(1)] vm_okD(3) [OF assms(1)] assms(2) by auto

lemma fault_law:
  assumes ok: "vm_ok v L" and run: "vrunning v \<noteq> NULL" "vthreads v (vrunning v) = Some t" and fr: "length (frames v) = 256"
    and j: "j < length (L (vrunning v))" and a: "memory v + int j * 4096 \<le> a" "a < memory v + int (Suc j) * 4096"
    and x: "x = L (vrunning v) ! j" and acc: "x \<notin> locked v - {j}"
  shows "vmem_sig_handler a v = Some (v\<lparr>frames := (frames v)[j := frames v ! x, x := frames v ! j],
    locked := insert x (locked v - {j})\<rparr>)"
proof -
  note O = ownsD [OF vm_okD(4) [OF ok run(2)] run(2)]
  have l: "length (page_data v) = 256" using ok by (rule vm_okD)
  have xin: "x < 256" using dlist_in [OF O(4)] j x l by simp
  have "length (L (vrunning v)) = card (set (L (vrunning v)))" using O(3) by (simp add: distinct_card)
  also have "\<dots> \<le> card {..<256 :: nat}" using dlist_in [OF O(4)] l by (intro card_mono) auto
  finally have j256: "j < 256" using j by simp
  have "c_div (a - memory v) 4096 = int j"
    using a by (subst c_div_nonneg) (auto intro!: int_div_pos_eq [where r = "a - memory v - 4096 * int j"])
  then have idx: "to_int (c_div (a - memory v) 4096 + 1) = int j + 1" using j256 by (simp add: to_int_id)
  have pl: "page_list t = Some (hd (L (vrunning v)))" using O(1) j by (cases "L (vrunning v)") simp_all
  have px: "pg_page (page_data v ! x) = memory v + int x * 4096" "pg_page (page_data v ! j) = memory v + int j * 4096"
    using vm_okD(3) [OF ok] xin j256 by simp_all
  have wk: "walk j (page_list t) v = Some (Some x)" using walk_law [OF O(4) j] x pl by simp
  have fn: "frame_no (memory v + int i * 4096) v = int i" for i by (simp add: frame_no_def)
  have same: "(page_data v)[i := (page_data v ! i)\<lparr>pg_page := memory v + int i * 4096\<rparr>] = page_data v" if "i < 256" for i
    using vm_okD(3) [OF ok that] by (intro list_update_same_conv [THEN iffD2]) (use l that in \<open>simp_all add: page_meta.equality\<close>)
  show ?thesis
    using run idx wk px fn scan_page [OF ok] same xin j256 l fr acc
    by (simp add: vmem_sig_handler_def runner_def meta_in Let_def)
qed

text \<open>
  A fault of the running thread on place \<open>j\<close> of its address space, where its page \<open>x\<close> should be: the
  bytes of places \<open>j\<close> and \<open>x\<close> are exchanged, place \<open>j\<close> is unlocked and place \<open>x\<close> locked; but the
  metadata is left as it was, so every list still names the old places.
\<close>

theorem fault_swaps:
  assumes "vm_ok v L" "vrunning v \<noteq> NULL" "vthreads v (vrunning v) = Some t" "length (frames v) = 256"
    "j < length (L (vrunning v))" "memory v + int j * 4096 \<le> a" "a < memory v + int (Suc j) * 4096"
    "x = L (vrunning v) ! j" "x \<notin> locked v"
  shows "vmem_sig_handler a v = Some (v\<lparr>frames := (frames v)[j := frames v ! x, x := frames v ! j],
    locked := insert x (locked v - {j})\<rparr>)"
  using assms(9) by (intro fault_law [OF assms(1-8)]) simp

section \<open>Changing the running thread\<close>

lemma protect_list_law:
  assumes "dlist (page_data v) pr xs None" "\<And>x. x \<in> set xs \<Longrightarrow> pg_page (page_data v ! x) = memory v + int x * 4096"
  shows "protect_list lock (hd_opt xs) v = Some (v\<lparr>locked := (if lock then locked v \<union> set xs else locked v - set xs)\<rparr>)"
  using assms
proof (induction xs arbitrary: pr v)
  case Nil
  then show ?case by (subst protect_list.simps) simp
next
  case (Cons x xs)
  define w where "w = v\<lparr>locked := (if lock then insert x (locked v) else locked v - {x})\<rparr>"
  have x: "x < length (page_data v)" "pg_next (page_data v ! x) = hd_opt xs" "dlist (page_data w) (Some x) xs None"
    using Cons(2) by (cases xs; simp add: dlist_Cons w_def)+
  have "nat (frame_no (pg_page (page_data v ! x)) v) = x" using Cons(3) [of x] by (simp add: frame_no_def)
  then have "protect_list lock (Some x) v = protect_list lock (hd_opt xs) w"
    using x(1,2) by (subst protect_list.simps) (simp add: meta_in w_def Let_def)
  also have "\<dots> = Some (w\<lparr>locked := (if lock then locked w \<union> set xs else locked w - set xs)\<rparr>)"
    by (rule Cons(1) [OF x(3)]) (use Cons(3) in \<open>simp add: w_def\<close>)
  finally show ?case by (auto simp: w_def Diff_insert2 [symmetric])
qed

text \<open>
  When the scheduler changes from one thread to another it locks exactly the pages of the first
  and unlocks exactly those of the second; when its first look finds no thread to run it only locks,
  and nothing is unlocked for the thread it finds later.
\<close>

theorem switch_protects:
  assumes ok: "vm_ok v L" and p: "vthreads v prev = Some t" and n: "nxt = NULL \<or> vthreads v nxt = Some u"
  shows "switch_pages prev nxt v = Some (v\<lparr>locked := (locked v \<union> set (L prev)) - (if nxt = NULL then {} else set (L nxt))\<rparr>)"
proof -
  have pg: "pg_page (page_data v ! x) = memory v + int x * 4096" if "vthreads v a = Some w" "x \<in> set (L a)" for a w x
  proof -
    have "x < 256" using dlist_in [OF ownsD(4) [OF vm_okD(4) [OF ok that(1)] that(1)] that(2)] vm_okD(2) [OF ok] by simp
    then show ?thesis by (rule vm_okD(3) [OF ok])
  qed
  note O = ownsD [OF vm_okD(4) [OF ok]]
  let ?w = "v\<lparr>locked := locked v \<union> set (L prev)\<rparr>"
  have lock: "protect_list True (page_list t) v = Some ?w"
    using protect_list_law [OF O(4) [OF p p] pg [OF p], of True] O(1) [OF p p] by simp
  show ?thesis
  proof (cases "nxt = NULL")
    case True
    then show ?thesis using p lock by (simp add: switch_pages_def)
  next
    case False
    then have u: "vthreads v nxt = Some u" using n by simp
    have "protect_list False (page_list u) ?w = Some (?w\<lparr>locked := locked ?w - set (L nxt)\<rparr>)"
      using protect_list_law [of ?w None "L nxt" False] O(4) [OF u u] pg [OF u] O(1) [OF u u] by simp
    then show ?thesis using p u lock False by (simp add: switch_pages_def)
  qed
qed

end
