(* ===== verification/Paged_Heap.thy ===== *)
theory Paged_Heap
  imports Paging_Free
begin

text \<open>
  How the thread library of asst2 uses its own paged memory (\<^verbatim>\<open>src/asst2/my_pthread.c\<close>, lines 285 to 344). The macros
  \<open>malloc\<close> and \<open>free\<close> stand for \<open>page_malloc\<close> and \<open>page_free\<close>, so every \<open>Queue\<close> and \<open>Node\<close> lies in pages of
  the thread that was running when it was made. Pointers into the pages are integers; a load or a store works on
  the bytes in \<open>frames\<close>, little endian, after the signal handler has dealt with the protection of the place.

  A struct begins one byte behind the start of a page and has at most 32 bytes; an access that goes past the end
  of a page does not occur and is not modelled.
\<close>

section \<open>Numbers as bytes\<close>

primrec le_bytes :: "nat \<Rightarrow> int \<Rightarrow> string" where
  "le_bytes 0 x = []"
| "le_bytes (Suc n) x = char_of (x mod 256) # le_bytes n (x div 256)"

primrec le_val :: "string \<Rightarrow> int" where
  "le_val [] = 0"
| "le_val (c # cs) = of_char c + 256 * le_val cs"

lemma le_bytes_length [simp]: "length (le_bytes n x) = n"
  by (induction n arbitrary: x) simp_all

lemma le_val_bytes: "le_val (le_bytes n x) = x mod 256 ^ n"
proof (induction n arbitrary: x)
  case (Suc n)
  have "x mod 256 + 256 * (x div 256 mod 256 ^ n) = x mod (256 * 256 ^ n)"
    by (subst zmod_zmult2_eq) simp_all
  then show ?case using Suc [of "x div 256"] by (simp del: power_Suc add: power_Suc)
qed simp

lemma le_val_id: "0 \<le> x \<Longrightarrow> x < 256 ^ n \<Longrightarrow> le_val (le_bytes n x) = x"
  by (simp add: le_val_bytes)

section \<open>Loads and stores\<close>

text \<open>An access is retried as long as the place it goes to is protected.\<close>

partial_function (option) touch :: "int \<Rightarrow> vm \<Rightarrow> vm option" where
  "touch a v = (if nat (frame_no a v) \<in> locked v then do { v \<leftarrow> vmem_sig_handler a v; touch a v } else Some v)"

definition place :: "int \<Rightarrow> vm \<Rightarrow> nat" where
  "place a v = nat ((a - memory v) mod PAGE_SIZE)"

definition load :: "int \<Rightarrow> nat \<Rightarrow> vm \<Rightarrow> (string \<times> vm) option" where
  "load a n v = do {
     v \<leftarrow> touch a v;
     f \<leftarrow> arr_get (frames v) (frame_no a v);
     if page_init v = 0 \<or> length f < place a v + n then None
     else Some (take n (drop (place a v) f), v) }"

definition store :: "int \<Rightarrow> string \<Rightarrow> vm \<Rightarrow> vm option" where
  "store a bs v = do {
     v \<leftarrow> touch a v;
     f \<leftarrow> arr_get (frames v) (frame_no a v);
     if page_init v = 0 \<or> length f < place a v + length bs then None
     else do {
       fs \<leftarrow> arr_set (frames v) (frame_no a v) (take (place a v) f @ bs @ drop (place a v + length bs) f);
       Some (v\<lparr>frames := fs\<rparr>) } }"

text \<open>Pointers have eight bytes, an \<open>int\<close> has four.\<close>

definition get_ptr :: "int \<Rightarrow> vm \<Rightarrow> (int \<times> vm) option" where
  "get_ptr a v = do { (bs, v) \<leftarrow> load a 8 v; Some (le_val bs, v) }"

definition get_int :: "int \<Rightarrow> vm \<Rightarrow> (int \<times> vm) option" where
  "get_int a v = do { (bs, v) \<leftarrow> load a 4 v; Some (to_int (le_val bs), v) }"

definition put_ptr :: "int \<Rightarrow> int \<Rightarrow> vm \<Rightarrow> vm option" where
  "put_ptr a x v = store a (le_bytes 8 x) v"

definition put_int :: "int \<Rightarrow> int \<Rightarrow> vm \<Rightarrow> vm option" where
  "put_int a x v = store a (le_bytes 4 x) v"

section \<open>The queue\<close>

text \<open>
  \<open>Queue\<close> is \<open>back\<close> at offset 0 and \<open>size\<close> at offset 8, \<open>Node\<close> is \<open>thread\<close> at 0 and \<open>next\<close> at 8; both have 16
  bytes. Every \<open>->\<close> of the code is a load of its own.
\<close>

definition make_queue2 :: "int \<Rightarrow> vm \<Rightarrow> (int \<times> vm) option" where
  "make_queue2 base v = do {
     (new, v) \<leftarrow> page_malloc base 16 v;
     if new = 0 then Some (0, v)
     else do {
       v \<leftarrow> put_ptr new 0 v;
       v \<leftarrow> put_int (new + 8) 0 v;
       Some (new, v) } }"

definition take_only :: "int \<Rightarrow> vm \<Rightarrow> (int \<times> vm) option" where
  "take_only Q v = do {
     (b, v) \<leftarrow> get_ptr Q v;
     (ret, v) \<leftarrow> get_ptr b v;
     (b, v) \<leftarrow> get_ptr Q v;
     v \<leftarrow> page_free b v;
     v \<leftarrow> put_ptr Q 0 v;
     Some (ret, v) }"

definition take_front :: "int \<Rightarrow> vm \<Rightarrow> (int \<times> vm) option" where
  "take_front Q v = do {
     (b, v) \<leftarrow> get_ptr Q v;
     (f, v) \<leftarrow> get_ptr (b + 8) v;
     (ret, v) \<leftarrow> get_ptr f v;
     (b, v) \<leftarrow> get_ptr Q v;
     (temp, v) \<leftarrow> get_ptr (b + 8) v;
     (n, v) \<leftarrow> get_int (Q + 8) v;
     v \<leftarrow> (if n = 2 then do {
             (x, v) \<leftarrow> get_ptr Q v;
             (b, v) \<leftarrow> get_ptr Q v;
             put_ptr (b + 8) x v }
           else do {
             (b, v) \<leftarrow> get_ptr Q v;
             (f, v) \<leftarrow> get_ptr (b + 8) v;
             (x, v) \<leftarrow> get_ptr (f + 8) v;
             (b, v) \<leftarrow> get_ptr Q v;
             put_ptr (b + 8) x v });
     v \<leftarrow> page_free temp v;
     Some (ret, v) }"

definition get_next2 :: "int \<Rightarrow> vm \<Rightarrow> (addr \<times> vm) option" where
  "get_next2 Q v = do {
     (n, v) \<leftarrow> get_int (Q + 8) v;
     if n = 0 then Some (NULL, v)
     else do {
       (n, v) \<leftarrow> get_int (Q + 8) v;
       (ret, v) \<leftarrow> (if n = 1 then take_only Q v else take_front Q v);
       (n, v) \<leftarrow> get_int (Q + 8) v;
       v \<leftarrow> put_int (Q + 8) (n - 1) v;
       Some (nat ret, v) } }"

text \<open>The code does not test what \<open>malloc\<close> returns.\<close>

definition enqueue2 :: "int \<Rightarrow> addr \<Rightarrow> int \<Rightarrow> vm \<Rightarrow> vm option" where
  "enqueue2 base thread Q v = do {
     (new, v) \<leftarrow> page_malloc base 16 v;
     v \<leftarrow> put_ptr new (int thread) v;
     (n, v) \<leftarrow> get_int (Q + 8) v;
     v \<leftarrow> (if n \<noteq> 0 then do {
             (b, v) \<leftarrow> get_ptr Q v;
             (x, v) \<leftarrow> get_ptr (b + 8) v;
             v \<leftarrow> put_ptr (new + 8) x v;
             (b, v) \<leftarrow> get_ptr Q v;
             put_ptr (b + 8) new v }
           else put_ptr (new + 8) new v);
     v \<leftarrow> put_ptr Q new v;
     (n, v) \<leftarrow> get_int (Q + 8) v;
     put_int (Q + 8) (n + 1) v }"

end
