(* ===== verification/Paged_Lib.thy ===== *)
theory Paged_Lib
  imports Paged_Heap
begin

text \<open>
  The thread library of asst2 on its paged memory (\<^verbatim>\<open>src/asst2/my_pthread.c\<close>, lines 342 to 810).

  \<open>lib2\<close> is the static data; \<open>memory\<close>, \<open>page_data\<close> and \<open>running_thread\<close> are in \<open>lvm\<close>, with the thread structs. The
  structs of the threads are kept as a whole and apart from the bytes of the pages: those of created threads belong to
  the client, but the one of the main thread lies in a page, whose protection is not checked when the struct
  is read or written. Pointers that \<open>malloc\<close> returned are
  integers, pointers of the client are addresses. As in the model of asst1 \<open>swapcontext\<close> is the change of
  \<open>running_thread\<close>, and a call that blocks is split at \<open>raise(SIGVTALRM)\<close>. What \<open>makecontext\<close> writes to the
  new stack is left out.

  The system call \<open>setitimer\<close> reads and writes the struct it is given; on a protected page it fails with \<open>EFAULT\<close>
  and raises no signal.
\<close>

section \<open>Data\<close>

record itimerval =
  iv_sec :: int
  iv_usec :: int
  v_sec :: int
  v_usec :: int

record mutex2 =
  m2_waiting :: int
  m2_user :: addr

record lib2 =
  lvm :: vm
  mutexes2 :: "addr \<rightharpoonup> mutex2"
  priority_level2 :: "int list"
  death_row2 :: int
  current_priority2 :: int
  run_at_priority2 :: int
  timer2 :: int
  pause2 :: int
  cont2 :: int
  itimer2 :: itimerval
  init2 :: bool
  thread_count2 :: int
  tid_list2 :: int
  thread_table2 :: "addr list"
  waiting2 :: "addr list"
  mutex_list2 :: "addr list"
  done2 :: "int list"

abbreviation (input) EFAULT :: int where "EFAULT \<equiv> 14"
abbreviation (input) LEVELS2 :: int where "LEVELS2 \<equiv> 5"
abbreviation (input) THREADS2 :: nat where "THREADS2 \<equiv> 1000"
abbreviation (input) MUTEXES2 :: nat where "MUTEXES2 \<equiv> 1000"
abbreviation (input) STACK2 :: int where "STACK2 \<equiv> 8000"

definition zero_itimer :: itimerval where
  "zero_itimer = \<lparr>iv_sec = 0, iv_usec = 0, v_sec = 0, v_usec = 0\<rparr>"

text \<open>The program starts with zero static data; \<open>ts\<close> and \<open>ms\<close> are the client's structs, \<open>fs\<close> the memory.\<close>

definition lib2_start :: "string list \<Rightarrow> (addr \<rightharpoonup> pthread2) \<Rightarrow> (addr \<rightharpoonup> mutex2) \<Rightarrow> lib2" where
  "lib2_start fs ts ms = \<lparr>lvm = \<lparr>memory = 0, page_data = replicate NUM_PAGES \<lparr>pg_page = 0, pg_next = None, pg_prev = None,
       pg_free = 0, pg_more = 0, pg_TID = 0\<rparr>, page_init = 0, vthreads = ts, vrunning = NULL, frames = fs, locked = {}, errno = 0\<rparr>,
     mutexes2 = ms, priority_level2 = replicate 5 0, death_row2 = 0, current_priority2 = 0, run_at_priority2 = 0,
     timer2 = 0, pause2 = 0, cont2 = 0, itimer2 = zero_itimer, init2 = False, thread_count2 = 0, tid_list2 = 0,
     thread_table2 = replicate THREADS2 NULL, waiting2 = replicate THREADS2 NULL, mutex_list2 = replicate MUTEXES2 NULL,
     done2 = replicate THREADS2 0\<rparr>"

text \<open>Whether \<open>getcontext\<close> succeeds, and what the page of the main thread's struct holds.\<close>

record env2 =
  gc_main2 :: bool
  gc_thread2 :: bool
  junk2 :: pthread2

section \<open>Steps on the memory and through pointers\<close>

definition on_vm :: "(vm \<Rightarrow> ('a \<times> vm) option) \<Rightarrow> lib2 \<Rightarrow> ('a \<times> lib2) option" where
  "on_vm f l = do { (x, v) \<leftarrow> f (lvm l); Some (x, l\<lparr>lvm := v\<rparr>) }"

definition do_vm :: "(vm \<Rightarrow> vm option) \<Rightarrow> lib2 \<Rightarrow> lib2 option" where
  "do_vm f l = do { v \<leftarrow> f (lvm l); Some (l\<lparr>lvm := v\<rparr>) }"

definition thread2 :: "addr \<Rightarrow> lib2 \<Rightarrow> pthread2 option" where
  "thread2 p l = (if p = NULL then None else vthreads (lvm l) p)"

definition upd_thread2 :: "addr \<Rightarrow> (pthread2 \<Rightarrow> pthread2) \<Rightarrow> lib2 \<Rightarrow> lib2 option" where
  "upd_thread2 p f l = do {
     t \<leftarrow> thread2 p l;
     Some (l\<lparr>lvm := (lvm l)\<lparr>vthreads := (vthreads (lvm l))(p \<mapsto> f t)\<rparr>\<rparr>) }"

definition upd_mutex2 :: "addr \<Rightarrow> (mutex2 \<Rightarrow> mutex2) \<Rightarrow> lib2 \<Rightarrow> lib2 option" where
  "upd_mutex2 p f l = do { m \<leftarrow> mutexes2 l p; Some (l\<lparr>mutexes2 := (mutexes2 l)(p \<mapsto> f m)\<rparr>) }"

definition running2 :: "lib2 \<Rightarrow> addr" where
  "running2 l = vrunning (lvm l)"

definition set_running2 :: "addr \<Rightarrow> lib2 \<Rightarrow> lib2" where
  "set_running2 p l = l\<lparr>lvm := (lvm l)\<lparr>vrunning := p\<rparr>\<rparr>"

section \<open>The interval timer\<close>

text \<open>Can the system copy \<open>n\<close> bytes from or to address \<open>p\<close>?\<close>

definition copy_ok :: "int \<Rightarrow> nat \<Rightarrow> vm \<Rightarrow> bool" where
  "copy_ok p n v \<longleftrightarrow> page_init v \<noteq> 0 \<and> 0 \<le> frame_no p v \<and> frame_no p v < int (length (frames v)) \<and>
     nat (frame_no p v) \<notin> locked v \<and> place p v + n \<le> length (frames v ! nat (frame_no p v))"

definition read_itimer :: "int \<Rightarrow> vm \<Rightarrow> itimerval" where
  "read_itimer p v = (let f = drop (place p v) (frames v ! nat (frame_no p v)) in
     \<lparr>iv_sec = le_val (take 8 f), iv_usec = le_val (take 8 (drop 8 f)),
      v_sec = le_val (take 8 (drop 16 f)), v_usec = le_val (take 8 (drop 24 f))\<rparr>)"

definition itimer_bytes :: "itimerval \<Rightarrow> string" where
  "itimer_bytes t = le_bytes 8 (iv_sec t) @ le_bytes 8 (iv_usec t) @ le_bytes 8 (v_sec t) @ le_bytes 8 (v_usec t)"

definition valid_itimer :: "itimerval \<Rightarrow> bool" where
  "valid_itimer t \<longleftrightarrow> iv_sec t < 2 ^ 63 \<and> v_sec t < 2 ^ 63 \<and> iv_usec t < 1000000 \<and> v_usec t < 1000000"

definition write_itimer :: "int \<Rightarrow> itimerval \<Rightarrow> vm \<Rightarrow> vm" where
  "write_itimer p t v = v\<lparr>frames := (frames v)[nat (frame_no p v) := (let f = frames v ! nat (frame_no p v) in
     take (place p v) f @ itimer_bytes t @ drop (place p v + 32) f)]\<rparr>"

definition set_errno :: "int \<Rightarrow> lib2 \<Rightarrow> lib2" where
  "set_errno e l = l\<lparr>lvm := (lvm l)\<lparr>errno := e\<rparr>\<rparr>"

text \<open>\<open>setitimer(ITIMER_VIRTUAL, new, old)\<close>; Linux takes a null pointer \<open>new\<close> for the zero value.\<close>

definition setitimer2 :: "int \<Rightarrow> int \<Rightarrow> lib2 \<Rightarrow> lib2" where
  "setitimer2 new old l =
     (if new \<noteq> 0 \<and> \<not> copy_ok new 32 (lvm l) then set_errno EFAULT l
      else let t = (if new = 0 then zero_itimer else read_itimer new (lvm l)) in
        if \<not> valid_itimer t then set_errno EINVAL l
        else if old = 0 then l\<lparr>itimer2 := t\<rparr>
        else if \<not> copy_ok old 32 (lvm l) then (set_errno EFAULT l)\<lparr>itimer2 := t\<rparr>
        else l\<lparr>itimer2 := t, lvm := write_itimer old (itimer2 l) (lvm l)\<rparr>)"

definition pause_timer :: "lib2 \<Rightarrow> lib2" where
  "pause_timer l = setitimer2 (pause2 l) (cont2 l) l"

definition resume_timer :: "lib2 \<Rightarrow> lib2" where
  "resume_timer l = setitimer2 (cont2 l) 0 l"

section \<open>Queues and identifiers\<close>

definition enqueue_level2 :: "int \<Rightarrow> addr \<Rightarrow> int \<Rightarrow> lib2 \<Rightarrow> lib2 option" where
  "enqueue_level2 base t p l = do { q \<leftarrow> arr_get (priority_level2 l) p; do_vm (enqueue2 base t q) l }"

definition get_next_level2 :: "int \<Rightarrow> lib2 \<Rightarrow> (addr \<times> lib2) option" where
  "get_next_level2 p l = do { q \<leftarrow> arr_get (priority_level2 l) p; on_vm (get_next2 q) l }"

text \<open>\<open>tid_node_t\<close> is \<open>tid\<close> at offset 0 and \<open>next\<close> at offset 8.\<close>

definition get_ID2 :: "lib2 \<Rightarrow> (int \<times> lib2) option" where
  "get_ID2 l = do {
     (tid, l) \<leftarrow>
       (if tid_list2 l = 0 then Some (thread_count2 l, l\<lparr>thread_count2 := thread_count2 l + 1\<rparr>)
        else do {
          let ptr = tid_list2 l;
          (x, l) \<leftarrow> on_vm (get_ptr (ptr + 8)) l;
          (tid, l) \<leftarrow> on_vm (get_int ptr) (l\<lparr>tid_list2 := x\<rparr>);
          l \<leftarrow> do_vm (page_free ptr) l;
          Some (tid, l) });
     Some (if tid \<ge> int THREADS2 then -1 else tid, l) }"

definition free_ID2 :: "int \<Rightarrow> int \<Rightarrow> lib2 \<Rightarrow> lib2 option" where
  "free_ID2 base thread_id l = do {
     (ptr, l) \<leftarrow> on_vm (page_malloc base 16) l;
     l \<leftarrow> do_vm (put_int ptr thread_id) l;
     l \<leftarrow> do_vm (put_ptr (ptr + 8) (tid_list2 l)) l;
     Some (l\<lparr>tid_list2 := ptr\<rparr>) }"

end
