(* ===== verification/Paged_Sched.thy ===== *)
theory Paged_Sched
  imports Paged_Lib
begin

text \<open>
  The scheduler, the thread calls and the mutexes of asst2 (\<^verbatim>\<open>src/asst2/my_pthread.c\<close>, lines 378 to 810), over the
  state of \<open>Paged_Lib\<close>.
\<close>

section \<open>The scheduler\<close>

primrec init_levels2 :: "int \<Rightarrow> nat list \<Rightarrow> lib2 \<Rightarrow> lib2 option" where
  "init_levels2 base [] l = Some l"
| "init_levels2 base (i # is) l = do {
     (q, l) \<leftarrow> on_vm (make_queue2 base) l;
     init_levels2 base is (l\<lparr>priority_level2 := (priority_level2 l)[i := q]\<rparr>) }"

text \<open>\<open>malloc\<close> of a \<open>struct itimerval\<close>, filled in the order of the code.\<close>

definition new_itimer :: "int \<Rightarrow> int \<Rightarrow> int \<Rightarrow> vm \<Rightarrow> (int \<times> vm) option" where
  "new_itimer base value interval v = do {
     (p, v) \<leftarrow> page_malloc base 32 v;
     v \<leftarrow> put_ptr (p + 16) 0 v;
     v \<leftarrow> put_ptr (p + 24) value v;
     v \<leftarrow> put_ptr p 0 v;
     v \<leftarrow> put_ptr (p + 8) interval v;
     Some (p, v) }"

text \<open>\<open>sizeof(my_pthread_t)\<close> depends on the C library; any size up to a page is one page.\<close>

abbreviation (input) SIZEOF_PTHREAD :: int where "SIZEOF_PTHREAD \<equiv> 1016"

definition scheduler_init2 :: "int \<Rightarrow> env2 \<Rightarrow> lib2 \<Rightarrow> (int \<times> lib2) option" where
  "scheduler_init2 base e l = do {
     l \<leftarrow> init_levels2 base [0..<5] (l\<lparr>thread_count2 := 1, tid_list2 := 0\<rparr>);
     (d, l) \<leftarrow> on_vm (make_queue2 base) l;
     let l = l\<lparr>death_row2 := d, thread_table2 := replicate THREADS2 NULL, mutex_list2 := replicate MUTEXES2 NULL\<rparr>;
     (r, l) \<leftarrow> on_vm (page_malloc base SIZEOF_PTHREAD) l;
     let l = (if r = 0 then l else l\<lparr>lvm := (lvm l)\<lparr>vthreads := (vthreads (lvm l))(nat r \<mapsto> junk2 e)\<rparr>\<rparr>);
     let l = set_running2 (nat r) l;
     if \<not> gc_main2 e then Some (-1, l)
     else do {
       l \<leftarrow> upd_thread2 (running2 l) (\<lambda>t. t\<lparr>t_status := Active2, t_priority := 0, t_intervals := 0, t_id := 0\<rparr>) l;
       (p, l) \<leftarrow> on_vm (new_itimer base 0 0) l;
       (t, l) \<leftarrow> on_vm (new_itimer base 25 25) (l\<lparr>pause2 := p\<rparr>);
       (c, l) \<leftarrow> on_vm (page_malloc base 32) (l\<lparr>timer2 := t\<rparr>);
       let l = setitimer2 (timer2 l) 0 (l\<lparr>cont2 := c\<rparr>);
       Some (0, l\<lparr>init2 := True\<rparr>) } }"

definition update_counters2 :: "lib2 \<Rightarrow> lib2" where
  "update_counters2 l =
     (if run_at_priority2 l < LEVELS2 - current_priority2 l
      then l\<lparr>current_priority2 := c_mod (current_priority2 l + 1) LEVELS2, run_at_priority2 := 0\<rparr>
      else l\<lparr>run_at_priority2 := run_at_priority2 l + 1\<rparr>)"

partial_function (option) select_loop2 :: "lib2 \<Rightarrow> lib2 option" where
  "select_loop2 l =
     (if running2 l \<noteq> NULL then Some l
      else do {
        let l = l\<lparr>current_priority2 := c_mod (current_priority2 l + 1) LEVELS2\<rparr>;
        (t, l) \<leftarrow> get_next_level2 (current_priority2 l) l;
        select_loop2 (set_running2 t l) })"

text \<open>Lines 493 to 528.\<close>

definition reschedule2 :: "lib2 \<Rightarrow> lib2 option" where
  "reschedule2 l = do {
     let l = update_counters2 l;
     let prev_thread = running2 l;
     (t, l) \<leftarrow> get_next_level2 (current_priority2 l) l;
     l \<leftarrow> do_vm (switch_pages prev_thread t) (set_running2 t l);
     l \<leftarrow> select_loop2 l;
     Some (setitimer2 (timer2 l) 0 l) }"

definition scheduler_alarm_handler2 :: "int \<Rightarrow> lib2 \<Rightarrow> lib2 option" where
  "scheduler_alarm_handler2 base l = do {
     let l = pause_timer l;
     rt \<leftarrow> thread2 (running2 l) l;
     (case t_status rt of
        Active2 \<Rightarrow> do {
          l \<leftarrow> upd_thread2 (running2 l) (\<lambda>t. t\<lparr>t_intervals := t_intervals t + 1\<rparr>) l;
          if t_intervals rt < current_priority2 l then Some (setitimer2 (timer2 l) 0 l)
          else do {
            l \<leftarrow> upd_thread2 (running2 l) (\<lambda>t. t\<lparr>t_intervals := 0, t_priority := c_mod (t_priority t + 1) LEVELS2\<rparr>) l;
            l \<leftarrow> enqueue_level2 base (running2 l) (c_mod (t_priority rt + 1) LEVELS2) l;
            reschedule2 l } }
      | Yield2 \<Rightarrow> do {
          l \<leftarrow> enqueue_level2 base (running2 l) (t_priority rt) l;
          reschedule2 l }
      | Wait_mutex2 \<Rightarrow> reschedule2 l
      | Thread_exit2 \<Rightarrow> do {
          w \<leftarrow> arr_get (waiting2 l) (t_id rt);
          if w = NULL then reschedule2 l
          else do {
            l \<leftarrow> upd_thread2 w (\<lambda>t. t\<lparr>t_status := Active2\<rparr>) l;
            wt \<leftarrow> thread2 w l;
            l \<leftarrow> enqueue_level2 base w (t_priority wt) l;
            reschedule2 l } }
      | Wait_thread2 \<Rightarrow> reschedule2 l) }"

section \<open>Thread calls\<close>

text \<open>As in asst1 no address is below \<open>NULL\<close>; a failure of \<open>scheduler_init\<close> goes unnoticed.\<close>

definition my_pthread_create2 :: "int \<Rightarrow> env2 \<Rightarrow> addr \<Rightarrow> addr \<Rightarrow> lib2 \<Rightarrow> (int \<times> lib2) option" where
  "my_pthread_create2 base e thread attr l =
     (if attr < NULL then Some (EINVAL, l)
      else do {
        l \<leftarrow> (if init2 l then Some l else map_option snd (scheduler_init2 base e l));
        let l = pause_timer l;
        if \<not> gc_thread2 e then Some (-1, resume_timer l)
        else do {
          (sp, l) \<leftarrow> on_vm (page_malloc base STACK2) l;
          l \<leftarrow> upd_thread2 thread (\<lambda>t. t\<lparr>t_stack := sp\<rparr>) l;
          if sp = 0 then Some (EAGAIN, resume_timer l)
          else do {
            (tid, l) \<leftarrow> get_ID2 l;
            l \<leftarrow> upd_thread2 thread (\<lambda>t. t\<lparr>t_id := tid, t_wait_id := -1, t_priority := 0, t_intervals := 0, t_ret := NULL\<rparr>) l;
            tt \<leftarrow> arr_set (thread_table2 l) tid thread;
            wt \<leftarrow> arr_set (waiting2 l) tid NULL;
            dn \<leftarrow> arr_set (done2 l) tid 0;
            l \<leftarrow> enqueue_level2 base thread 0 (l\<lparr>thread_table2 := tt, waiting2 := wt, done2 := dn\<rparr>);
            l \<leftarrow> upd_thread2 thread (\<lambda>t. t\<lparr>t_status := Active2, num_pages := 0, page_list := None\<rparr>) l;
            Some (0, resume_timer l) } } })"

datatype call2 = Ret2 int | Raise2 | Go2

definition my_pthread_yield2 :: "int \<Rightarrow> lib2 \<Rightarrow> lib2 option" where
  "my_pthread_yield2 base l = do {
     l \<leftarrow> upd_thread2 (running2 l) (\<lambda>t. t\<lparr>t_status := Yield2\<rparr>) l;
     scheduler_alarm_handler2 base l }"

definition pthread_exit2 :: "int \<Rightarrow> addr \<Rightarrow> lib2 \<Rightarrow> lib2 option" where
  "pthread_exit2 base value_ptr l = do {
     let l = pause_timer l;
     l \<leftarrow> upd_thread2 (running2 l) (\<lambda>t. t\<lparr>t_ret := value_ptr, t_status := Thread_exit2\<rparr>) l;
     rt \<leftarrow> thread2 (running2 l) l;
     dn \<leftarrow> arr_set (done2 l) (t_id rt) 1;
     scheduler_alarm_handler2 base (l\<lparr>done2 := dn\<rparr>) }"

fun waited_for2 :: "lib2 \<Rightarrow> int \<Rightarrow> addr list \<Rightarrow> bool option" where
  "waited_for2 l r [] = Some False"
| "waited_for2 l r (w # ws) =
     (if w = NULL then waited_for2 l r ws
      else do {
        t \<leftarrow> thread2 w l;
        if t_wait_id t = r then Some True else waited_for2 l r ws })"

definition my_pthread_join_enter2 :: "pthread2 \<Rightarrow> lib2 \<Rightarrow> (call2 \<times> lib2) option" where
  "my_pthread_join_enter2 thread l = do {
     rt \<leftarrow> thread2 (running2 l) l;
     if t_id rt = t_id thread then Some (Ret2 EDEADLK, l)
     else if t_wait_id thread = t_id rt then Some (Ret2 EDEADLK, l)
     else do {
       w \<leftarrow> waited_for2 l (t_id rt) (waiting2 l);
       if w then Some (Ret2 EINVAL, l)
       else do {
         e \<leftarrow> arr_get (thread_table2 l) (t_id thread);
         if e = NULL then Some (Ret2 ESRCH, l)
         else do {
           d \<leftarrow> arr_get (done2 l) (t_id thread);
           if d = 0 then do {
             let l = pause_timer l;
             l \<leftarrow> upd_thread2 (running2 l) (\<lambda>t. t\<lparr>t_status := Wait_thread2, t_wait_id := t_id thread\<rparr>) l;
             ws \<leftarrow> arr_set (waiting2 l) (t_id thread) (running2 l);
             Some (Raise2, resume_timer (l\<lparr>waiting2 := ws\<rparr>)) }
           else Some (Go2, l) } } } }"

definition my_pthread_join_resume2 :: "int \<Rightarrow> pthread2 \<Rightarrow> addr \<Rightarrow> lib2 \<Rightarrow> (addr option \<times> int \<times> lib2) option" where
  "my_pthread_join_resume2 base thread value_ptr l = do {
     let l = pause_timer l;
     p \<leftarrow> arr_get (thread_table2 l) (t_id thread);
     t \<leftarrow> thread2 p l;
     let v = (if value_ptr = NULL then None else Some (t_ret t));
     ws \<leftarrow> arr_set (waiting2 l) (t_id thread) NULL;
     l \<leftarrow> do_vm (page_free (t_stack t)) (l\<lparr>waiting2 := ws\<rparr>);
     tt \<leftarrow> arr_set (thread_table2 l) (t_id thread) NULL;
     l \<leftarrow> free_ID2 base (t_id thread) (l\<lparr>thread_table2 := tt\<rparr>);
     Some (v, 0, resume_timer l) }"

section \<open>Mutexes\<close>

definition my_pthread_mutex_init2 :: "int \<Rightarrow> addr \<Rightarrow> addr \<Rightarrow> lib2 \<Rightarrow> (int \<times> lib2) option" where
  "my_pthread_mutex_init2 base mutex mutexattr l = do {
     (q, l) \<leftarrow> on_vm (make_queue2 base) l;
     l \<leftarrow> upd_mutex2 mutex (\<lambda>m. m\<lparr>m2_waiting := q\<rparr>) l;
     if q = 0 then Some (ENOMEM, l)
     else if scan (\<lambda>x. x = mutex) (mutex_list2 l) \<ge> 0 then Some (EBUSY, l)
     else if mutexattr < NULL then Some (EINVAL, l)
     else do {
       l \<leftarrow> upd_mutex2 mutex (\<lambda>m. m\<lparr>m2_user := NULL\<rparr>) l;
       let i = scan (\<lambda>x. x = NULL) (mutex_list2 l);
       if i < 0 then Some (0, l)
       else do {
         ml \<leftarrow> arr_set (mutex_list2 l) i mutex;
         Some (0, l\<lparr>mutex_list2 := ml\<rparr>) } } }"

definition my_pthread_mutex_claim2 :: "addr \<Rightarrow> lib2 \<Rightarrow> (int \<times> lib2) option" where
  "my_pthread_mutex_claim2 mutex l = do {
     l \<leftarrow> upd_mutex2 mutex (\<lambda>m. m\<lparr>m2_user := running2 l\<rparr>) l;
     Some (0, resume_timer l) }"

definition my_pthread_mutex_lock_enter2 :: "int \<Rightarrow> addr \<Rightarrow> lib2 \<Rightarrow> (call2 \<times> lib2) option" where
  "my_pthread_mutex_lock_enter2 base mutex l = do {
     let l = pause_timer l;
     if mutex \<le> NULL then Some (Ret2 EINVAL, resume_timer l)
     else do {
       m \<leftarrow> mutexes2 l mutex;
       if m2_user m = running2 l then Some (Ret2 EDEADLK, resume_timer l)
       else if m2_user m \<noteq> NULL then do {
         l \<leftarrow> do_vm (enqueue2 base (running2 l) (m2_waiting m)) l;
         l \<leftarrow> upd_thread2 (running2 l) (\<lambda>t. t\<lparr>t_status := Wait_mutex2\<rparr>) l;
         Some (Raise2, resume_timer l) }
       else Some (Go2, l) } }"

definition my_pthread_mutex_unlock2 :: "int \<Rightarrow> addr \<Rightarrow> lib2 \<Rightarrow> (int \<times> lib2) option" where
  "my_pthread_mutex_unlock2 base mutex l = do {
     let l = pause_timer l;
     m \<leftarrow> mutexes2 l mutex;
     if m2_user m \<noteq> running2 l then Some (EPERM, resume_timer l)
     else do {
       (u, l) \<leftarrow> on_vm (get_next2 (m2_waiting m)) l;
       l \<leftarrow> upd_mutex2 mutex (\<lambda>m. m\<lparr>m2_user := u\<rparr>) l;
       if u = NULL then Some (0, resume_timer l)
       else do {
         l \<leftarrow> upd_thread2 u (\<lambda>t. t\<lparr>t_status := Active2\<rparr>) l;
         t \<leftarrow> thread2 u l;
         l \<leftarrow> enqueue_level2 base u (t_priority t) l;
         Some (0, resume_timer l) } } }"

partial_function (option) drain_loop2 :: "int \<Rightarrow> int \<Rightarrow> lib2 \<Rightarrow> lib2 option" where
  "drain_loop2 base q l = do {
     (n, l) \<leftarrow> on_vm (get_int (q + 8)) l;
     if n = 0 then Some l
     else do {
       (temp, l) \<leftarrow> on_vm (get_next2 q) l;
       l \<leftarrow> upd_thread2 temp (\<lambda>t. t\<lparr>t_status := Active2\<rparr>) l;
       t \<leftarrow> thread2 temp l;
       l \<leftarrow> enqueue_level2 base temp (t_priority t) l;
       drain_loop2 base q l } }"

definition my_pthread_mutex_destroy2 :: "int \<Rightarrow> addr \<Rightarrow> lib2 \<Rightarrow> (int \<times> lib2) option" where
  "my_pthread_mutex_destroy2 base mutex l = do {
     let l = pause_timer l;
     if scan (\<lambda>x. x = mutex) (mutex_list2 l) < 0 then Some (EINVAL, l)
     else do {
       m \<leftarrow> mutexes2 l mutex;
       if m2_user m \<noteq> NULL then Some (EBUSY, l)
       else do {
         l \<leftarrow> drain_loop2 base (m2_waiting m) l;
         l \<leftarrow> do_vm (page_free (m2_waiting m)) l;
         l \<leftarrow> upd_mutex2 mutex (\<lambda>m. m\<lparr>m2_user := NULL\<rparr>) l;
         Some (0, resume_timer l) } } }"

end
