(* ===== verification/Paged_Queue.thy ===== *)
theory Paged_Queue
  imports Paged_Heap Fifo_Runs
begin

text \<open>
  The laws of loads and stores to pages, and the queue of asst2 as a FIFO list when one thread owns all
  pages in use: it is one, but every \<open>enqueue\<close> takes a page and no \<open>get_next\<close> gives one back.
\<close>

section \<open>Access to unprotected pages\<close>

text \<open>Memory at \<open>m\<close>, all pages there, none protected, all addresses positive numbers of 64 bits.\<close>

definition whole :: "vm \<Rightarrow> bool" where
  "whole v \<longleftrightarrow> length (frames v) = 256 \<and> (\<forall>f \<in> set (frames v). length f = 4096)"

definition clear :: "int \<Rightarrow> vm \<Rightarrow> bool" where
  "clear m v \<longleftrightarrow> memory v = m \<and> page_init v \<noteq> 0 \<and> whole v \<and> locked v = {} \<and> 0 < m \<and> m + 1048576 < 2 ^ 64"

definition vpage :: "int \<Rightarrow> nat \<Rightarrow> int" where
  "vpage m k = m + int k * 4096 + 1"

text \<open>The pointer at offset \<open>i\<close> of page \<open>k\<close>, and the \<open>int\<close> behind the first pointer of a struct.\<close>

definition fld :: "nat \<Rightarrow> vm \<Rightarrow> nat \<Rightarrow> int" where
  "fld i v k = le_val (take 8 (drop i (frames v ! k)))"

definition cnt :: "vm \<Rightarrow> nat \<Rightarrow> int" where
  "cnt v k = to_int (le_val (take 4 (drop 9 (frames v ! k))))"

definition poke :: "nat \<Rightarrow> nat \<Rightarrow> string \<Rightarrow> vm \<Rightarrow> vm" where
  "poke k i bs v = v\<lparr>frames := (frames v)[k := take i (frames v ! k) @ bs @ drop (i + length bs) (frames v ! k)]\<rparr>"

lemma touch_free: "nat (frame_no a v) \<notin> locked v \<Longrightarrow> touch a v = Some v"
  by (subst touch.simps) simp

lemma touch_clear: "locked v = {} \<Longrightarrow> touch a v = Some v"
  by (rule touch_free) simp

lemma frame_at:
  assumes "i < 4096"
  shows "frame_no (memory v + int k * 4096 + int i) v = int k" "place (memory v + int k * 4096 + int i) v = i"
proof -
  have "memory v + int k * 4096 + int i - memory v = int i + 4096 * int k" by simp
  moreover have "(int i + 4096 * int k) div 4096 = int k" "(int i + 4096 * int k) mod 4096 = int i"
    using assms by simp_all
  ultimately show "frame_no (memory v + int k * 4096 + int i) v = int k" "place (memory v + int k * 4096 + int i) v = i"
    unfolding frame_no_def place_def by simp_all
qed

lemma frame_length: "whole v \<Longrightarrow> k < 256 \<Longrightarrow> length (frames v ! k) = 4096"
  by (simp add: whole_def)

text \<open>An access to a place that is not protected.\<close>

definition open_at :: "nat \<Rightarrow> vm \<Rightarrow> bool" where
  "open_at k v \<longleftrightarrow> page_init v \<noteq> 0 \<and> whole v \<and> k < 256 \<and> k \<notin> locked v"

lemma load_at:
  assumes "open_at k v" "i + n \<le> 4096" "0 < n"
  shows "load (memory v + int k * 4096 + int i) n v = Some (take n (drop i (frames v ! k)), v)"
  using assms frame_at [of i v k] frame_length [of v k]
  by (simp add: load_def touch_free open_at_def whole_def)

lemma store_at:
  assumes "open_at k v" "i + length bs \<le> 4096" "bs \<noteq> []"
  shows "store (memory v + int k * 4096 + int i) bs v = Some (poke k i bs v)"
proof -
  have "i < 4096" using assms(2,3) by (cases bs) simp_all
  then show ?thesis
    using assms frame_at [of i v k] frame_length [of v k]
    by (simp add: store_def touch_free open_at_def whole_def poke_def)
qed

lemma clear_whole: "clear m v \<Longrightarrow> whole v"
  by (simp add: clear_def)

lemma clear_open: "clear m v \<Longrightarrow> k < 256 \<Longrightarrow> open_at k v"
  by (simp add: clear_def open_at_def)

lemma load_clear:
  assumes "clear m v" "k < 256" "i + n < 4000" "0 < n"
  shows "load (vpage m k + int i) n v = Some (take n (drop (Suc i) (frames v ! k)), v)"
  using load_at [OF clear_open [OF assms(1,2)], of "Suc i" n] assms by (simp add: clear_def vpage_def algebra_simps)

lemma store_clear:
  assumes "clear m v" "k < 256" "i + length bs < 4000" "bs \<noteq> []"
  shows "store (vpage m k + int i) bs v = Some (poke k (Suc i) bs v)"
  using store_at [OF clear_open [OF assms(1,2)], of "Suc i" bs] assms by (simp add: clear_def vpage_def algebra_simps)

lemma le_bytes_empty [simp]: "le_bytes n x = [] \<longleftrightarrow> n = 0"
  by (cases n) simp_all

lemma access_clear:
  assumes "clear m v" "k < 256"
  shows "get_ptr (vpage m k) v = Some (fld 1 v k, v)" "get_ptr (vpage m k + 8) v = Some (fld 9 v k, v)"
    "get_int (vpage m k + 8) v = Some (cnt v k, v)"
    "put_ptr (vpage m k) x v = Some (poke k 1 (le_bytes 8 x) v)" "put_ptr (vpage m k + 8) x v = Some (poke k 9 (le_bytes 8 x) v)"
    "put_int (vpage m k + 8) x v = Some (poke k 9 (le_bytes 4 x) v)"
  using load_clear [OF assms, of 0 8] load_clear [OF assms, of 8 8] load_clear [OF assms, of 8 4]
    store_clear [OF assms, of 0 "le_bytes 8 x"] store_clear [OF assms, of 8 "le_bytes 8 x"] store_clear [OF assms, of 8 "le_bytes 4 x"]
  by (simp_all add: get_ptr_def get_int_def put_ptr_def put_int_def fld_def cnt_def)

text \<open>What a store leaves as it was, and what the next load finds.\<close>

lemma poke_keeps [simp]:
  "memory (poke k i bs v) = memory v" "page_data (poke k i bs v) = page_data v" "vthreads (poke k i bs v) = vthreads v"
  "vrunning (poke k i bs v) = vrunning v" "locked (poke k i bs v) = locked v" "page_init (poke k i bs v) = page_init v"
  "errno (poke k i bs v) = errno v" "free_pages (poke k i bs v) = free_pages v" "length (frames (poke k i bs v)) = length (frames v)"
  by (simp_all add: poke_def free_pages_def)

lemma poke_other: "k' \<noteq> k \<Longrightarrow> frames (poke k i bs v) ! k' = frames v ! k'"
  by (simp add: poke_def)

lemma poke_whole:
  assumes "whole v" "k < 256" "i + length bs \<le> 4096"
  shows "whole (poke k i bs v)"
proof -
  have "length f = 4096" if "f \<in> set (frames (poke k i bs v))" for f
  proof -
    have "f \<in> insert (take i (frames v ! k) @ bs @ drop (i + length bs) (frames v ! k)) (set (frames v))"
      using that set_update_subset_insert [of "frames v" k] unfolding poke_def by (simp add: subset_iff)
    then show ?thesis using assms frame_length [OF assms(1,2)] by (auto simp: whole_def)
  qed
  then show ?thesis using assms(1) by (simp add: whole_def)
qed

lemma poke_clear: "clear m v \<Longrightarrow> k < 256 \<Longrightarrow> i + length bs \<le> 4096 \<Longrightarrow> clear m (poke k i bs v)"
  by (simp add: clear_def poke_whole)

lemma poke_same:
  assumes "whole v" "k < 256" "i + length bs \<le> 4096"
  shows "take (length bs) (drop i (frames (poke k i bs v) ! k)) = bs"
    and "i + length bs \<le> j \<Longrightarrow> drop j (frames (poke k i bs v) ! k) = drop j (frames v ! k)"
    and "j + n \<le> i \<Longrightarrow> take n (drop j (frames (poke k i bs v) ! k)) = take n (drop j (frames v ! k))"
  using assms frame_length [OF assms(1,2)] by (simp_all add: poke_def whole_def take_drop min_def)

lemma fld_poke:
  assumes "whole v" "k < 256"
  shows "fld 1 (poke k 1 (le_bytes 8 x) v) k = x mod 2 ^ 64" "fld 9 (poke k 1 (le_bytes 8 x) v) k = fld 9 v k"
    "fld 9 (poke k 9 (le_bytes 8 x) v) k = x mod 2 ^ 64" "fld 1 (poke k 9 (le_bytes 8 x) v) k = fld 1 v k"
    "fld 1 (poke k 9 (le_bytes 4 y) v) k = fld 1 v k" "cnt (poke k 9 (le_bytes 4 y) v) k = to_int (y mod 2 ^ 32)"
    "cnt (poke k 1 (le_bytes 8 x) v) k = cnt v k"
  using poke_same [OF assms, of 1 "le_bytes 8 x"] poke_same [OF assms, of 9 "le_bytes 8 x"] poke_same [OF assms, of 9 "le_bytes 4 y"]
  by (simp_all add: fld_def cnt_def le_val_bytes)

lemma fld_other: "k' \<noteq> k \<Longrightarrow> fld j (poke k i bs v) k' = fld j v k'" "k' \<noteq> k \<Longrightarrow> cnt (poke k i bs v) k' = cnt v k'"
  by (simp_all add: fld_def cnt_def poke_other)

lemma fld_before:
  assumes "whole v" "k < 256"
  shows "fld 1 (poke k 9 (le_bytes 8 x) v) k' = fld 1 v k'" "fld 1 (poke k 9 (le_bytes 4 x) v) k' = fld 1 v k'"
  using fld_poke(4,5) [OF assms] fld_other(1) [of k' k] by (cases "k' = k"; simp)+

section \<open>The ring of nodes\<close>

text \<open>The queue in page \<open>q\<close> with its nodes in the pages \<open>ps\<close>, front first, holds the threads \<open>ts\<close>.\<close>

definition ring2 :: "int \<Rightarrow> vm \<Rightarrow> nat \<Rightarrow> nat list \<Rightarrow> addr list \<Rightarrow> bool" where
  "ring2 m v q ps ts \<longleftrightarrow> length ps = length ts \<and> distinct (q # ps) \<and> set (q # ps) \<subseteq> {..<256} \<and> cnt v q = int (length ts) \<and>
     map (fld 1 v) ps = map int ts \<and>
     (ps \<noteq> [] \<longrightarrow> fld 1 v q = vpage m (last ps) \<and> fld 9 v (last ps) = vpage m (hd ps) \<and>
        map (fld 9 v) (butlast ps) = map (vpage m) (tl ps))"

lemma vpage_range: "clear m v \<Longrightarrow> k < 256 \<Longrightarrow> vpage m k mod 2 ^ 64 = vpage m k"
  by (simp add: clear_def vpage_def)

lemma vpage_inj: "vpage m j = vpage m k \<longleftrightarrow> j = k"
  by (simp add: vpage_def)

lemma ring2_length: "ring2 m v q ps ts \<Longrightarrow> length ts < 256"
  using card_mono [of "{..<256 :: nat}" "set (q # ps)"] distinct_card [of "q # ps"] by (simp add: ring2_def del: set_simps)

lemma ring2_frame:
  assumes "ring2 m v q ps ts" "\<And>k. k \<in> set (q # ps) \<Longrightarrow> frames w ! k = frames v ! k"
  shows "ring2 m w q ps ts"
proof -
  have f: "fld i w k = fld i v k" "cnt w k = cnt v k" if "k \<in> set (q # ps)" for i k
    using assms(2) [OF that] by (simp_all add: fld_def cnt_def)
  then have "map (fld 1 w) ps = map (fld 1 v) ps" "map (fld 9 w) (butlast ps) = map (fld 9 v) (butlast ps)"
    "cnt w q = cnt v q" "fld 1 w q = fld 1 v q" "ps \<noteq> [] \<Longrightarrow> fld 9 w (last ps) = fld 9 v (last ps)"
    by (auto dest: in_set_butlastD)
  then show ?thesis using assms(1) unfolding ring2_def by presburger
qed

text \<open>The stores of \<open>enqueue\<close> to a new page \<open>n\<close>, and those of \<open>get_next\<close>.\<close>

definition linked_in :: "int \<Rightarrow> addr \<Rightarrow> nat \<Rightarrow> nat \<Rightarrow> nat list \<Rightarrow> vm \<Rightarrow> vm" where
  "linked_in m t q n ps v =
     (let v1 = poke n 1 (le_bytes 8 (int t)) v;
          v2 = (if ps = [] then poke n 9 (le_bytes 8 (vpage m n)) v1
                else poke (last ps) 9 (le_bytes 8 (vpage m n)) (poke n 9 (le_bytes 8 (vpage m (hd ps))) v1))
      in poke q 9 (le_bytes 4 (int (length ps) + 1)) (poke q 1 (le_bytes 8 (vpage m n)) v2))"

definition linked_out :: "int \<Rightarrow> nat \<Rightarrow> nat list \<Rightarrow> vm \<Rightarrow> vm" where
  "linked_out m q ps v =
     (let v1 = (if tl ps = [] then poke q 1 (le_bytes 8 0) v else poke (last ps) 9 (le_bytes 8 (vpage m (hd (tl ps)))) v)
      in poke q 9 (le_bytes 4 (int (length ps) - 1)) v1)"

lemma linked_clear:
  assumes "clear m v" "q < 256" "n < 256" "set ps \<subseteq> {..<256}"
  shows "clear m (linked_in m t q n ps v)" "ps \<noteq> [] \<Longrightarrow> clear m (linked_out m q ps v)"
proof -
  have "last ps < 256" if "ps \<noteq> []" using assms(4) last_in_set [OF that] by auto
  then show "clear m (linked_in m t q n ps v)" "ps \<noteq> [] \<Longrightarrow> clear m (linked_out m q ps v)"
    using assms(1-3) by (auto simp: linked_in_def linked_out_def Let_def intro!: poke_clear)
qed

lemma not_last: "k \<notin> set ps \<Longrightarrow> ps \<noteq> [] \<Longrightarrow> k \<noteq> last ps"
  by (metis last_in_set)

lemma linked_keeps:
  "memory (linked_in m t q n ps v) = memory v" "page_data (linked_in m t q n ps v) = page_data v" "vthreads (linked_in m t q n ps v) = vthreads v"
  "vrunning (linked_in m t q n ps v) = vrunning v" "page_init (linked_in m t q n ps v) = page_init v"
  "k \<notin> {q, n} \<union> set ps \<Longrightarrow> frames (linked_in m t q n ps v) ! k = frames v ! k"
  "memory (linked_out m q ps v) = memory v" "page_data (linked_out m q ps v) = page_data v" "vthreads (linked_out m q ps v) = vthreads v"
  "vrunning (linked_out m q ps v) = vrunning v" "page_init (linked_out m q ps v) = page_init v"
  "ps \<noteq> [] \<Longrightarrow> k \<notin> insert q (set ps) \<Longrightarrow> frames (linked_out m q ps v) ! k = frames v ! k"
  by (auto simp: linked_in_def linked_out_def Let_def poke_other not_last)

lemma ring2_in:
  assumes c: "clear m v" and r: "ring2 m v q ps ts" and n: "n < 256" "n \<notin> set (q # ps)" and t: "int t < 2 ^ 64"
  shows "ring2 m (linked_in m t q n ps v) q (ps @ [n]) (ts @ [t])"
proof -
  define w where "w = linked_in m t q n ps v"
  have d: "q < 256" "q \<noteq> n" "n \<noteq> q" "distinct ps" "q \<notin> set ps" "n \<notin> set ps" "set ps \<subseteq> {..<256}" "length ps = length ts"
    using r n by (auto simp: ring2_def)
  have l: "last ps < 256" "last ps \<noteq> q" "last ps \<noteq> n" "hd ps < 256" if "ps \<noteq> []"
    using d that last_in_set [OF that] hd_in_set [OF that] by (metis subsetD lessThan_iff)+
  note P = vpage_range [OF c] and W = clear_whole [OF c]
  have len: "length ps < 256" using ring2_length [OF r] d(8) by simp
  have num: "to_int ((int (length ps) + 1) mod 4294967296) = int (length ps) + 1" using len by (simp add: to_int_id)
  have f: "cnt w q = int (length ps) + 1" "fld 1 w q = vpage m n" "fld 1 w n = int t"
      "fld 9 w n = vpage m (if ps = [] then n else hd ps)" "ps \<noteq> [] \<Longrightarrow> fld 9 w (last ps) = vpage m n"
    unfolding w_def linked_in_def Let_def using W d l n(1) t P num
    by (auto simp: fld_poke poke_whole fld_other simp del: One_nat_def)
  have g: "fld 1 w k = fld 1 v k" "k \<noteq> last ps \<Longrightarrow> fld 9 w k = fld 9 v k" if k: "k \<in> set ps" for k
  proof -
    have "k \<noteq> q" "k \<noteq> n" "ps \<noteq> []" using k d by auto
    then show "fld 1 w k = fld 1 v k" "k \<noteq> last ps \<Longrightarrow> fld 9 w k = fld 9 v k"
      unfolding w_def linked_in_def Let_def using W d l n(1)
      by (simp_all add: fld_before poke_whole fld_other del: One_nat_def)
  qed
  have b: "k \<in> set ps \<and> k \<noteq> last ps" if "k \<in> set (butlast ps)" for k
    using that d(4) in_set_butlastD [OF that] by (cases ps rule: rev_cases) auto
  have "map (fld 1 w) ps = map (fld 1 v) ps" using g(1) by (intro map_cong) simp_all
  also have "\<dots> = map int ts" using r by (simp add: ring2_def)
  finally have r1: "map (fld 1 w) ps = map int ts" .
  have r9: "map (fld 9 w) ps = map (vpage m) (tl (ps @ [n]))"
  proof (cases "ps = []")
    case False
    then have "map (fld 9 w) ps = map (fld 9 w) (butlast ps) @ [fld 9 w (last ps)]" by (metis append_butlast_last_id list.simps(8,9) map_append)
    also have "map (fld 9 w) (butlast ps) = map (fld 9 v) (butlast ps)" using g(2) b by (intro map_cong) simp_all
    also have "\<dots> = map (vpage m) (tl ps)" using r False by (simp add: ring2_def)
    finally show ?thesis using f(5) False by simp
  qed simp
  have "cnt w q = int (length (ts @ [t]))" "hd (ps @ [n]) = (if ps = [] then n else hd ps)" using f(1) d(8) by simp_all
  then show ?thesis using f(2-4) r1 r9 d n(1) unfolding ring2_def w_def [symmetric] by simp
qed

lemma ring2_out:
  assumes c: "clear m v" and r: "ring2 m v q ps ts" and ne: "ts \<noteq> []"
  shows "ring2 m (linked_out m q ps v) q (tl ps) (tl ts)"
proof -
  define w where "w = linked_out m q ps v"
  obtain p xs t us where ps: "ps = p # xs" "ts = t # us" using r ne by (cases ps; cases ts) (auto simp: ring2_def)
  have d: "q < 256" "distinct (p # xs)" "q \<notin> set (p # xs)" "set (p # xs) \<subseteq> {..<256}" "length xs = length us"
    using r ps by (auto simp: ring2_def)
  have l: "last xs < 256" "last xs \<noteq> q" "last xs \<noteq> p" "hd xs < 256" "hd xs \<noteq> q" if "xs \<noteq> []"
    using d that last_in_set [OF that] hd_in_set [OF that] by (metis set_subset_Cons subsetD lessThan_iff distinct.simps(2))+
  note P = vpage_range [OF c] and W = clear_whole [OF c]
  have len: "length xs < 256" using ring2_length [OF r] ps d(5) by simp
  have num: "to_int (int (length xs) mod 4294967296) = int (length xs)" using len by (simp add: to_int_id)
  have e: "w = (if xs = [] then poke q 9 (le_bytes 4 (int (length xs))) (poke q 1 (le_bytes 8 0) v)
      else poke q 9 (le_bytes 4 (int (length xs))) (poke (last xs) 9 (le_bytes 8 (vpage m (hd xs))) v))"
    using ps by (simp add: w_def linked_out_def Let_def)
  have f: "cnt w q = int (length xs)" using W d l num unfolding e by (cases "xs = []") (simp_all add: fld_poke poke_whole to_int_id)
  have h: "fld 1 w q = fld 1 v q" "fld 9 w (last xs) = vpage m (hd xs)" if "xs \<noteq> []"
    using W d l [OF that] P that unfolding e by (simp_all add: fld_poke fld_before poke_whole fld_other del: One_nat_def)
  have g: "fld 1 w k = fld 1 v k" "k \<noteq> last xs \<Longrightarrow> fld 9 w k = fld 9 v k" if k: "k \<in> set xs" for k
  proof -
    have "k \<noteq> q" "xs \<noteq> []" using k d by auto
    then show "fld 1 w k = fld 1 v k" "k \<noteq> last xs \<Longrightarrow> fld 9 w k = fld 9 v k"
      unfolding e using W d l by (simp_all add: fld_before poke_whole fld_other del: One_nat_def)
  qed
  have b: "k \<in> set xs \<and> k \<noteq> last xs" if "k \<in> set (butlast xs)" for k
    using that d(2) in_set_butlastD [OF that] by (cases xs rule: rev_cases) auto
  have "map (fld 1 w) xs = map (fld 1 v) xs" using g(1) by (intro map_cong) simp_all
  also have "\<dots> = map int us" using r ps by (simp add: ring2_def)
  finally have r1: "map (fld 1 w) xs = map int us" .
  have r9: "map (fld 9 w) (butlast xs) = map (vpage m) (tl xs)"
  proof (cases xs)
    case (Cons y ys)
    have "map (fld 9 w) (butlast xs) = map (fld 9 v) (butlast xs)" using g(2) b by (intro map_cong) simp_all
    also have "\<dots> = map (vpage m) (tl xs)" using r ps Cons by (simp add: ring2_def)
    finally show ?thesis .
  qed simp
  have "fld 1 v q = vpage m (last xs)" if "xs \<noteq> []" using r ps that by (simp add: ring2_def)
  then have "ring2 m w q xs us" using f h r1 r9 d unfolding ring2_def by simp
  then show ?thesis by (simp add: w_def ps)
qed

section \<open>One thread that owns all pages in use\<close>

text \<open>The running thread owns the first \<open>n\<close> pages in order, all others are free.\<close>

definition solo :: "int \<Rightarrow> nat \<Rightarrow> vm \<Rightarrow> bool" where
  "solo m n v \<longleftrightarrow> clear m v \<and> vrunning v \<noteq> NULL \<and> vrunning v \<in> dom (vthreads v) \<and> n \<le> 256 \<and> free_pages v = [n..<256] \<and>
     (\<exists>L. vm_ok v L \<and> L (vrunning v) = [0..<n])"

lemma vm_ok_same:
  assumes "memory w = memory v" "page_data w = page_data v" "vthreads w = vthreads v" "page_init w = page_init v"
  shows "vm_ok w L = vm_ok v L"
  using assms by (simp add: vm_ok_def owns_def)

lemma solo_same:
  assumes "solo m n v" "clear m w" "page_data w = page_data v" "vthreads w = vthreads v" "vrunning w = vrunning v" "page_init w = page_init v"
  shows "solo m n w"
proof -
  have "free_pages w = free_pages v" using assms(3) by (simp add: free_pages_def)
  moreover have "vm_ok w L = vm_ok v L" for L by (rule vm_ok_same) (use assms in \<open>simp_all add: solo_def clear_def\<close>)
  ultimately show ?thesis using assms by (simp add: solo_def)
qed

lemma errno_keeps [simp]:
  "clear m (v\<lparr>errno := e\<rparr>) = clear m v" "fld i (v\<lparr>errno := e\<rparr>) = fld i v" "cnt (v\<lparr>errno := e\<rparr>) = cnt v"
  "poke k i bs (v\<lparr>errno := e\<rparr>) = (poke k i bs v)\<lparr>errno := e\<rparr>"
  by (simp_all add: clear_def whole_def fld_def [abs_def] cnt_def [abs_def] poke_def)

lemma errno_ring [simp]: "ring2 m (v\<lparr>errno := e\<rparr>) q ps ts = ring2 m v q ps ts"
  unfolding ring2_def errno_keeps ..

lemma solo_malloc:
  assumes s: "solo m n v" and n: "n < 256" and len: "0 < len" "len \<le> 4096"
  shows "\<exists>w. page_malloc base len v = Some (vpage m n, w) \<and> solo m (Suc n) w \<and> frames w = frames v \<and>
    vrunning w = vrunning v \<and> dom (vthreads w) = dom (vthreads v)"
proof -
  obtain L t where L: "vm_ok v L" "L (vrunning v) = [0..<n]" "vrunning v \<noteq> NULL" "vthreads v (vrunning v) = Some t"
      "free_pages v = [n..<256]" "memory v = m" "clear m v" using s by (auto simp: solo_def clear_def)
  have p1: "pages_for len = 1" "len < 8796093018112" using len by (auto simp: pages_for_def intro!: int_div_pos_eq [where r = "len - 1"])
  have "pages_for len \<le> length (free_pages v)" using p1 n L(5) by simp
  from page_malloc_law [OF L(1,3,4) len(1) p1(2) this, of base] obtain w where
    w: "page_malloc base len v = Some (m + int n * 4096 + 1, w)" "granted v L 1 w" using L(2,6) p1 by auto
  have "vm_ok w (L(vrunning v := [0..<Suc n]))" "free_pages w = [Suc n..<256]" "frames w = frames v" "vrunning w = vrunning v"
      "dom (vthreads w) = dom (vthreads v)" "memory w = memory v" "locked w = locked v"
    using w(2) L(2,5) n by (simp_all add: granted_def upt_conv_Cons)
  moreover from this have "clear m w" using L(7) vm_okD(1) by (auto simp: clear_def whole_def)
  ultimately show ?thesis using w(1) L(3,4) n by (auto simp: solo_def vpage_def)
qed

lemma solo_full:
  assumes "solo m 256 v" "0 < len" "len \<le> 4096"
  shows "page_malloc base len v = Some (0, v\<lparr>errno := ENOMEM\<rparr>)"
proof -
  obtain L where L: "vm_ok v L" "free_pages v = []" using assms(1) by (auto simp: solo_def)
  have "len < 8796093018112" "length (free_pages v) < pages_for len"
    using pages_for_law(2) [OF assms(2)] assms(3) L(2) by simp_all
  then show ?thesis by (rule page_malloc_out_of_memory [OF L(1) assms(2)])
qed

lemma solo_free:
  assumes "solo m n v"
  shows "page_free (vpage m k) v = Some (v\<lparr>errno := EINVAL\<rparr>)"
proof -
  obtain L t where L: "vm_ok v L" "vrunning v \<noteq> NULL" "vthreads v (vrunning v) = Some t" "memory v = m"
    using assms by (auto simp: solo_def clear_def)
  have "vpage m k \<noteq> memory v + int x * 4096" for x
    unfolding vpage_def L(4) by (cases "x \<le> k") linarith+
  then show ?thesis by (intro page_free_other [OF L(1-3)])
qed

section \<open>The operations\<close>

lemma ring2_fields:
  assumes "ring2 m v q ps ts"
  shows "q < 256" "q \<notin> set ps" "distinct ps" "set ps \<subseteq> {..<256}" "length ps = length ts" "cnt v q = int (length ps)"
    and "ps \<noteq> [] \<Longrightarrow> fld 1 v q = vpage m (last ps)" "ps \<noteq> [] \<Longrightarrow> fld 9 v (last ps) = vpage m (hd ps)"
    and "ps \<noteq> [] \<Longrightarrow> fld 1 v (hd ps) = int (hd ts)" "ps = x # y # zs \<Longrightarrow> fld 9 v x = vpage m y"
    and "ps \<noteq> [] \<Longrightarrow> last ps < 256 \<and> last ps \<noteq> q" "ps \<noteq> [] \<Longrightarrow> hd ps < 256 \<and> hd ps \<noteq> q"
proof -
  show d: "q < 256" "q \<notin> set ps" "distinct ps" "set ps \<subseteq> {..<256}" "length ps = length ts" "cnt v q = int (length ps)"
    and "ps \<noteq> [] \<Longrightarrow> fld 1 v q = vpage m (last ps)" "ps \<noteq> [] \<Longrightarrow> fld 9 v (last ps) = vpage m (hd ps)"
    using assms by (simp_all add: ring2_def)
  show "ps \<noteq> [] \<Longrightarrow> fld 1 v (hd ps) = int (hd ts)" using assms by (cases ps; cases ts) (simp_all add: ring2_def)
  show "ps = x # y # zs \<Longrightarrow> fld 9 v x = vpage m y" using assms by (simp add: ring2_def)
  show "ps \<noteq> [] \<Longrightarrow> last ps < 256 \<and> last ps \<noteq> q" using d(2,4) last_in_set [of ps] by (meson lessThan_iff subsetD)
  show "ps \<noteq> [] \<Longrightarrow> hd ps < 256 \<and> hd ps \<noteq> q" using d(2,4) hd_in_set [of ps] by (meson lessThan_iff subsetD)
qed

lemma enqueue2_run:
  assumes a: "page_malloc base 16 v = Some (vpage m n, v1)" and c: "clear m v1" and r: "ring2 m v1 q ps ts"
    and n: "n < 256" "n \<notin> set (q # ps)"
  shows "enqueue2 base t (vpage m q) v = Some (linked_in m t q n ps v1)"
proof -
  note R = ring2_fields [OF r] and W = clear_whole [OF c]
  have num: "cnt v1 q = int (length ps)" by (rule R)
  show ?thesis
  proof (cases "ps = []")
    case True
    then show ?thesis
      using a c n R(1) num W
      by (simp add: enqueue2_def linked_in_def Let_def access_clear poke_clear fld_other fld_poke poke_whole del: One_nat_def)
  next
    case False
    then have "last ps \<noteq> n" using n(2) not_last [of n ps] by auto
    then show ?thesis
      using False a c n R(1,2,7,8,11) num W
      by (simp add: enqueue2_def linked_in_def Let_def access_clear poke_clear fld_other fld_poke fld_before poke_whole del: One_nat_def)
  qed
qed

lemma get_next2_run:
  assumes c: "clear m v" and f: "\<And>w k. clear m w \<Longrightarrow> page_data w = page_data v \<Longrightarrow> vthreads w = vthreads v \<Longrightarrow> vrunning w = vrunning v \<Longrightarrow>
      page_init w = page_init v \<Longrightarrow> page_free (vpage m k) w = Some (w\<lparr>errno := EINVAL\<rparr>)"
    and r: "ring2 m v q ps ts" and ne: "ts \<noteq> []"
  shows "get_next2 (vpage m q) v = Some (hd ts, (linked_out m q ps v)\<lparr>errno := EINVAL\<rparr>)"
proof -
  note R = ring2_fields [OF r] and W = clear_whole [OF c]
  have ps: "ps \<noteq> []" using R(5) ne by auto
  note num = R(6) and B = R(11) [OF ps] R(12) [OF ps] and F = R(7) [OF ps] R(8) [OF ps] R(9) [OF ps]
  show ?thesis
  proof (cases "tl ps = []")
    case True
    then have one: "length ps = 1" "last ps = hd ps" using ps by (cases ps; simp)+
    then have "cnt v q = 1" using num by simp
    then show ?thesis
      using c W F B R(1) f True one
      by (simp add: get_next2_def take_only_def linked_out_def Let_def access_clear poke_clear fld_other fld_poke poke_whole del: One_nat_def)
  next
    case False
    then obtain x y zs where xs: "ps = x # y # zs" using ps by (cases ps; cases "tl ps") auto
    define z where "z = last ps"
    have l: "z \<noteq> x" "z < 256" "z \<noteq> q" "x < 256" "x \<noteq> q" "fld 1 v q = vpage m z" "fld 9 v z = vpage m x" "fld 1 v x = int (hd ts)"
        "fld 9 v x = vpage m y" "cnt v q = int (length ps)" "length ps \<noteq> 1" "length ps \<noteq> 0" "length ps = 2 \<Longrightarrow> z = y"
      using R(3) B F R(10) [OF xs] num xs by (auto simp: z_def)
    have out: "linked_out m q ps v = poke q 9 (le_bytes 4 (int (length ps) - 1)) (poke z 9 (le_bytes 8 (vpage m y)) v)"
      using xs by (simp add: linked_out_def z_def)
    note A = access_clear poke_clear fld_other fld_poke fld_before poke_whole
    show ?thesis
    proof (cases "length ps = 2")
      case True
      then show ?thesis
        using c W R(1) f l unfolding out by (simp add: get_next2_def take_front_def A del: One_nat_def)
    next
      case False
      then have "int (length ps) \<noteq> 2" by linarith
      then show ?thesis
        using c W R(1) f l unfolding out by (simp add: get_next2_def take_front_def A del: One_nat_def)
    qed
  qed
qed

lemma make_queue2_law:
  assumes s: "solo m n v" and n: "n < 256"
  shows "\<exists>w. make_queue2 base v = Some (vpage m n, w) \<and> solo m (Suc n) w \<and> ring2 m w n [] [] \<and>
    (\<forall>k. k \<noteq> n \<longrightarrow> frames w ! k = frames v ! k) \<and> vrunning w = vrunning v \<and> dom (vthreads w) = dom (vthreads v)"
proof -
  from solo_malloc [OF assms, of 16 base] obtain v1 where
    v1: "page_malloc base 16 v = Some (vpage m n, v1)" "solo m (Suc n) v1" "frames v1 = frames v" "vrunning v1 = vrunning v" "dom (vthreads v1) = dom (vthreads v)" by auto
  define w where "w = poke n 9 (le_bytes 4 0) (poke n 1 (le_bytes 8 0) v1)"
  have c: "clear m v1" "clear m w" "whole v1" using v1(2) n by (auto simp: solo_def clear_def w_def poke_whole)
  have "vpage m n \<noteq> 0" using c(1) by (simp add: clear_def vpage_def)
  then have "make_queue2 base v = Some (vpage m n, w)"
    using v1(1) c n by (simp add: make_queue2_def access_clear poke_clear w_def del: One_nat_def)
  moreover have "solo m (Suc n) w" by (rule solo_same [OF v1(2) c(2)]) (simp_all add: w_def)
  moreover have "ring2 m w n [] []" using c n by (simp add: ring2_def w_def fld_poke poke_whole to_int_id)
  ultimately show ?thesis using v1 by (auto simp: w_def poke_other)
qed

lemma enqueue2_law:
  assumes s: "solo m n v" and r: "ring2 m v q ps ts" "set (q # ps) \<subseteq> {..<n}" and n: "n < 256" and t: "int t < 2 ^ 64"
  shows "\<exists>w. enqueue2 base t (vpage m q) v = Some w \<and> solo m (Suc n) w \<and> ring2 m w q (ps @ [n]) (ts @ [t]) \<and>
    (\<forall>k. k \<notin> {q, n} \<union> set ps \<longrightarrow> frames w ! k = frames v ! k) \<and> vrunning w = vrunning v \<and> dom (vthreads w) = dom (vthreads v)"
proof -
  from solo_malloc [OF s n, of 16 base] obtain v1 where
    v1: "page_malloc base 16 v = Some (vpage m n, v1)" "solo m (Suc n) v1" "frames v1 = frames v" "vrunning v1 = vrunning v" "dom (vthreads v1) = dom (vthreads v)" by auto
  define w where "w = linked_in m t q n ps v1"
  have c: "clear m v1" using v1(2) by (simp add: solo_def)
  have r1: "ring2 m v1 q ps ts" by (rule ring2_frame [OF r(1)]) (simp add: v1(3))
  have nn: "n \<notin> set (q # ps)" using r(2) by auto
  have cw: "clear m w" unfolding w_def by (rule linked_clear(1) [OF c]) (use ring2_fields(1,4) [OF r(1)] n in simp_all)
  have "solo m (Suc n) w" by (rule solo_same [OF v1(2) cw]) (simp_all add: w_def linked_keeps)
  moreover have "ring2 m w q (ps @ [n]) (ts @ [t])" unfolding w_def by (rule ring2_in [OF c r1 n nn t])
  ultimately show ?thesis
    using enqueue2_run [OF v1(1) c r1 n nn] v1(3-5) by (auto simp: w_def linked_keeps)
qed

text \<open>With no page left the code stores through the null pointer.\<close>

lemma enqueue2_full:
  assumes "solo m 256 v"
  shows "enqueue2 base t Q v = None"
proof -
  have c: "locked v = {}" "0 < memory v" using assms by (auto simp: solo_def clear_def)
  then have "frame_no 0 (v\<lparr>errno := ENOMEM\<rparr>) < 0" by (simp add: frame_no_def)
  then have "put_ptr 0 (int t) (v\<lparr>errno := ENOMEM\<rparr>) = None"
    using c by (simp add: put_ptr_def store_def touch_clear arr_get_def)
  then show ?thesis by (simp add: enqueue2_def solo_full [OF assms])
qed

lemma get_next2_law:
  assumes s: "solo m n v" and r: "ring2 m v q ps ts"
  shows "\<exists>w. get_next2 (vpage m q) v = Some ((case ts of [] \<Rightarrow> NULL | t # _ \<Rightarrow> t), w) \<and> solo m n w \<and> ring2 m w q (tl ps) (tl ts) \<and>
    (\<forall>k. k \<notin> insert q (set ps) \<longrightarrow> frames w ! k = frames v ! k) \<and> vrunning w = vrunning v \<and> vthreads w = vthreads v"
proof (cases ts)
  case Nil
  then have "ps = []" "cnt v q = 0" "q < 256" "clear m v" using r s by (auto simp: ring2_def solo_def)
  then show ?thesis using r s Nil by (simp add: get_next2_def access_clear)
next
  case (Cons t us)
  have c: "clear m v" using s by (simp add: solo_def)
  define w where "w = (linked_out m q ps v)\<lparr>errno := EINVAL\<rparr>"
  have ps: "ps \<noteq> []" using r Cons by (auto simp: ring2_def)
  have pf: "page_free (vpage m k) x = Some (x\<lparr>errno := EINVAL\<rparr>)" if "clear m x" "page_data x = page_data v" "vthreads x = vthreads v"
      "vrunning x = vrunning v" "page_init x = page_init v" for x k
    by (rule solo_free [OF solo_same [OF s that]])
  have "ts \<noteq> []" using Cons by simp
  from get_next2_run [OF c pf r this] have "get_next2 (vpage m q) v = Some (t, w)" unfolding w_def Cons list.sel(1) .
  moreover have cw: "clear m w" unfolding w_def using linked_clear(2) [OF c] ring2_fields(1,4) [OF r] ps by simp
  moreover have "solo m n w" by (rule solo_same [OF s cw]) (simp_all add: w_def linked_keeps)
  moreover have "ring2 m w q (tl ps) (tl ts)" unfolding w_def using ring2_out [OF c r] Cons by simp
  ultimately show ?thesis using Cons ps by (auto simp: w_def linked_keeps)
qed

section \<open>Sequences of operations\<close>

text \<open>The queue in page \<open>q\<close> as a bounded queue: the free pages are its room, and taking gives nothing back.\<close>

definition holds2 :: "int \<Rightarrow> nat \<Rightarrow> vm \<Rightarrow> addr list \<Rightarrow> bool" where
  "holds2 m q v ts \<longleftrightarrow> (\<exists>n ps. solo m n v \<and> ring2 m v q ps ts \<and> set (q # ps) \<subseteq> {..<n})"

lemma solo_room: "solo m n v \<Longrightarrow> length (free_pages v) = 256 - n \<and> n \<le> 256"
  by (simp add: solo_def)

interpretation paged_queue: fifo_store "holds2 m q" "\<lambda>v. length (free_pages v)" "\<lambda>t. enqueue2 base t (vpage m q)"
    "get_next2 (vpage m q)" 0 "{t. int t < 2 ^ 64}" for m q base
proof unfold_locales
  fix v ts t
  assume h: "holds2 m q v ts"
  then obtain n ps where r: "solo m n v" "ring2 m v q ps ts" "set (q # ps) \<subseteq> {..<n}" unfolding holds2_def by blast
  show "length (free_pages v) = 0 \<Longrightarrow> enqueue2 base t (vpage m q) v = None"
    using r(1) enqueue2_full [of m v] solo_room [OF r(1)] by simp
  assume "0 < length (free_pages v)" "t \<in> {t. int t < 2 ^ 64}"
  then have n: "n < 256" "int t < 2 ^ 64" using solo_room [OF r(1)] by simp_all
  from enqueue2_law [OF r n, of base] obtain w where
    w: "enqueue2 base t (vpage m q) v = Some w" "solo m (Suc n) w" "ring2 m w q (ps @ [n]) (ts @ [t])" by blast
  moreover have "set (q # ps @ [n]) \<subseteq> {..<Suc n}" using r(3) by auto
  ultimately show "\<exists>w. enqueue2 base t (vpage m q) v = Some w \<and> holds2 m q w (ts @ [t]) \<and> Suc (length (free_pages w)) = length (free_pages v)"
    using n(1) solo_room [OF r(1)] solo_room [OF w(2)] unfolding holds2_def by fastforce
next
  have step: "\<exists>w. get_next2 (vpage m q) v = Some ((case ts of [] \<Rightarrow> NULL | t # _ \<Rightarrow> t), w) \<and> holds2 m q w (tl ts) \<and> length (free_pages w) = length (free_pages v)"
    if "holds2 m q v ts" for v ts
  proof -
    from that obtain n ps where r: "solo m n v" "ring2 m v q ps ts" "set (q # ps) \<subseteq> {..<n}" unfolding holds2_def by blast
    from get_next2_law [OF r(1,2)] obtain w where
      w: "get_next2 (vpage m q) v = Some ((case ts of [] \<Rightarrow> NULL | t # _ \<Rightarrow> t), w)" "solo m n w" "ring2 m w q (tl ps) (tl ts)" by blast
    moreover have "set (q # tl ps) \<subseteq> {..<n}" using r(3) by (cases ps) auto
    ultimately show ?thesis using solo_room [OF r(1)] solo_room [OF w(2)] unfolding holds2_def by auto
  qed
  fix v
  show "\<exists>w. get_next2 (vpage m q) v = Some (NULL, w) \<and> holds2 m q w [] \<and> length (free_pages w) = length (free_pages v)" if "holds2 m q v []"
    using step [OF that] by simp
  show "\<exists>w. get_next2 (vpage m q) v = Some (t, w) \<and> holds2 m q w ts \<and> length (free_pages w) = length (free_pages v) + 0"
    if "holds2 m q v (t # ts)" for t ts
    using step [OF that] by simp
qed

text \<open>
  Claim C16. The queue of asst2 refines a FIFO list for as long as there are pages: of a new queue in the pages of the
  running thread every sequence of operations returns what the list returns; but every \<open>enqueue\<close> takes a page of its
  own and \<open>get_next\<close> frees none, so the program stops in the first \<open>enqueue\<close> for which no page is left, however
  short the queue is.
\<close>

theorem paged_queue_refines_fifo:
  assumes "solo m n v" "n < 256" "enqueued ops \<subseteq> {t. int t < 2 ^ 64}"
  shows "\<exists>w. make_queue2 base v = Some (vpage m n, w) \<and>
    map_option fst (run_queue (\<lambda>t. enqueue2 base t (vpage m n)) (get_next2 (vpage m n)) ops w) = fifo_run 0 (255 - n) ops [] \<and>
    (run_queue (\<lambda>t. enqueue2 base t (vpage m n)) (get_next2 (vpage m n)) ops w = None \<longleftrightarrow> 255 - n < puts ops)"
proof -
  from make_queue2_law [OF assms(1,2), of base] obtain w where
    w: "make_queue2 base v = Some (vpage m n, w)" "solo m (Suc n) w" "ring2 m w n [] []" by auto
  then have "holds2 m n w []" unfolding holds2_def by (intro exI [of _ "Suc n"] exI [of _ "[]"]) simp
  from paged_queue.run_law [OF this assms(3), of base]
  have "map_option fst (run_queue (\<lambda>t. enqueue2 base t (vpage m n)) (get_next2 (vpage m n)) ops w) = fifo_run 0 (255 - n) ops []"
    using solo_room [OF w(2)] by simp
  with w(1) fifo_run_dry [of "255 - n" ops "[]"] show ?thesis by (metis (no_types, lifting) option.map_disc_iff)
qed

end
