(* ===== verification/Paged_Faults.thy ===== *)
theory Paged_Faults
  imports Paged_Queue
begin

text \<open>
  What the paged memory of asst2 is for: a thread finds its data again, whatever other threads did. A store and a
  load by the running thread, with the faults they cause, and two threads that use the same address in turn.
\<close>

section \<open>Own pages\<close>

lemma own_place:
  assumes ok: "vm_ok v L" and t: "vthreads v a = Some t" and j: "j < length (L a)"
  shows "j < 256" "L a ! j < 256"
proof -
  note O = ownsD [OF vm_okD(4) [OF ok t] t]
  have sub: "set (L a) \<subseteq> {..<256}" using dlist_in [OF O(4)] vm_okD(2) [OF ok] by auto
  then show "L a ! j < 256" using j nth_mem by blast
  have "length (L a) \<le> 256" using card_mono [OF _ sub] distinct_card [OF O(3)] by simp
  then show "j < 256" using j by simp
qed

text \<open>The state after the running thread has reached place \<open>j\<close>, where its page \<open>x\<close> belongs.\<close>

definition swapped :: "nat \<Rightarrow> nat \<Rightarrow> vm \<Rightarrow> vm" where
  "swapped j x v = v\<lparr>frames := (frames v)[j := frames v ! x, x := frames v ! j], locked := insert x (locked v - {j})\<rparr>"

definition reached :: "nat \<Rightarrow> nat \<Rightarrow> vm \<Rightarrow> vm" where
  "reached j x v = (if j \<in> locked v then swapped j x v else v)"

lemma swapped_whole: "whole v \<Longrightarrow> j < 256 \<Longrightarrow> x < 256 \<Longrightarrow> whole (swapped j x v)"
  by (auto simp: whole_def swapped_def in_set_conv_nth nth_list_update)

lemma touch_reaches:
  assumes ok: "vm_ok v L" and run: "vrunning v \<noteq> NULL" "vthreads v (vrunning v) = Some t" and w: "whole v"
    and j: "j < length (L (vrunning v))" and x: "x = L (vrunning v) ! j" and i: "i < 4096" and acc: "j \<notin> locked v \<or> x \<notin> locked v"
  shows "touch (memory v + int j * 4096 + int i) v = Some (reached j x v)" "open_at j (reached j x v)"
proof -
  let ?a = "memory v + int j * 4096 + int i"
  have b: "j < 256" "x < 256" using own_place [OF ok run(2) j] x by simp_all
  have f: "frame_no ?a v = int j" "frame_no ?a (swapped j x v) = int j"
    using frame_at(1) [OF i, of v j] frame_at(1) [OF i, of "swapped j x v" j] by (simp_all add: swapped_def)
  have "touch ?a v = Some (reached j x v) \<and> open_at j (reached j x v)"
  proof (cases "j \<in> locked v")
    case False
    then show ?thesis using touch_free [of ?a v] f b w vm_okD(1) [OF ok] by (simp add: reached_def open_at_def)
  next
    case True
    then have "vmem_sig_handler ?a v = Some (swapped j x v)"
      unfolding swapped_def using fault_law [OF ok run _ j _ _ x] w i acc by (simp add: whole_def)
    moreover have "nat (frame_no ?a (swapped j x v)) \<notin> locked (swapped j x v)" using True acc f by (auto simp: swapped_def)
    ultimately have "touch ?a v = Some (swapped j x v)" using True f touch_free by (subst touch.simps) simp
    moreover have "page_init (swapped j x v) = page_init v" by (simp add: swapped_def)
    ultimately show ?thesis
      using True acc b swapped_whole [OF w b] vm_okD(1) [OF ok] by (auto simp: reached_def open_at_def) (auto simp: swapped_def)
  qed
  then show "touch ?a v = Some (reached j x v)" "open_at j (reached j x v)" by simp_all
qed

lemma store_reaches:
  assumes ok: "vm_ok v L" and run: "vrunning v \<noteq> NULL" "vthreads v (vrunning v) = Some t" and w: "whole v"
    and j: "j < length (L (vrunning v))" and x: "x = L (vrunning v) ! j" and i: "i + length bs \<le> 4096" "bs \<noteq> []"
    and acc: "j \<notin> locked v \<or> x \<notin> locked v"
  shows "store (memory v + int j * 4096 + int i) bs v = Some (poke j i bs (reached j x v))"
    and "open_at j (poke j i bs (reached j x v))"
    and "take (length bs) (drop i (frames (poke j i bs (reached j x v)) ! j)) = bs"
proof -
  let ?a = "memory v + int j * 4096 + int i"
  have i2: "i < 4096" using i by (cases bs) simp_all
  note T = touch_reaches [OF ok run w j x i2 acc]
  define u where "u = reached j x v"
  have m: "memory u = memory v" by (simp add: u_def reached_def swapped_def)
  have o: "open_at j u" using T(2) by (simp add: u_def)
  have "store ?a bs v = store ?a bs u"
    using T(1) touch_free [of ?a u] frame_at(1) [OF i2, of u j] o m by (simp add: store_def u_def [symmetric] open_at_def)
  also have "\<dots> = Some (poke j i bs u)" using store_at [OF o i] m by simp
  finally show "store ?a bs v = Some (poke j i bs (reached j x v))" by (simp add: u_def)
  have b: "whole u" "j < 256" using o by (simp_all add: open_at_def)
  show "open_at j (poke j i bs (reached j x v))" using o poke_whole [OF b i(1)] by (simp add: open_at_def u_def)
  show "take (length bs) (drop i (frames (poke j i bs (reached j x v)) ! j)) = bs" using poke_same(1) [OF b i(1)] by (simp add: u_def)
qed

text \<open>A page locked although its thread is running: the handler changes nothing and the access faults for ever.\<close>

lemma touch_stuck:
  assumes "nat (frame_no a v) \<in> locked v" "vmem_sig_handler a v = Some v"
  shows "touch a v = None"
proof (rule ccontr)
  assume "touch a v \<noteq> None"
  then obtain r where "touch a v = Some r" by auto
  then have "\<not> (a = a \<and> v = v)"
    by (rule touch.raw_induct [where P = "\<lambda>b w r. \<not> (b = a \<and> w = v)", rotated]) (use assms in \<open>auto simp: bind_eq_Some_conv split: if_splits\<close>)
  then show False by simp
qed


section \<open>Two threads in turn\<close>

text \<open>
  Thread \<open>a\<close> stores \<open>bs\<close> at \<open>p\<close>; the scheduler changes to thread \<open>b\<close>, which gets a page and stores \<open>cs\<close> at the address
  returned; the scheduler changes back and thread \<open>a\<close> loads from \<open>p\<close>.
\<close>

definition take_turns :: "int \<Rightarrow> addr \<Rightarrow> addr \<Rightarrow> int \<Rightarrow> string \<Rightarrow> string \<Rightarrow> vm \<Rightarrow> (string \<times> vm) option" where
  "take_turns base a b p bs cs v = do {
     v \<leftarrow> store p bs v;
     v \<leftarrow> switch_pages a b v;
     (q, v) \<leftarrow> page_malloc base 4000 (v\<lparr>vrunning := b\<rparr>);
     v \<leftarrow> store q cs v;
     v \<leftarrow> switch_pages b a v;
     load p (length bs) (v\<lparr>vrunning := a\<rparr>) }"

lemma solo_others:
  assumes "vm_ok v L" "L r = [0..<n]" "free_pages v = [n..<256]" "vthreads v r = Some t" "vthreads v b = Some u" "b \<noteq> r"
  shows "L b = []"
proof -
  note O = ownsD [OF vm_okD(4) [OF assms(1,5)] assms(5)]
  have "x \<in> set (L r)" if "x \<in> set (L b)" for x
    using O(5) [OF that] dlist_in [OF O(4) that] vm_okD(2) [OF assms(1)] free_pages_in [of x v] assms(2,3) by auto
  then show ?thesis using vm_okD(5) [OF assms(1,4,5)] assms(6) by (cases "L b") auto
qed

lemma first_turn:
  assumes s: "solo m 1 v" and b: "b \<noteq> vrunning v" "b \<noteq> NULL" "b \<in> dom (vthreads v)" and len: "bs \<noteq> []" "length bs < 4096"
  shows "\<exists>v1 v2 w L t u. store (vpage m 0) bs v = Some v1 \<and> switch_pages (vrunning v) b v1 = Some v2 \<and> w = v2\<lparr>vrunning := b\<rparr> \<and>
    vm_ok w L \<and> L (vrunning v) = [0] \<and> L b = [] \<and> vthreads w (vrunning v) = Some t \<and> vthreads w b = Some u \<and>
    free_pages w = [1..<256] \<and> memory w = m \<and> locked w = {0} \<and> whole w"
proof -
  define a where "a = vrunning v"
  obtain L ta tb where L: "vm_ok v L" "L a = [0]" "vthreads v a = Some ta" "vthreads v b = Some tb"
      "free_pages v = [1..<256]" "memory v = m" "clear m v" using s b(3) by (auto simp: solo_def clear_def a_def)
  have Lb: "L b = []" using solo_others [OF L(1) _ L(5,3,4)] L(2) b(1) by (simp add: a_def)
  have p0: "vpage m 0 = m + int 0 * 4096 + int 1" by (simp add: vpage_def)
  have l: "1 + length bs \<le> 4096" using len(2) by simp
  define v1 where "v1 = poke 0 1 bs v"
  have st: "store (vpage m 0) bs v = Some v1"
    using store_at [OF clear_open [OF L(7), of 0] l len(1)] L(6) unfolding p0 v1_def by simp
  have ok1: "vm_ok v1 L" using L(1) vm_ok_same [of v1 v L] by (simp add: v1_def)
  have w1: "locked v1 = {}" "whole v1" using L(7) l poke_whole [of v 0 1 bs] by (simp_all add: v1_def clear_def)
  define v2 where "v2 = v1\<lparr>locked := {0}\<rparr>"
  have sw: "switch_pages a b v1 = Some v2"
    using switch_protects [OF ok1, of a ta b tb] L(2-4) Lb b(2) w1(1) by (simp add: v1_def v2_def)
  define w where "w = v2\<lparr>vrunning := b\<rparr>"
  have d: "page_data w = page_data v" "vthreads w = vthreads v" "memory w = memory v" "page_init w = page_init v"
      "frames w = frames v1" "locked w = {0}"
    by (simp_all add: w_def v2_def v1_def)
  have "vm_ok w L" using L(1) vm_ok_same [OF d(3,1,2,4)] by simp
  moreover have "free_pages w = [1..<256]" using L(5) d(1) by (simp add: free_pages_def)
  moreover have "whole w" using w1(2) d(5) by (simp add: whole_def)
  ultimately show ?thesis
    using st sw L(2-4,6) Lb d(2,3,6) w_def unfolding a_def by metis
qed

lemma second_turn:
  assumes w: "vm_ok w L" "L a = [0]" "L b = []" "vthreads w a = Some t" "vthreads w b = Some u" "free_pages w = [1..<256]"
      "memory w = m" "locked w = {0}" "whole w" "vrunning w = b" and b: "b \<noteq> NULL" "a \<noteq> NULL" "a \<noteq> b"
    and len: "cs \<noteq> []" "length cs < 4096"
  shows "\<exists>x y z. page_malloc base 4000 w = Some (vpage m 0, x) \<and> store (vpage m 0) cs x = Some y \<and> switch_pages b a y = Some z \<and>
    load (vpage m 0) (length cs) (z\<lparr>vrunning := a\<rparr>) = Some (cs, z\<lparr>vrunning := a\<rparr>)"
proof -
  have p0: "vpage m 0 = m + int 0 * 4096 + int 1" by (simp add: vpage_def)
  have l: "1 + length cs \<le> 4096" using len(2) by simp
  have "pages_for 4000 = 1" by (simp add: pages_for_def)
  then have "\<exists>x. page_malloc base 4000 w = Some (vpage m 0, x) \<and> granted w L 1 x"
    using page_malloc_law [OF w(1), of u 4000 base] w(3,5-7,10) b(1) by (simp add: vpage_def del: One_nat_def)
  then obtain x where x: "page_malloc base 4000 w = Some (vpage m 0, x)" "granted w L 1 x" by blast
  have "take 1 (free_pages w) = [1]" unfolding w(6) by (simp add: upt_conv_Cons)
  with x(2) have g: "vm_ok x (L(b := [1]))" "vrunning x = b" "memory x = m" "frames x = frames w" "locked x = {0}"
      "dom (vthreads x) = dom (vthreads w)"
    unfolding granted_def w(3,7,8,10) by simp_all
  then obtain u' t' where th: "vthreads x b = Some u'" "vthreads x a = Some t'" using w(4,5) by (metis domD domI)
  have ww: "whole x" using w(9) g(4) by (simp add: whole_def)
  define y where "y = poke 0 1 cs (reached 0 1 x)"
  have y: "store (vpage m 0) cs x = Some y" "open_at 0 y" "take (length cs) (drop 1 (frames y ! 0)) = cs"
    using store_reaches [OF g(1), of u' 0 1 1 cs] g(2,3,5) th(1) ww b(1) l len(1) unfolding p0 by (simp_all add: y_def)
  have keeps: "vthreads y = vthreads x" "page_data y = page_data x" "memory y = m" "page_init y = page_init x" "locked y = {1}"
    using g(3,5) by (simp_all add: y_def reached_def swapped_def)
  have "vm_ok y (L(b := [1]))" using g(1,3) vm_ok_same [of y x "L(b := [1])"] keeps by simp
  then have sw: "switch_pages b a y = Some (y\<lparr>locked := {1}\<rparr>)"
    using switch_protects [of y "L(b := [1])" b u' a t'] th keeps(1,5) w(2) b(2,3) by simp
  let ?z = "y\<lparr>locked := {1}, vrunning := a\<rparr>"
  have "open_at 0 ?z" using y(2) by (simp add: open_at_def whole_def)
  from load_at [OF this, of 1 "length cs"] have "load (vpage m 0) (length cs) ?z = Some (cs, ?z)"
    using y(3) keeps(3) l len(1) unfolding p0 by simp
  moreover have "(y\<lparr>locked := {1}\<rparr>)\<lparr>vrunning := a\<rparr> = ?z" by simp
  ultimately show ?thesis using x(1) y(1) sw by metis
qed

text \<open>
  Claim C18. Threads do not keep their data apart. When two threads use their first page in turn, the first one finds what
  the second one stored: the signal handler exchanged the bytes of the two places but left the metadata as it
  was, so the change back unlocks the place that holds the bytes of the other thread.
\<close>

theorem pages_not_separate:
  assumes s: "solo m 1 v" and b: "b \<noteq> vrunning v" "b \<noteq> NULL" "b \<in> dom (vthreads v)"
    and len: "bs \<noteq> []" "length bs < 4096" "length cs = length bs"
  shows "map_option fst (take_turns base (vrunning v) b (vpage m 0) bs cs v) = Some cs"
proof -
  have a: "vrunning v \<noteq> NULL" using s by (simp add: solo_def)
  have cs: "cs \<noteq> []" "length cs < 4096" using len by auto
  from first_turn [OF s b len(1,2)] obtain v1 v2 w L t u where
    f: "store (vpage m 0) bs v = Some v1" "switch_pages (vrunning v) b v1 = Some v2" "w = v2\<lparr>vrunning := b\<rparr>" and
    w: "vm_ok w L" "L (vrunning v) = [0]" "L b = []" "vthreads w (vrunning v) = Some t" "vthreads w b = Some u"
      "free_pages w = [1..<256]" "memory w = m" "locked w = {0}" "whole w" by (elim exE conjE) rule
  have "vrunning w = b" unfolding f(3) by simp
  from second_turn [OF w this b(2) a b(1) [symmetric] cs, of base] obtain x y z where
    g: "page_malloc base 4000 w = Some (vpage m 0, x)" "store (vpage m 0) cs x = Some y" "switch_pages b (vrunning v) y = Some z"
      "load (vpage m 0) (length cs) (z\<lparr>vrunning := vrunning v\<rparr>) = Some (cs, z\<lparr>vrunning := vrunning v\<rparr>)" by blast
  show ?thesis using f(1,2) g(1) [unfolded f(3)] g(2-4) len(3) by (simp add: take_turns_def)
qed

end
