(* ===== verification/Paged_Dispatch.thy ===== *)
theory Paged_Dispatch
  imports Paged_Sched Paged_Faults
begin

text \<open>
  The scheduler of asst2 in the state its initialisation is meant to set up: all queues and timer structs in
  pages of the running thread. What yielding does there.
\<close>

section \<open>The ready queues\<close>

definition ring_pages :: "nat list \<Rightarrow> nat list list \<Rightarrow> nat \<Rightarrow> nat set" where
  "ring_pages qs pss i = set (qs ! i # pss ! i)"

definition rings2 :: "int \<Rightarrow> nat \<Rightarrow> vm \<Rightarrow> nat list \<Rightarrow> nat list list \<Rightarrow> addr list list \<Rightarrow> bool" where
  "rings2 m n v qs pss rs \<longleftrightarrow> solo m n v \<and> length qs = 5 \<and> length pss = 5 \<and> length rs = 5 \<and>
     (\<forall>i < 5. ring2 m v (qs ! i) (pss ! i) (rs ! i) \<and> ring_pages qs pss i \<subseteq> {..<n}) \<and>
     (\<forall>i < 5. \<forall>j < 5. i \<noteq> j \<longrightarrow> ring_pages qs pss i \<inter> ring_pages qs pss j = {})"

lemma rings2D:
  assumes "rings2 m n v qs pss rs"
  shows "solo m n v" "length qs = 5" "length pss = 5" "length rs = 5"
    and "i < 5 \<Longrightarrow> ring2 m v (qs ! i) (pss ! i) (rs ! i)" "i < 5 \<Longrightarrow> ring_pages qs pss i \<subseteq> {..<n}"
    and "i < 5 \<Longrightarrow> j < 5 \<Longrightarrow> i \<noteq> j \<Longrightarrow> ring_pages qs pss i \<inter> ring_pages qs pss j = {}"
  using assms by (simp_all add: rings2_def)

text \<open>A step that rewrites ring \<open>p\<close> and perhaps new pages leaves the other rings as they were.\<close>

lemma rings2_step:
  assumes r: "rings2 m n v qs pss rs" and p: "p < 5" and s: "solo m n' w" "n \<le> n'"
    and ring: "ring2 m w (qs ! p) ps ts" and new: "set ps \<subseteq> ring_pages qs pss p \<union> {n..<n'}"
    and fr: "\<And>k. k < n \<Longrightarrow> k \<notin> ring_pages qs pss p \<Longrightarrow> frames w ! k = frames v ! k"
  shows "rings2 m n' w qs (pss[p := ps]) (rs[p := ts])"
proof -
  note R = rings2D [OF r]
  have pg: "ring_pages qs (pss[p := ps]) i = (if i = p then insert (qs ! p) (set ps) else ring_pages qs pss i)" if "i < 5" for i
    using that R(3) by (simp add: ring_pages_def nth_list_update)
  have sub: "insert (qs ! p) (set ps) \<subseteq> ring_pages qs pss p \<union> {n..<n'}" using new by (simp add: ring_pages_def)
  have dis: "ring_pages qs pss i \<inter> insert (qs ! p) (set ps) = {}" if i: "i < 5" "i \<noteq> p" for i
  proof -
    have "ring_pages qs pss i \<inter> ring_pages qs pss p = {}" "ring_pages qs pss i \<inter> {n..<n'} = {}"
      using R(7) [OF i(1) p i(2)] R(6) [OF i(1)] by auto
    then show ?thesis using sub by blast
  qed
  have other: "ring2 m w (qs ! i) (pss ! i) (rs ! i)" if i: "i < 5" "i \<noteq> p" for i
  proof (rule ring2_frame [OF R(5) [OF i(1)]])
    show "frames w ! k = frames v ! k" if "k \<in> set (qs ! i # pss ! i)" for k
    proof (rule fr)
      have "k \<in> ring_pages qs pss i" using that by (simp add: ring_pages_def)
      then show "k < n" "k \<notin> ring_pages qs pss p" using R(6) [OF i(1)] R(7) [OF i(1) p i(2)] by auto
    qed
  qed
  have "ring2 m w (qs ! i) (pss[p := ps] ! i) (rs[p := ts] ! i)" if "i < 5" for i
    using other ring that R(3,4) by (cases "i = p") simp_all
  moreover have "ring_pages qs (pss[p := ps]) i \<subseteq> {..<n'}" if i: "i < 5" for i
  proof (cases "i = p")
    case True
    have "ring_pages qs pss p \<union> {n..<n'} \<subseteq> {..<n'}" using R(6) [OF p] s(2) by auto
    with sub show ?thesis unfolding pg [OF i] using True by auto
  next
    case False
    with R(6) [OF i] s(2) show ?thesis unfolding pg [OF i] by auto
  qed
  moreover have "ring_pages qs (pss[p := ps]) i \<inter> ring_pages qs (pss[p := ps]) j = {}" if ij: "i < 5" "j < 5" "i \<noteq> j" for i j
    using dis [OF ij(1)] dis [OF ij(2)] R(7) [OF ij] ij(3) unfolding pg [OF ij(1)] pg [OF ij(2)] by (cases "i = p"; cases "j = p") auto
  ultimately show ?thesis using s(1) R(2-4) by (simp add: rings2_def)
qed

lemma rings2_enqueue:
  assumes r: "rings2 m n v qs pss rs" and p: "p < 5" and n: "n < 256" and t: "int t < 2 ^ 64"
  shows "\<exists>w. enqueue2 base t (vpage m (qs ! p)) v = Some w \<and> rings2 m (Suc n) w qs (pss[p := pss ! p @ [n]]) (rs[p := rs ! p @ [t]]) \<and>
    (\<forall>k < n. (\<forall>i < 5. k \<notin> ring_pages qs pss i) \<longrightarrow> frames w ! k = frames v ! k) \<and> vrunning w = vrunning v \<and> dom (vthreads w) = dom (vthreads v)"
proof -
  note R = rings2D [OF r]
  have sub: "set (qs ! p # pss ! p) \<subseteq> {..<n}" using R(6) [OF p] by (simp add: ring_pages_def)
  from enqueue2_law [OF R(1) R(5) [OF p] sub n t, of base] obtain w where
    w: "enqueue2 base t (vpage m (qs ! p)) v = Some w" "solo m (Suc n) w" "ring2 m w (qs ! p) (pss ! p @ [n]) (rs ! p @ [t])"
      "\<And>k. k \<notin> {qs ! p, n} \<union> set (pss ! p) \<Longrightarrow> frames w ! k = frames v ! k" "vrunning w = vrunning v" "dom (vthreads w) = dom (vthreads v)" by auto
  have fr: "frames w ! k = frames v ! k" if "k < n" "k \<notin> ring_pages qs pss p" for k
    using that w(4) [of k] by (simp add: ring_pages_def)
  have "rings2 m (Suc n) w qs (pss[p := pss ! p @ [n]]) (rs[p := rs ! p @ [t]])"
    by (rule rings2_step [OF r p w(2) _ w(3) _ fr]) (auto simp: ring_pages_def)
  then show ?thesis using w(1,5,6) fr p by blast
qed

lemma rings2_get_next:
  assumes r: "rings2 m n v qs pss rs" and p: "p < 5"
  shows "\<exists>w pss'. get_next2 (vpage m (qs ! p)) v = Some ((case rs ! p of [] \<Rightarrow> NULL | t # _ \<Rightarrow> t), w) \<and> rings2 m n w qs pss' (rs[p := tl (rs ! p)]) \<and>
    (\<forall>k < n. (\<forall>i < 5. k \<notin> ring_pages qs pss i) \<longrightarrow> frames w ! k = frames v ! k) \<and> vrunning w = vrunning v \<and> vthreads w = vthreads v"
proof -
  note R = rings2D [OF r]
  from get_next2_law [OF R(1) R(5) [OF p]] obtain w where
    w: "get_next2 (vpage m (qs ! p)) v = Some ((case rs ! p of [] \<Rightarrow> NULL | t # _ \<Rightarrow> t), w)" "solo m n w"
      "ring2 m w (qs ! p) (tl (pss ! p)) (tl (rs ! p))" "\<And>k. k \<notin> insert (qs ! p) (set (pss ! p)) \<Longrightarrow> frames w ! k = frames v ! k"
      "vrunning w = vrunning v" "vthreads w = vthreads v" by auto
  have fr: "frames w ! k = frames v ! k" if "k < n" "k \<notin> ring_pages qs pss p" for k
    using that w(4) [of k] by (simp add: ring_pages_def)
  have "set (tl (pss ! p)) \<subseteq> set (pss ! p)" by (cases "pss ! p") auto
  then have "rings2 m n w qs (pss[p := tl (pss ! p)]) (rs[p := tl (rs ! p)])"
    by (intro rings2_step [OF r p w(2) _ w(3) _ fr]) (auto simp: ring_pages_def)
  then show ?thesis using w(1,5,6) fr p by blast
qed

section \<open>The timer\<close>

lemma read_itimer_at:
  assumes "memory v = m"
  shows "read_itimer (vpage m k) v = \<lparr>iv_sec = le_val (take 8 (drop 1 (frames v ! k))), iv_usec = le_val (take 8 (drop 9 (frames v ! k))),
      v_sec = le_val (take 8 (drop 17 (frames v ! k))), v_usec = le_val (take 8 (drop 25 (frames v ! k)))\<rparr>"
  using frame_at [of 1 v k] assms by (simp add: read_itimer_def vpage_def Let_def)

lemma read_itimer_cong:
  "memory v = m \<Longrightarrow> memory w = m \<Longrightarrow> frames w ! k = frames v ! k \<Longrightarrow> read_itimer (vpage m k) w = read_itimer (vpage m k) v"
  by (simp add: read_itimer_at)

lemma copy_at:
  assumes "memory v = m" "page_init v \<noteq> 0" "whole v" "k < 256"
  shows "copy_ok (vpage m k) 32 v \<longleftrightarrow> k \<notin> locked v"
  using frame_at [of 1 v k] assms frame_length [OF assms(3,4)] by (simp add: copy_ok_def vpage_def whole_def)

lemma write_itimer_at:
  assumes "memory v = m"
  shows "write_itimer (vpage m k) t v = poke k 1 (itimer_bytes t) v"
  using frame_at [of 1 v k] assms by (simp add: write_itimer_def vpage_def Let_def poke_def itimer_bytes_def)

text \<open>The structs \<open>pause\<close>, \<open>cont\<close> and \<open>timer\<close> in the pages \<open>kp\<close>, \<open>kc\<close> and \<open>kt\<close>, apart from the queues.\<close>

definition quantum :: itimerval where
  "quantum = \<lparr>iv_sec = 0, iv_usec = 25, v_sec = 0, v_usec = 25\<rparr>"

definition clocks2 :: "int \<Rightarrow> nat \<Rightarrow> lib2 \<Rightarrow> nat list \<Rightarrow> nat list list \<Rightarrow> nat \<Rightarrow> nat \<Rightarrow> nat \<Rightarrow> bool" where
  "clocks2 m n l qs pss kp kc kt \<longleftrightarrow> pause2 l = vpage m kp \<and> cont2 l = vpage m kc \<and> timer2 l = vpage m kt \<and>
     {kp, kc, kt} \<subseteq> {..<n} \<and> kc \<noteq> kp \<and> kc \<noteq> kt \<and> (\<forall>i < 5. {kp, kc, kt} \<inter> ring_pages qs pss i = {}) \<and>
     read_itimer (vpage m kp) (lvm l) = zero_itimer \<and> read_itimer (vpage m kt) (lvm l) = quantum"

lemma valid_itimers: "valid_itimer zero_itimer" "valid_itimer quantum"
  by (simp_all add: valid_itimer_def zero_itimer_def quantum_def)

lemma vpage_pos: "clear m v \<Longrightarrow> vpage m k \<noteq> 0"
  by (simp add: clear_def vpage_def)

lemma pause_timer_law:
  assumes r: "rings2 m n (lvm l) qs pss rs" and c: "clocks2 m n l qs pss kp kc kt"
  shows "\<exists>w. pause_timer l = l\<lparr>itimer2 := zero_itimer, lvm := w\<rparr> \<and> rings2 m n w qs pss rs \<and>
    clocks2 m n (l\<lparr>itimer2 := zero_itimer, lvm := w\<rparr>) qs pss kp kc kt \<and> vrunning w = vrunning (lvm l) \<and> vthreads w = vthreads (lvm l)"
proof -
  have s: "solo m n (lvm l)" using rings2D(1) [OF r] .
  have cl: "clear m (lvm l)" "n \<le> 256" using s by (simp_all add: solo_def)
  have k: "kp < 256" "kc < 256" "kt < 256" "kc < n" "kc \<noteq> kp" "kc \<noteq> kt" using c cl(2) by (auto simp: clocks2_def)
  have v: "memory (lvm l) = m" "page_init (lvm l) \<noteq> 0" "whole (lvm l)" "locked (lvm l) = {}" using cl(1) by (simp_all add: clear_def)
  define w where "w = poke kc 1 (itimer_bytes (itimer2 l)) (lvm l)"
  have p: "pause2 l = vpage m kp" "cont2 l = vpage m kc" "read_itimer (vpage m kp) (lvm l) = zero_itimer"
    using c by (simp_all add: clocks2_def)
  have "copy_ok (vpage m kp) 32 (lvm l)" "copy_ok (vpage m kc) 32 (lvm l)"
    using copy_at [OF v(1-3) k(1)] copy_at [OF v(1-3) k(2)] v(4) by simp_all
  then have "pause_timer l = l\<lparr>itimer2 := zero_itimer, lvm := w\<rparr>"
    using p vpage_pos [OF cl(1)] valid_itimers(1) write_itimer_at [OF v(1)]
    by (simp add: pause_timer_def setitimer2_def Let_def w_def)
  moreover have len: "length (itimer_bytes t) = 32" for t by (simp add: itimer_bytes_def)
  then have cw: "clear m w" using cl(1) k(2) by (simp add: w_def poke_clear)
  have sw: "solo m n w" by (rule solo_same [OF s cw]) (simp_all add: w_def)
  have fr: "frames w ! x = frames (lvm l) ! x" if "x \<noteq> kc" for x using that by (simp add: w_def poke_other)
  have "ring2 m w (qs ! i) (pss ! i) (rs ! i)" if i: "i < 5" for i
  proof (rule ring2_frame [OF rings2D(5) [OF r i]])
    have "kc \<notin> ring_pages qs pss i" using c i by (auto simp: clocks2_def)
    then show "frames w ! x = frames (lvm l) ! x" if "x \<in> set (qs ! i # pss ! i)" for x
      using that by (intro fr) (auto simp: ring_pages_def)
  qed
  then have "rings2 m n w qs pss rs" using r sw by (simp add: rings2_def)
  moreover have "memory w = m" using v(1) by (simp add: w_def)
  then have "read_itimer (vpage m kp) w = zero_itimer" "read_itimer (vpage m kt) w = quantum"
    using read_itimer_cong [OF v(1) _ fr, of kp] read_itimer_cong [OF v(1) _ fr, of kt] k(5,6) c by (simp_all add: clocks2_def)
  then have "clocks2 m n (l\<lparr>itimer2 := zero_itimer, lvm := w\<rparr>) qs pss kp kc kt" using c by (simp add: clocks2_def)
  ultimately show ?thesis by (intro exI [of _ w]) (simp add: w_def)
qed

section \<open>Changing threads\<close>

text \<open>A queue in a protected page cannot be read while there is no running thread.\<close>

lemma get_next2_locked:
  assumes "vrunning v = NULL" "memory v = m" "k \<in> locked v"
  shows "get_next2 (vpage m k) v = None"
proof -
  have a: "vpage m k + 8 = memory v + int k * 4096 + int 9" using assms(2) by (simp add: vpage_def)
  have "touch (vpage m k + 8) v = None"
    using assms frame_at(1) [of 9 v k] unfolding a
    by (subst touch.simps) (simp add: vmem_sig_handler_def runner_def Let_def)
  then show ?thesis by (simp add: get_next2_def get_int_def load_def)
qed

lemma update_counters2_range:
  assumes "0 \<le> current_priority2 l" "current_priority2 l < 5"
  shows "0 \<le> current_priority2 (update_counters2 l)" "current_priority2 (update_counters2 l) < 5"
    and "lvm (update_counters2 l) = lvm l" "priority_level2 (update_counters2 l) = priority_level2 l" "timer2 (update_counters2 l) = timer2 l"
      "itimer2 (update_counters2 l) = itimer2 l"
  using assms by (auto simp: update_counters2_def c_mod_nonneg)

lemma select_loop2_stops:
  assumes "running2 l = NULL" "priority_level2 l = map (vpage m) qs" "length qs = 5" "memory (lvm l) = m" "set qs \<subseteq> locked (lvm l)"
    "0 \<le> current_priority2 l"
  shows "select_loop2 l = None"
proof -
  define c where "c = c_mod (current_priority2 l + 1) 5"
  have c: "0 \<le> c" "c < 5" using assms(6) by (simp_all add: c_def c_mod_nonneg)
  then have "qs ! nat c \<in> locked (lvm l)" using assms(3,5) by (auto simp: subset_iff)
  then have "get_next2 (vpage m (qs ! nat c)) (lvm l) = None"
    using assms(1,4) by (intro get_next2_locked) (simp_all add: running2_def)
  moreover have "arr_get (priority_level2 l) c = Some (vpage m (qs ! nat c))" using c assms(2,3) by (simp add: arr_get_def)
  ultimately have "get_next_level2 c (l\<lparr>current_priority2 := c\<rparr>) = None" by (simp add: get_next_level2_def on_vm_def)
  then show ?thesis using assms(1) by (subst select_loop2.simps) (simp add: Let_def c_def)
qed

text \<open>The two changes of protection, when the first thread owns all pages in use.\<close>

lemma solo_switch:
  assumes s: "solo m n v" and t: "t = NULL \<or> t \<in> dom (vthreads v)"
  shows "switch_pages (vrunning v) t (v\<lparr>vrunning := t\<rparr>) = Some (v\<lparr>vrunning := t, locked := (if t = vrunning v then {} else {..<n})\<rparr>)"
proof -
  obtain L r where L: "vm_ok v L" "L (vrunning v) = [0..<n]" "vthreads v (vrunning v) = Some r" "free_pages v = [n..<256]" "locked v = {}" "vrunning v \<noteq> NULL"
    using s by (auto simp: solo_def clear_def)
  have ok: "vm_ok (v\<lparr>vrunning := t\<rparr>) L" using L(1) vm_ok_same [of "v\<lparr>vrunning := t\<rparr>" v L] by simp
  show ?thesis
  proof (cases "t = NULL")
    case True
    then show ?thesis
      using switch_protects [OF ok, of "vrunning v" r t] L(2,3,5,6) by (simp add: atLeast0LessThan)
  next
    case False
    then obtain u where u: "vthreads v t = Some u" using t by auto
    have "t \<noteq> vrunning v \<Longrightarrow> L t = []" using solo_others [OF L(1,2,4,3) u] by simp
    then show ?thesis
      using switch_protects [OF ok, of "vrunning v" r t u] L(2,3,5) u False by (simp add: atLeast0LessThan)
  qed
qed

lemma reschedule2_law:
  assumes r: "rings2 m n (lvm l) qs pss rs" and c: "clocks2 m n l qs pss kp kc kt" and q: "priority_level2 l = map (vpage m) qs"
    and cp: "0 \<le> current_priority2 l" "current_priority2 l < 5" and p: "p = nat (current_priority2 (update_counters2 l))"
    and th: "\<forall>t \<in> set (rs ! p). t \<noteq> NULL \<and> t \<in> dom (vthreads (lvm l))" and z: "itimer2 l = zero_itimer"
  shows "if rs ! p = [] then reschedule2 l = None
    else \<exists>l'. reschedule2 l = Some l' \<and> running2 l' = hd (rs ! p) \<and>
      (if hd (rs ! p) = running2 l then locked (lvm l') = {} \<and> itimer2 l' = quantum
       else locked (lvm l') = {..<n} \<and> itimer2 l' = zero_itimer)"
proof -
  define l1 where "l1 = update_counters2 l"
  note U = update_counters2_range [OF cp, folded l1_def]
  have p5: "p < 5" "int p = current_priority2 l1" using U(1,2) p by (simp_all add: l1_def)
  note R = rings2D [OF r]
  from rings2_get_next [OF r p5(1)] obtain w pss' where
    w: "get_next2 (vpage m (qs ! p)) (lvm l) = Some ((case rs ! p of [] \<Rightarrow> NULL | t # _ \<Rightarrow> t), w)" "rings2 m n w qs pss' (rs[p := tl (rs ! p)])"
      "\<And>k. k < n \<Longrightarrow> \<forall>i < 5. k \<notin> ring_pages qs pss i \<Longrightarrow> frames w ! k = frames (lvm l) ! k" "vrunning w = vrunning (lvm l)" "vthreads w = vthreads (lvm l)" by auto
  define t where "t = (case rs ! p of [] \<Rightarrow> NULL | t # _ \<Rightarrow> t)"
  have s: "solo m n w" "clear m w" using rings2D(1) [OF w(2)] by (simp_all add: solo_def)
  have m: "memory w = m" "page_init w \<noteq> 0" "whole w" "n \<le> 256" using s by (simp_all add: clear_def solo_def)
  have nx: "get_next_level2 (current_priority2 l1) l1 = Some (t, l1\<lparr>lvm := w\<rparr>)"
    using w(1) p5 q R(2) U(3,4) by (simp add: get_next_level2_def on_vm_def p5(2) [symmetric] t_def)
  have "t = NULL \<or> t \<in> dom (vthreads w)" using th w(5) by (cases "rs ! p") (auto simp: t_def)
  note sw = solo_switch [OF s(1) this]
  define v2 where "v2 = w\<lparr>vrunning := t, locked := (if t = vrunning w then {} else {..<n})\<rparr>"
  have run: "running2 l1 = vrunning w" using w(4) U(3) by (simp add: running2_def)
  have re: "reschedule2 l = do { l \<leftarrow> select_loop2 (l1\<lparr>lvm := v2\<rparr>); Some (setitimer2 (timer2 l) 0 l) }"
    using nx sw run by (simp add: reschedule2_def l1_def [symmetric] Let_def do_vm_def set_running2_def v2_def)
  show ?thesis
  proof (cases "rs ! p")
    case Nil
    then have t0: "t = NULL" by (simp add: t_def)
    have "t \<noteq> vrunning w" using t0 s(1) by (simp add: solo_def)
    moreover have "set qs \<subseteq> {..<n}"
    proof
      fix x assume "x \<in> set qs"
      then obtain i where "i < 5" "x = qs ! i" using R(2) by (auto simp: in_set_conv_nth)
      then show "x \<in> {..<n}" using R(6) [of i] by (auto simp: ring_pages_def)
    qed
    ultimately have "select_loop2 (l1\<lparr>lvm := v2\<rparr>) = None"
      using t0 q U(1,4) R(2) m(1) by (intro select_loop2_stops [where qs = qs and m = m]) (simp_all add: v2_def running2_def)
    then show ?thesis using Nil re by simp
  next
    case (Cons u us)
    then have t: "t = u" "t \<noteq> NULL" using th by (simp_all add: t_def)
    have "select_loop2 (l1\<lparr>lvm := v2\<rparr>) = Some (l1\<lparr>lvm := v2\<rparr>)"
      using t(2) by (subst select_loop2.simps) (simp add: running2_def v2_def)
    moreover define l' where "l' = setitimer2 (timer2 l1) 0 (l1\<lparr>lvm := v2\<rparr>)"
    ultimately have e: "reschedule2 l = Some l'" using re by simp
    have kt: "kt < n" "timer2 l1 = vpage m kt" using c U(5) by (auto simp: clocks2_def)
    have "\<forall>i < 5. kt \<notin> ring_pages qs pss i" using c by (auto simp: clocks2_def)
    with w(3) kt(1) have "frames w ! kt = frames (lvm l) ! kt" by blast
    moreover have "memory (lvm l) = m" "memory v2 = m" using R(1) m(1) by (simp_all add: solo_def clear_def v2_def)
    ultimately have ti: "read_itimer (vpage m kt) v2 = quantum"
      using read_itimer_cong [of "lvm l" m v2 kt] c by (simp add: clocks2_def v2_def)
    have cp: "copy_ok (vpage m kt) 32 v2 \<longleftrightarrow> t = vrunning w"
      using copy_at [of v2 m kt] m kt(1) by (simp add: v2_def whole_def)
    show ?thesis
    proof (cases "t = vrunning w")
      case True
      then have "l' = l1\<lparr>lvm := v2, itimer2 := quantum\<rparr>"
        using cp ti kt(2) vpage_pos [OF s(2)] valid_itimers(2) by (simp add: l'_def setitimer2_def Let_def)
      then show ?thesis using e Cons t True run U(3) w(4) by (simp add: running2_def v2_def)
    next
      case False
      then have "l' = set_errno EFAULT (l1\<lparr>lvm := v2\<rparr>)"
        using cp kt(2) vpage_pos [OF s(2)] by (simp add: l'_def setitimer2_def Let_def)
      then show ?thesis using e Cons t False run U(3,6) w(4) z by (simp add: running2_def v2_def set_errno_def)
    qed
  qed
qed

section \<open>Yielding\<close>

definition set_up2 :: "int \<Rightarrow> nat \<Rightarrow> lib2 \<Rightarrow> addr list list \<Rightarrow> bool" where
  "set_up2 m n l rs \<longleftrightarrow> (\<exists>qs pss kp kc kt. rings2 m n (lvm l) qs pss rs \<and> clocks2 m n l qs pss kp kc kt \<and>
     priority_level2 l = map (vpage m) qs) \<and> 0 \<le> current_priority2 l \<and> current_priority2 l < 5 \<and>
     (\<forall>ts \<in> set rs. \<forall>t \<in> set ts. t \<noteq> NULL \<and> t \<in> dom (vthreads (lvm l)))"

text \<open>A store to a field of a thread struct that paging does not use.\<close>

lemma solo_thread:
  assumes s: "solo m n v" and t: "vthreads v a = Some t" "page_list u = page_list t" "num_pages u = num_pages t" "t_id u = t_id t"
  shows "solo m n (v\<lparr>vthreads := (vthreads v)(a \<mapsto> u)\<rparr>)"
proof -
  let ?w = "v\<lparr>vthreads := (vthreads v)(a \<mapsto> u)\<rparr>"
  have "owns ?w b xs = owns v b xs" for b xs using t by (cases "b = a") (simp_all add: owns_def)
  moreover have "dom (vthreads ?w) = dom (vthreads v)" using t(1) by auto
  ultimately have "vm_ok ?w L = vm_ok v L" for L unfolding vm_ok_def by simp
  moreover have "free_pages ?w = free_pages v" "clear m ?w = clear m v" by (simp_all add: free_pages_def clear_def whole_def)
  ultimately show ?thesis using s by (auto simp: solo_def)
qed

lemma rings2_thread:
  assumes r: "rings2 m n v qs pss rs" and t: "vthreads v a = Some t" "page_list u = page_list t" "num_pages u = num_pages t" "t_id u = t_id t"
  shows "rings2 m n (v\<lparr>vthreads := (vthreads v)(a \<mapsto> u)\<rparr>) qs pss rs"
proof -
  have "ring2 m (v\<lparr>vthreads := (vthreads v)(a \<mapsto> u)\<rparr>) (qs ! i) (pss ! i) (rs ! i)" if "i < 5" for i
    by (rule ring2_frame [OF rings2D(5) [OF r that]]) simp
  then show ?thesis using r solo_thread [OF rings2D(1) [OF r] t] by (simp add: rings2_def)
qed

lemma clocks2_step:
  assumes c: "clocks2 m n l qs pss kp kc kt" and m: "memory (lvm l) = m" "memory w = m" and p: "p < 5" "length pss = 5"
    and fr: "\<And>k. k < n \<Longrightarrow> \<forall>i < 5. k \<notin> ring_pages qs pss i \<Longrightarrow> frames w ! k = frames (lvm l) ! k"
  shows "clocks2 m (Suc n) (l\<lparr>lvm := w\<rparr>) qs (pss[p := pss ! p @ [n]]) kp kc kt"
proof -
  have k: "k < n" "\<forall>i < 5. k \<notin> ring_pages qs pss i" if "k \<in> {kp, kc, kt}" for k using c that by (auto simp: clocks2_def)
  have "read_itimer (vpage m x) w = read_itimer (vpage m x) (lvm l)" if "x \<in> {kp, kc, kt}" for x
    by (rule read_itimer_cong [OF m fr [OF k [OF that]]])
  moreover have "x \<notin> ring_pages qs (pss[p := pss ! p @ [n]]) i" if "x \<in> {kp, kc, kt}" "i < 5" for x i
    using k [OF that(1)] that(2) p by (cases "i = p") (auto simp: ring_pages_def)
  ultimately show ?thesis using c by (auto simp: clocks2_def)
qed

text \<open>The call up to the queue: the status is set, the timer stopped, and the caller is to be put into its queue.\<close>

lemma yield2_enters:
  assumes r: "rings2 m n (lvm l) qs pss rs" "clocks2 m n l qs pss kp kc kt" "priority_level2 l = map (vpage m) qs"
    and t: "thread2 (running2 l) l = Some t" "t_priority t = int p" "p < 5"
  shows "\<exists>w. my_pthread_yield2 base l =
      do { v \<leftarrow> enqueue2 base (running2 l) (vpage m (qs ! p)) w; reschedule2 (l\<lparr>itimer2 := zero_itimer, lvm := v\<rparr>) } \<and>
    rings2 m n w qs pss rs \<and> clocks2 m n (l\<lparr>itimer2 := zero_itimer, lvm := w\<rparr>) qs pss kp kc kt \<and>
    vrunning w = running2 l \<and> dom (vthreads w) = dom (vthreads (lvm l))"
proof -
  define a where "a = running2 l"
  define t1 where "t1 = t\<lparr>t_status := Yield2\<rparr>"
  have a: "a \<noteq> NULL" "vthreads (lvm l) a = Some t" using t(1) by (simp_all add: thread2_def a_def split: if_splits)
  define v1 where "v1 = (lvm l)\<lparr>vthreads := (vthreads (lvm l))(a \<mapsto> t1)\<rparr>"
  define l1 where "l1 = l\<lparr>lvm := v1\<rparr>"
  have up: "upd_thread2 (running2 l) (\<lambda>t. t\<lparr>t_status := Yield2\<rparr>) l = Some l1"
    using t(1) by (simp add: upd_thread2_def l1_def v1_def t1_def a_def)
  have r1: "rings2 m n (lvm l1) qs pss rs" unfolding l1_def v1_def using rings2_thread [OF r(1) a(2), of t1] by (simp add: t1_def)
  have c1: "clocks2 m n l1 qs pss kp kc kt"
    using r(2) by (simp add: clocks2_def l1_def v1_def read_itimer_def place_def frame_no_def)
  from pause_timer_law [OF r1 c1] obtain w where w: "pause_timer l1 = l1\<lparr>itimer2 := zero_itimer, lvm := w\<rparr>" "rings2 m n w qs pss rs"
      "clocks2 m n (l1\<lparr>itimer2 := zero_itimer, lvm := w\<rparr>) qs pss kp kc kt" "vrunning w = vrunning v1" "vthreads w = vthreads v1"
    by (auto simp: l1_def)
  define l2 where "l2 = l1\<lparr>itimer2 := zero_itimer, lvm := w\<rparr>"
  have run2: "running2 l2 = a" "thread2 a l2 = Some t1"
    using w(4,5) a by (simp_all add: l2_def running2_def thread2_def v1_def) (simp add: a_def running2_def)
  have q: "arr_get (priority_level2 l2) (int p) = Some (vpage m (qs ! p))"
    using r(3) rings2D(2) [OF r(1)] t(3) by (simp add: l2_def l1_def)
  have "my_pthread_yield2 base l = do { v \<leftarrow> enqueue2 base a (vpage m (qs ! p)) w; reschedule2 (l2\<lparr>lvm := v\<rparr>) }"
    using up w(1) run2 q t(2) by (simp add: my_pthread_yield2_def scheduler_alarm_handler2_def l2_def [symmetric] Let_def t1_def
        enqueue_level2_def do_vm_def) (simp add: l2_def)
  moreover have "dom (vthreads w) = dom (vthreads (lvm l))" using w(5) a(2) by (auto simp: v1_def)
  moreover have "vrunning w = a" using w(4) by (simp add: v1_def a_def running2_def)
  ultimately show ?thesis using w(2,3) by (intro exI [of _ w]) (simp add: a_def l2_def l1_def)
qed

lemma queued_members:
  assumes "\<forall>ts \<in> set rs. \<forall>t \<in> set ts. Q t" "p < length rs" "Q a" "c < length rs"
  shows "\<forall>t \<in> set (rs[p := rs ! p @ [a]] ! c). Q t"
  using assms by (cases "c = p") auto


end
