(* ===== verification/Paged_Start.thy ===== *)
theory Paged_Start
  imports Paged_Sched
begin

text \<open>The thread library of asst2 from the start of the program: every call that needs the scheduler stops.\<close>

lemma make_queue2_start:
  assumes "vrunning v = NULL" "page_init v = 0"
  shows "make_queue2 base v = None"
  using page_malloc_without_thread [OF assms, of 16 base] by (simp add: make_queue2_def)

lemma start_fields [simp]:
  "vrunning (lvm (lib2_start fs ts ms)) = NULL" "page_init (lvm (lib2_start fs ts ms)) = 0" "init2 (lib2_start fs ts ms) = False"
  "running2 (lib2_start fs ts ms) = NULL" "mutexes2 (lib2_start fs ts ms) = ms"
  by (simp_all add: lib2_start_def running2_def)

lemma start_timer [simp]:
  "pause_timer (lib2_start fs ts ms) = lib2_start fs ts ms" "resume_timer (lib2_start fs ts ms) = lib2_start fs ts ms"
  by (simp_all add: pause_timer_def resume_timer_def setitimer2_def valid_itimer_def zero_itimer_def lib2_start_def)

lemma start_init: "scheduler_init2 base e (lib2_start fs ts ms) = None"
proof -
  have "make_queue2 base (lvm (lib2_start fs ts ms\<lparr>thread_count2 := 1, tid_list2 := 0\<rparr>)) = None"
    by (rule make_queue2_start) simp_all
  then have "init_levels2 base (0 # [1..<5]) (lib2_start fs ts ms\<lparr>thread_count2 := 1, tid_list2 := 0\<rparr>) = None"
    by (simp add: on_vm_def)
  moreover have "[0..<5] = 0 # [1..<5 :: nat]" by (simp add: upt_conv_Cons)
  ultimately show ?thesis by (simp add: scheduler_init2_def)
qed

lemma start_get_next: "get_next2 q (lvm (lib2_start fs ts ms)) = None"
proof -
  have "locked (lvm (lib2_start fs ts ms)) = {}" by (simp add: lib2_start_def)
  then have "touch a (lvm (lib2_start fs ts ms)) = Some (lvm (lib2_start fs ts ms))" for a
    by (subst touch.simps) simp
  then have "load a n (lvm (lib2_start fs ts ms)) = None" for a n by (simp add: load_def Option.bind_eq_None_conv)
  then show ?thesis by (simp add: get_next2_def get_int_def)
qed

text \<open>
  Claim C20. The thread library of asst2 cannot be used at all. From the start of the program \<open>my_pthread_create\<close> runs into
  \<open>scheduler_init\<close>, whose first \<open>malloc\<close> is a \<open>page_malloc\<close> that reads through the null pointer \<open>running_thread\<close>;
  so does the queue of a new mutex. Yielding, exiting and joining read through it directly. Locking a mutex that
  nobody has fails with \<open>EDEADLK\<close>, as its \<open>user\<close> equals \<open>running_thread\<close>, and unlocking one stops the program.
\<close>

theorem paged_library_never_starts:
  "my_pthread_create2 base e t attr (lib2_start fs ts ms) = None \<and>
   my_pthread_yield2 base (lib2_start fs ts ms) = None \<and>
   pthread_exit2 base x (lib2_start fs ts ms) = None \<and>
   my_pthread_join_enter2 th (lib2_start fs ts ms) = None \<and>
   my_pthread_mutex_init2 base m a (lib2_start fs ts ms) = None \<and>
   (\<forall>p y. p \<noteq> NULL \<and> ms p = Some y \<and> m2_user y = NULL \<longrightarrow>
      my_pthread_mutex_lock_enter2 base p (lib2_start fs ts ms) = Some (Ret2 EDEADLK, lib2_start fs ts ms) \<and>
      my_pthread_mutex_unlock2 base p (lib2_start fs ts ms) = None)"
  using make_queue2_start [of "lvm (lib2_start fs ts ms)" base]
  by (simp add: my_pthread_create2_def start_init my_pthread_yield2_def pthread_exit2_def my_pthread_join_enter2_def
      my_pthread_mutex_init2_def my_pthread_mutex_lock_enter2_def my_pthread_mutex_unlock2_def upd_thread2_def thread2_def
      on_vm_def Let_def start_get_next)

theorem paged_library_never_starts_witness:
  "my_pthread_mutex_lock_enter2 8192 7 (lib2_start [] Map.empty [7 \<mapsto> \<lparr>m2_waiting = 0, m2_user = NULL\<rparr>]) =
     Some (Ret2 EDEADLK, lib2_start [] Map.empty [7 \<mapsto> \<lparr>m2_waiting = 0, m2_user = NULL\<rparr>])"
  using paged_library_never_starts [of 8192 _ 1 0 "[]" Map.empty "[7 \<mapsto> \<lparr>m2_waiting = 0, m2_user = NULL\<rparr>]"] by simp

end
