(* ===== verification/Paging_Examples.thy ===== *)
theory Paging_Examples
  imports Paging_Free Page_Source
begin

text \<open>
  The paged memory as a source of pages, and a concrete state: memory at 8192, thread 100 with
  identifier 1 running and owning the pages \<open>xs\<close>, each an allocation of its own, and thread 101 with no page.
\<close>

section \<open>Requests for one page\<close>

text \<open>The page that a request for 4096 bytes adds to the running thread.\<close>

definition grant_one :: "int \<Rightarrow> vm \<Rightarrow> (nat \<times> vm) option" where
  "grant_one base v = do { (p, w) \<leftarrow> page_malloc base 4096 v; if p = 0 then None else Some (hd (free_pages v), w) }"

definition serving :: "vm \<Rightarrow> bool" where
  "serving v \<longleftrightarrow> (\<exists>L t. vm_ok v L \<and> vrunning v \<noteq> NULL \<and> vthreads v (vrunning v) = Some t \<and> 0 < memory v)"

lemma grant_one_law:
  assumes "serving v" "set (free_pages v) \<noteq> {}"
  shows "\<exists>p w. grant_one base v = Some (p, w) \<and> p \<in> set (free_pages v) \<and> serving w \<and> set (free_pages w) = set (free_pages v) - {p}"
proof -
  obtain L t where o: "vm_ok v L" "vrunning v \<noteq> NULL" "vthreads v (vrunning v) = Some t" "0 < memory v"
    using assms(1) by (auto simp: serving_def)
  obtain p ps where ps: "free_pages v = p # ps" using assms(2) by (cases "free_pages v") auto
  have "pages_for 4096 = 1" by (simp add: pages_for_def)
  with page_malloc_law [OF o(1-3), of 4096 base] ps obtain w where
    w: "page_malloc base 4096 v = Some (memory v + int (length (L (vrunning v))) * 4096 + 1, w)" "granted v L 1 w" by auto
  have "memory v + int (length (L (vrunning v))) * 4096 + 1 \<noteq> 0" using o(4) by simp
  then have "grant_one base v = Some (p, w)" using w(1) ps by (simp add: grant_one_def)
  moreover have "free_pages w = ps" "serving w"
    using w(2) ps o by (auto simp: granted_def serving_def)
  moreover have "p \<notin> set ps" using free_pages_distinct [of v] ps by simp
  ultimately show ?thesis using ps by auto
qed

interpretation grants: page_source serving "\<lambda>v. set (free_pages v)" "grant_one base" for base
  by unfold_locales (simp_all add: grant_one_law)

text \<open>
  As many requests for a page as there are free pages are met, each with a page of its own.
\<close>

theorem page_malloc_many:
  assumes "serving v" "n \<le> length (free_pages v)"
  shows "\<exists>ps w. repeat_alloc (grant_one base) n v = Some (ps, w) \<and> length ps = n \<and> distinct ps \<and>
    set (free_pages w) = set (free_pages v) - set ps"
  using grants.alloc_many [OF assms(1), of n base] assms(2) distinct_card [OF free_pages_distinct, of v] by auto

section \<open>A concrete state\<close>

definition demo_data :: "nat list \<Rightarrow> page_meta list" where
  "demo_data xs = map (\<lambda>d. d\<lparr>pg_more := 0\<rparr>) (link_pages 1 xs (length xs) 0
     (map (\<lambda>i. \<lparr>pg_page = 8192 + int i * 4096, pg_next = None, pg_prev = None, pg_free = 1, pg_more = 0, pg_TID = -1\<rparr>) [0..<256]))"

definition demo_pthread :: "int \<Rightarrow> nat list \<Rightarrow> pthread2" where
  "demo_pthread i xs = \<lparr>t_id = i, t_priority = 0, t_intervals = 0, t_wait_id = -1, t_status = Active2, t_ret = NULL, t_stack = 0,
     page_list = hd_opt xs, num_pages = int (length xs)\<rparr>"

lemma demo_pthread_fields [simp]:
  "t_id (demo_pthread i xs) = i" "page_list (demo_pthread i xs) = hd_opt xs" "num_pages (demo_pthread i xs) = int (length xs)"
  by (simp_all add: demo_pthread_def)

definition demo_vm :: "nat list \<Rightarrow> vm" where
  "demo_vm xs = \<lparr>memory = 8192, page_data = demo_data xs, page_init = 1,
     vthreads = [100 \<mapsto> demo_pthread 1 xs, 101 \<mapsto> demo_pthread 2 []],
     vrunning = 100, frames = replicate 256 (replicate 4096 CHR ''a''), locked = {}, errno = 0\<rparr>"

definition demo_own :: "nat list \<Rightarrow> addr \<Rightarrow> nat list" where
  "demo_own xs a = (if a = 100 then xs else [])"

lemma demo_data_law:
  assumes xs: "distinct xs" "set xs \<subseteq> {..<256}"
  shows "length (demo_data xs) = 256" "x < 256 \<Longrightarrow> pg_page (demo_data xs ! x) = 8192 + int x * 4096"
    "x < 256 \<Longrightarrow> pg_more (demo_data xs ! x) = 0"
    "x < 256 \<Longrightarrow> pg_free (demo_data xs ! x) = (if x \<in> set xs then 0 else 1)"
    "x \<in> set xs \<Longrightarrow> pg_TID (demo_data xs ! x) = 1" "dlist (demo_data xs) None xs None"
proof -
  define ds where "ds = map (\<lambda>i. \<lparr>pg_page = 8192 + int i * 4096, pg_next = None, pg_prev = None, pg_free = 1, pg_more = 0, pg_TID = -1\<rparr>) [0..<256]"
  have sub: "set xs \<subseteq> {..<length ds}" using xs(2) by (simp add: ds_def)
  note l = link_pages_law [OF xs(1) sub, where tid = 1]
  have len: "length (link_pages 1 xs (length xs) 0 ds) = 256" using l(1) by (simp add: ds_def)
  have at: "demo_data xs ! x = (link_pages 1 xs (length xs) 0 ds ! x)\<lparr>pg_more := 0\<rparr>" if "x < 256" for x
    using that len by (simp add: demo_data_def ds_def)
  show "length (demo_data xs) = 256" using len by (simp add: demo_data_def ds_def)
  have new: "pg_page (link_pages 1 xs (length xs) 0 ds ! x) = pg_page (ds ! x) \<and> pg_free (link_pages 1 xs (length xs) 0 ds ! x) = 0 \<and>
      pg_TID (link_pages 1 xs (length xs) 0 ds ! x) = 1" if "x \<in> set xs" for x
    using that l(3) by (auto simp: in_set_conv_nth linked_def)
  show "x < 256 \<Longrightarrow> pg_page (demo_data xs ! x) = 8192 + int x * 4096"
    using at new [of x] l(2) [of x] by (cases "x \<in> set xs") (simp_all add: ds_def)
  show "x < 256 \<Longrightarrow> pg_more (demo_data xs ! x) = 0" using at by simp
  show "x < 256 \<Longrightarrow> pg_free (demo_data xs ! x) = (if x \<in> set xs then 0 else 1)"
    using at new [of x] l(2) [of x] by (cases "x \<in> set xs") (simp_all add: ds_def)
  show "x \<in> set xs \<Longrightarrow> pg_TID (demo_data xs ! x) = 1" using at new [of x] xs(2) by auto
  show "dlist (demo_data xs) None xs None"
    by (rule dlist_cong [OF linked_dlist [OF xs(1) sub, of 1]]) (use at xs(2) len in \<open>auto simp: demo_data_def ds_def\<close>)
qed

lemma demo_vm_ok:
  assumes "distinct xs" "set xs \<subseteq> {..<256}"
  shows "vm_ok (demo_vm xs) (demo_own xs)"
  using demo_data_law [OF assms] assms
  by (auto simp: vm_ok_def owns_def demo_vm_def demo_own_def split: if_splits)

lemma demo_vm_run [simp]:
  "vrunning (demo_vm xs) = 100" "memory (demo_vm xs) = 8192" "length (frames (demo_vm xs)) = 256" "locked (demo_vm xs) = {}"
  "vthreads (demo_vm xs) 100 = Some (demo_pthread 1 xs)"
  "vthreads (demo_vm xs) 101 = Some (demo_pthread 2 [])" "demo_own xs 100 = xs" "demo_own xs 101 = []"
  by (simp_all add: demo_vm_def demo_own_def)

lemma demo_free: "free_pages (demo_vm []) = [0..<256]"
  using demo_data_law(4) [of "[]"] by (simp add: free_pages_def demo_vm_def)

lemma demo_vms_ok: "vm_ok (demo_vm []) (demo_own [])" "vm_ok (demo_vm [5, 7, 9]) (demo_own [5, 7, 9])"
  by (rule demo_vm_ok; simp)+

lemma demo_serving: "serving (demo_vm [])"
  using demo_vms_ok(1) by (auto simp: serving_def)

theorem page_malloc_many_witness:
  "\<exists>p q w. repeat_alloc (grant_one 0) 2 (demo_vm []) = Some ([p, q], w) \<and> p \<noteq> q"
  using page_malloc_many [OF demo_serving, of 2 0] by (auto simp: demo_free numeral_2_eq_2 length_Suc_conv)

theorem page_malloc_grants_witness:
  "\<exists>v'. page_malloc 0 5000 (demo_vm []) = Some (8193, v') \<and> vm_ok v' ((demo_own [])(100 := [0, 1]))"
  using page_malloc_grants [OF demo_vms_ok(1), of _ 5000 0] by (auto simp: granted_def pages_for_def demo_free upt_rec [of _ 256] numeral_2_eq_2)

theorem page_malloc_out_of_memory_witness:
  "page_malloc 0 1048577 (demo_vm []) = Some (0, (demo_vm [])\<lparr>errno := ENOMEM\<rparr>)"
  using page_malloc_out_of_memory [OF demo_vms_ok(1), of 1048577 0] by (simp add: pages_for_def demo_free)

theorem page_malloc_without_thread_witness:
  "page_malloc 8192 16 ((demo_vm [])\<lparr>vrunning := 0, page_init := 0\<rparr>) = None"
  using page_malloc_without_thread [of "(demo_vm [])\<lparr>vrunning := 0, page_init := 0\<rparr>" 16 8192] by simp

theorem malloc_never_freed_witness:
  "\<exists>p v'. page_malloc 0 100 (demo_vm []) = Some (p, v') \<and> page_free p v' = Some (v'\<lparr>errno := EINVAL\<rparr>)"
  using malloc_never_freed [OF demo_vms_ok(1), of _ 100 0] by (auto simp: pages_for_def demo_free)

theorem page_free_allocation_witness:
  "\<exists>v'. page_free 36864 (demo_vm [5, 7, 9]) = Some v' \<and> vm_ok v' ((demo_own [5, 7, 9])(100 := [5, 9]))"
proof -
  have "allocation_at (demo_vm [5, 7, 9]) [7]"
    using demo_data_law(3) [of "[5, 7, 9]" 7] by (simp add: allocation_at_def demo_vm_def)
  then show ?thesis using page_free_allocation [OF demo_vms_ok(2), of _ "[5]" "[7]" "[9]"] by auto
qed

theorem fault_swaps_witness:
  "\<exists>v'. vmem_sig_handler 12300 (demo_vm [5, 7, 9]) = Some v' \<and> locked v' = {7} \<and> page_data v' = page_data (demo_vm [5, 7, 9])"
  using fault_swaps [OF demo_vms_ok(2), of _ 1 12300 7] by simp

theorem switch_protects_witness:
  "\<exists>v'. switch_pages 100 101 (demo_vm [5, 7, 9]) = Some v' \<and> locked v' = {5, 7, 9}"
  using switch_protects [OF demo_vms_ok(2), of 100 _ 101] by simp

end
