(* ===== verification/Paged_Examples.thy ===== *)
theory Paged_Examples
  imports Paged_Dispatch Paged_Start Paging_Examples
begin

text \<open>
  The laws of asst2 on concrete states: memory at 8192, thread 100 running and owning the first pages, thread 101
  with no page; and a library whose queues are in the pages 0 to 4 and whose timer structs are in the pages 5 to 7.
\<close>

lemma demo_whole: "whole (demo_vm xs)"
  by (simp add: whole_def demo_vm_def)

lemma demo_clear: "clear 8192 (demo_vm xs)"
  using demo_whole by (simp add: clear_def) (simp add: demo_vm_def)

lemma demo_solo:
  assumes "n \<le> 256"
  shows "solo 8192 n (demo_vm [0..<n])"
proof -
  have d: "distinct [0..<n]" "set [0..<n] \<subseteq> {..<256}" using assms by auto
  have "free_pages (demo_vm [0..<n]) = filter (\<lambda>i. n \<le> i) [0..<256]"
    using demo_data_law(4) [OF d] by (auto simp: free_pages_def demo_vm_def intro!: filter_cong split: if_splits)
  also have "\<dots> = filter (\<lambda>i. n \<le> i) ([0..<n] @ [n..<256])" using assms upt_add_eq_append [of 0 n "256 - n"] by simp
  also have "\<dots> = [n..<256]" by (simp add: filter_empty_conv)
  finally show ?thesis using demo_clear demo_vm_ok [OF d] assms by (auto simp: solo_def)
qed

theorem paged_queue_refines_fifo_witness:
  "\<exists>w. make_queue2 0 (demo_vm []) = Some (8193, w) \<and>
     map_option fst (run_queue (\<lambda>t. enqueue2 0 t 8193) (get_next2 8193) [Enq 5, Enq 6, Deq, Deq, Deq] w) = Some [5, 6, 0]"
  using paged_queue_refines_fifo [OF demo_solo [of 0], of "[Enq 5, Enq 6, Deq, Deq, Deq]" 0] by (auto simp: vpage_def simp del: run_queue.simps)


theorem pages_not_separate_witness:
  "map_option fst (take_turns 0 100 101 8193 ''one'' ''two'' (demo_vm [0])) = Some ''two''"
  using pages_not_separate [of 8192 "demo_vm [0]" 101 "''one''" "''two''" 0] demo_solo [of 1] by (simp add: vpage_def domIff)

section \<open>A library that has been set up\<close>

definition zero_page :: string where
  "zero_page = replicate 4096 (CHR 0x00)"

definition demo_vm2 :: vm where
  "demo_vm2 = (demo_vm [0..<8])\<lparr>frames := (replicate 256 zero_page)[7 := take 1 zero_page @ itimer_bytes quantum @ drop 33 zero_page]\<rparr>"

definition demo_lib2 :: "int \<Rightarrow> lib2" where
  "demo_lib2 c = (lib2_start [] Map.empty Map.empty)\<lparr>lvm := demo_vm2, priority_level2 := map (vpage 8192) [0..<5],
     current_priority2 := c, pause2 := vpage 8192 5, cont2 := vpage 8192 6, timer2 := vpage 8192 7, init2 := True\<rparr>"

lemma le_val_zero: "le_val (replicate n (CHR 0x00)) = 0"
  by (induction n) simp_all

lemma demo_vm2_solo: "solo 8192 8 demo_vm2"
proof (rule solo_same [OF demo_solo [of 8]])
  have "whole demo_vm2" by (auto simp: whole_def demo_vm2_def in_set_conv_nth nth_list_update zero_page_def itimer_bytes_def)
  then show "clear 8192 demo_vm2" using demo_clear [of "[0..<8]"] by (simp add: clear_def demo_vm2_def)
qed (simp_all add: demo_vm2_def)

lemma demo_rings: "rings2 8192 8 demo_vm2 [0..<5] (replicate 5 []) (replicate 5 [])"
proof -
  have "cnt demo_vm2 i = 0" if "i < 5" for i
    using that by (simp add: cnt_def demo_vm2_def zero_page_def le_val_zero to_int_id)
  then show ?thesis using demo_vm2_solo by (simp add: rings2_def ring2_def ring_pages_def)
qed

lemma demo_clocks: "clocks2 8192 8 (demo_lib2 c) [0..<5] (replicate 5 []) 5 6 7"
proof -
  have m: "memory demo_vm2 = 8192" by (simp add: demo_vm2_def)
  have "frames demo_vm2 ! 5 = zero_page" "frames demo_vm2 ! 7 = take 1 zero_page @ itimer_bytes quantum @ drop 33 zero_page"
    by (simp_all add: demo_vm2_def)
  then have "read_itimer (vpage 8192 5) demo_vm2 = zero_itimer" "read_itimer (vpage 8192 7) demo_vm2 = quantum"
    by (simp_all add: read_itimer_at [OF m] zero_itimer_def quantum_def zero_page_def le_val_zero itimer_bytes_def le_val_bytes)
  then show ?thesis by (auto simp: clocks2_def demo_lib2_def ring_pages_def)
qed

lemma demo_set_up: "0 \<le> c \<Longrightarrow> c < 5 \<Longrightarrow> set_up2 8192 8 (demo_lib2 c) (replicate 5 [])"
proof -
  assume c: "0 \<le> c" "c < 5"
  have "lvm (demo_lib2 c) = demo_vm2" "priority_level2 (demo_lib2 c) = map (vpage 8192) [0..<5]" "current_priority2 (demo_lib2 c) = c"
    by (simp_all add: demo_lib2_def)
  with demo_rings demo_clocks [of c] c show ?thesis unfolding set_up2_def by (intro conjI exI) auto
qed


end
