(* ===== verification/Spec2Isabelle.thy ===== *)
theory Spec2Isabelle
  imports Thread_Runs Sfs_Main Sfs_Dir_Sessions Sfs_Handles Mymalloc_Examples Paged_Examples
begin

text \<open>
  A verification development for the three operating-system assignments of the repository: a
  preemptive user-level thread library (\<^verbatim>\<open>src/asst1\<close>), a page allocator and a paged memory for
  threads (\<^verbatim>\<open>src/asst2\<close>), and a file system for FUSE (\<^verbatim>\<open>src/asst3/assignment3/src\<close>).

  \<^bold>\<open>Conventions.\<close> A C function is a HOL function of the state it reads and writes, with its result and
  the new state in \<open>option\<close>: \<open>None\<close> stands for a run that does not return (a null or wild pointer, an
  index out of an array, a loop that never ends), so a theorem that shows \<open>Some\<close> shows that the code
  returns. Error codes are the integers of the source. Integers are HOL integers with the
  conversions and wrap-around of the source written out (\<open>to_short\<close>, \<open>to_int\<close>, \<open>u64\<close>, \<open>c_div\<close>, \<open>c_mod\<close>); modes
  and link counts are machine words. Loops that may run forever are \<open>partial_function\<close>s; no
  definition uses fuel. \<^verbatim>\<open>C_Prelude\<close> holds this vocabulary, bounds-checked arrays and the table scan
  \<open>scan\<close> that all allocators of the code are built on; \<open>post\<close> is partial correctness of such a run, with a rule for each
  construct, for invariants that have to hold whether or not the code returns. \<^verbatim>\<open>Fifo_Runs\<close>: sequences of operations on a bounded
  FIFO queue, as the locale \<open>fifo_store\<close>; the queues of asst1 and of asst2 are interpretations.

  \<^bold>\<open>Thread library\<close> (\<^verbatim>\<open>asst1/my_pthread.c\<close>, \<^verbatim>\<open>my_pthread_t.h\<close>).
  \<^verbatim>\<open>Queue_Heap\<close>: \<open>make_queue\<close>, \<open>get_next\<close>, \<open>enqueue\<close> on a heap of nodes with malloc and free; the ring behind a
  queue refines a FIFO list, other queues are untouched. \<^verbatim>\<open>Thread_Lib\<close>: the static data as the record
  \<open>lib\<close> and every function of the library, statement by statement. \<open>swapcontext\<close> is the change of
  \<open>running_thread\<close>; a call that raises the signal in its middle is split there into \<open>_enter\<close> and a second
  part. \<^verbatim>\<open>Scheduler\<close>: the invariant \<open>sched_ok\<close>, established by \<open>scheduler_init\<close>; what the signal handler does
  for each status; no thread is lost; a ready thread is dispatched after a bounded number of
  decisions. \<^verbatim>\<open>Thread_Calls\<close>, \<^verbatim>\<open>Thread_Join\<close>: identifiers, creation, mutexes, exit and join on every branch.
  \<^verbatim>\<open>Thread_Examples\<close>: these laws on a concrete state. \<^verbatim>\<open>Thread_System\<close>: threads that share a mutex as a step relation over the
  library, with the timer as an adversary; mutual exclusion and the absence of deadlock in every
  reachable state, by rule induction. \<^verbatim>\<open>Thread_Runs\<close>: a run of it.

  \<^bold>\<open>Allocator\<close> (\<^verbatim>\<open>asst2/mymalloc.c\<close>). \<^verbatim>\<open>Mymalloc\<close>: the metadata array as a list of slots, \<open>mymalloc\<close>, \<open>myfree\<close> and the
  unused \<open>mem_split\<close>. The invariant \<open>pool_ok\<close> fixes the layout of the 2029 pages, \<open>free_set\<close> is the abstract
  state. Shown: initialisation, first fit for one page and for runs of pages, bounds, round trips,
  and the exact effect of failing and of library requests. \<^verbatim>\<open>Page_Source\<close> states as locales what a client of
  a page allocator relies on; \<open>mymalloc\<close>/\<open>myfree\<close> and \<open>page_malloc\<close> are interpretations.

  \<^bold>\<open>Paged memory\<close> (\<^verbatim>\<open>asst2/my_pthread.c\<close>, lines 33 to 284 and 504 to 518). \<^verbatim>\<open>Paging\<close>: \<open>page_malloc\<close>, \<open>page_free\<close>,
  the fault handler, the protection of pages at a change of threads. \<^verbatim>\<open>Paging_Laws\<close>, \<^verbatim>\<open>Paging_Free\<close>: the doubly
  linked page lists of all threads as disjoint lists of page numbers (\<open>vm_ok\<close>), kept by allocation and
  freeing; what a fault does to memory, protection and metadata.

  \<^bold>\<open>Thread library on paged memory\<close> (\<^verbatim>\<open>asst2/my_pthread.c\<close>, lines 285 to 810). Here \<open>malloc\<close> and \<open>free\<close> are macros for
  \<open>page_malloc\<close> and \<open>page_free\<close>. \<^verbatim>\<open>Paged_Heap\<close>: loads and stores of bytes through the fault handler, and the queues as
  structs in pages. \<^verbatim>\<open>Paged_Queue\<close>: with all pages in one hand a queue refines a FIFO list until the pages
  are used up. \<^verbatim>\<open>Paged_Faults\<close>: what a thread stores it loads again, but two threads overwrite each other's pages.
  \<^verbatim>\<open>Paged_Lib\<close>, \<^verbatim>\<open>Paged_Sched\<close>: static data, timer, scheduler, thread calls and mutexes, as the record \<open>lib2\<close>; names end in 2.
  \<^verbatim>\<open>Paged_Start\<close>: the library stops in its initialisation. \<^verbatim>\<open>Paged_Dispatch\<close>: what yielding would do on an initialised
  library (\<open>set_up2\<close>). \<^verbatim>\<open>Paged_Examples\<close>: these laws on concrete states.

  \<^bold>\<open>File system\<close> (\<^verbatim>\<open>asst3/assignment3/src/sfs.c\<close>, \<^verbatim>\<open>params.h\<close>, \<^verbatim>\<open>block.c\<close>). \<^verbatim>\<open>Sfs_Disk\<close>: the block layer on the disk
  file; the locale \<open>block_store\<close> is what the file system relies on. \<^verbatim>\<open>Sfs_Core\<close>: inodes, names, handles,
  bitmap, block map, paths. \<^verbatim>\<open>Sfs_Ops\<close>: the operations FUSE calls, mounting and unmounting included.
  \<^verbatim>\<open>Sfs_Block_Map\<close>: appending a block through direct, single and double indirect tables keeps all blocks of
  the file distinct and writes only the file's own tables. \<^verbatim>\<open>Sfs_File_Data\<close>: \<open>sfs_read\<close> and \<open>sfs_write\<close> refine
  reading from and appending to the contents \<open>file_data\<close>. \<^verbatim>\<open>Sfs_Overwrite\<close>: every byte of a file after a write inside it. \<^verbatim>\<open>Sfs_Free\<close>: \<open>free_inode\<close> gives back exactly the blocks and tables of a
  file. \<^verbatim>\<open>Sfs_Dir_Text\<close>, \<^verbatim>\<open>Sfs_Dirs\<close>: a directory block as a list of
  entries; creating, listing and unlinking refine adding, listing and removing an entry. \<^verbatim>\<open>Sfs_Mkdir\<close>: the same for directories,
  and what their removal leaves allocated. \<^verbatim>\<open>Sfs_Handles\<close>: opening and releasing on every branch; what happens when a table is
  full. \<^verbatim>\<open>Sfs_Examples\<close>: the laws on a concrete tree. \<^verbatim>\<open>Sfs_Mount\<close>: the first mount formats the disk, a session of create, write, read
  and unlink on it works and leaks no block, and unmounting and mounting again restores the tables.
  \<^verbatim>\<open>Sfs_Dir_Sessions\<close>: sessions with directories, and the attributes a file gets after a directory was removed.
  \<^verbatim>\<open>Sfs_Types\<close>: every operation FUSE can call keeps the types of all tables. \<^verbatim>\<open>Sfs_Main\<close>: the table of operations as a
  function from requests to replies; from the first mount on every sequence of requests keeps the types, and looking up
  attributes, opening and releasing never leave an array; \<open>main\<close> and the command line.

  \<^bold>\<open>Bounds.\<close> The laws of reading and writing hold up to the 1110 blocks the block map can address and
  ask for three free blocks per block written (one for data, at most two for tables). The laws of directories
  are about directories whose text fits in one block, as the code itself reads only the first one.

  \<^bold>\<open>Parameters.\<close> The bytes of the saved tables (\<open>load_tables\<close>, \<open>save_tables\<close>), the answers of the operating system
  (\<open>fuse_env\<close>, \<open>env\<close>), the address from \<open>memalign\<close>, the content of uninitialised memory (\<open>junk\<close>).

  \<^bold>\<open>Not modelled.\<close> Logging (\<^verbatim>\<open>log.c\<close>) is output; \<^verbatim>\<open>fuse.h\<close> is the
  header of a library. In asst2 what \<open>makecontext\<close> writes to a new stack and the fields of the main thread's
  struct as bytes are left out. Benchmarks and tests only call the libraries.
\<close>

end
